(* ===== verification/Prelude.thy ===== *)
theory Prelude
  imports Main "HOL-Library.Word"
begin

unbundle bit_operations_syntax

text \<open>
  Shared vocabulary of the development.

  Results of code that may panic are values of the type \<open>'a res\<close>: \<open>Inl\<close> carries
  the reason of the panic, \<open>Inr\<close> the value.  The arithmetic is that of the
  release profile: machine integers wrap and the distance of a shift is taken
  modulo the width, so that the only panics are the ones the source states
  (\<open>assert!\<close>, \<open>unwrap\<close>, \<open>expect\<close>, \<open>unreachable!\<close>) and the bounds checks of slices.
\<close>

datatype panic =
    Assert_failed string
  | Index_out_of_bounds
  | Unwrap_failed string
  | Unreachable

type_synonym 'a res = "panic + 'a"
type_synonym u8 = "8 word"
type_synonym u16 = "16 word"
type_synonym u32 = "32 word"
type_synonym u64 = "64 word"
type_synonym bytes = "8 word list"

definition bindR :: "'a res \<Rightarrow> ('a \<Rightarrow> 'b res) \<Rightarrow> 'b res" where
  "bindR m f = (case m of Inl e \<Rightarrow> Inl e | Inr x \<Rightarrow> f x)"

definition assertR :: "string \<Rightarrow> bool \<Rightarrow> unit res" where
  "assertR msg b = (if b then Inr () else Inl (Assert_failed msg))"

definition nthR :: "'a list \<Rightarrow> nat \<Rightarrow> 'a res" where
  "nthR xs i = (if i < length xs then Inr (xs ! i) else Inl Index_out_of_bounds)"

definition panics_with :: "panic \<Rightarrow> 'a res \<Rightarrow> bool" where
  "panics_with e m = (case m of Inl e' \<Rightarrow> e' = e | Inr _ \<Rightarrow> False)"

definition returns_with :: "('a \<Rightarrow> bool) \<Rightarrow> 'a res \<Rightarrow> bool" where
  "returns_with P m = (case m of Inl _ \<Rightarrow> False | Inr x \<Rightarrow> P x)"

definition shl64 :: "u64 \<Rightarrow> nat \<Rightarrow> u64" where
  "shl64 w n = push_bit (n mod 64) w"

definition shr64 :: "u64 \<Rightarrow> nat \<Rightarrow> u64" where
  "shr64 w n = drop_bit (n mod 64) w"

definition leading_ones :: "u64 \<Rightarrow> nat" where
  "leading_ones w = length (takeWhile (bit w) (rev [0..<64]))"

named_theorems res_simps

lemma bindR_Inl [simp, res_simps]: "bindR (Inl e) f = Inl e"
  by (simp add: bindR_def)

lemma bindR_Inr [simp, res_simps]: "bindR (Inr x) f = f x"
  by (simp add: bindR_def)

lemma bindR_eq_Inr_iff [res_simps]:
  "bindR m f = Inr y \<longleftrightarrow> (\<exists>x. m = Inr x \<and> f x = Inr y)"
  by (cases m) simp_all

lemma bindR_isl [simp]: "isl (bindR m f) \<longleftrightarrow> isl m \<or> (\<exists>x. m = Inr x \<and> isl (f x))"
  by (cases m) simp_all

lemma returns_withI [intro]: "m = Inr y \<Longrightarrow> P y \<Longrightarrow> returns_with P m"
  by (simp add: returns_with_def)

lemma returns_with_Inr [simp]: "returns_with P (Inr y) = P y"
  by (simp add: returns_with_def)

lemma nthR_less [simp, res_simps]: "i < length xs \<Longrightarrow> nthR xs i = Inr (xs ! i)"
  by (simp add: nthR_def)

lemma assertR_True [simp, res_simps]: "assertR msg True = Inr ()"
  by (simp add: assertR_def)

lemma sint_of_int_64:
  assumes "- (2 ^ 63) \<le> i" and "i < 2 ^ 63"
  shows "sint (of_int i :: u64) = i"
  using assms by (simp add: signed_of_int signed_take_bit_int_eq_self)

lemma unat_of_nat64: "n < 2 ^ 64 \<Longrightarrow> unat (of_nat n :: u64) = n"
  by (simp add: unat_of_nat take_bit_nat_eq_self)

lemma of_nat64_inj: "(of_nat i :: u64) = of_nat j \<Longrightarrow> i < 2 ^ 64 \<Longrightarrow> j < 2 ^ 64 \<Longrightarrow> i = j"
  by (metis unat_of_nat64)

lemma leading_ones_le [simp]: "leading_ones w \<le> 64"
proof -
  have "leading_ones w \<le> length (rev [0..<64::nat])"
    unfolding leading_ones_def by (rule length_takeWhile_le)
  then show ?thesis by simp
qed

lemma leading_ones_minus_1 [simp]: "leading_ones (- 1) = 64"
proof -
  have all: "takeWhile (bit (- 1 :: u64)) (rev [0..<64]) = rev [0..<64]"
    unfolding takeWhile_eq_all_conv by simp
  show ?thesis unfolding leading_ones_def all by simp
qed

lemma leading_ones_bit:
  assumes "64 - leading_ones w \<le> k" and "k < 64"
  shows "bit w k"
proof -
  let ?xs = "rev [0..<64::nat]"
  have i: "63 - k < length (takeWhile (bit w) ?xs)"
    using assms unfolding leading_ones_def [symmetric] by linarith
  then have "takeWhile (bit w) ?xs ! (63 - k) \<in> set (takeWhile (bit w) ?xs)"
    by (rule nth_mem)
  moreover have "takeWhile (bit w) ?xs ! (63 - k) = ?xs ! (63 - k)"
    using i by (rule takeWhile_nth)
  moreover have "?xs ! (63 - k) = k"
    using assms by (simp add: rev_nth)
  ultimately show ?thesis by (metis set_takeWhileD)
qed

lemma leading_ones_nbit:
  assumes "leading_ones w < 64"
  shows "\<not> bit w (63 - leading_ones w)"
proof -
  let ?xs = "rev [0..<64::nat]"
  have "\<not> bit w (?xs ! leading_ones w)"
    using assms unfolding leading_ones_def by (intro nth_length_takeWhile) simp
  moreover have "?xs ! leading_ones w = 63 - leading_ones w"
    using assms by (simp add: rev_nth)
  ultimately show ?thesis by simp
qed

text \<open>What a computation guarantees of its result unless it panics.\<close>

definition post :: "'a res \<Rightarrow> ('a \<Rightarrow> bool) \<Rightarrow> bool" where
  "post r P \<longleftrightarrow> (\<forall>x. r = Inr x \<longrightarrow> P x)"

lemma post_simps [simp]: "post (Inr x) P \<longleftrightarrow> P x" "post (Inl e) P"
  by (simp_all add: post_def)

lemma bindR_assoc: "bindR (bindR m f) g = bindR m (\<lambda>x. bindR (f x) g)"
  by (simp add: bindR_def split: sum.split)

lemma post_bind: "post m Q \<Longrightarrow> (\<And>x. Q x \<Longrightarrow> post (k x) P) \<Longrightarrow> post (bindR m k) P"
  by (auto simp: post_def bindR_eq_Inr_iff)

lemma post_bind_any: "(\<And>x. post (k x) P) \<Longrightarrow> post (bindR m k) P"
  by (auto simp: post_def bindR_eq_Inr_iff)

lemma post_mono: "post r Q \<Longrightarrow> (\<And>x. Q x \<Longrightarrow> P x) \<Longrightarrow> post r P"
  by (simp add: post_def)

end
