(* ===== verification/Zdpr_Receiver.thy ===== *)
theory Zdpr_Receiver
  imports Prelude
begin

text \<open>
  The receiving side of a reliable ZDP session, \<open>adapter/ph/src/zdpr.rs\<close>:
  \<open>Disposition\<close>, \<open>ReceiverStat\<close> and \<open>Receiver\<close> with all its methods.  The window
  bitsets and the sequence numbers are kept at their width of 64 bits; the
  offset of a sequence number from \<open>highest_seen\<close> is the signed reading of the
  wrapped difference, as the cast \<open>as i64\<close> makes it.

  The second half gives the contract of a receive window over unbounded packet
  numbers (the n-th packet sent has sequence number \<open>n mod 2 ^ 64\<close>) and shows
  that the bitset implementation refines it.
\<close>

section \<open>The model\<close>

datatype Disposition =
    AckAndProcess
  | AckDoNotProcess
  | AckCancelDoNotProcess
  | Ignore

definition should_ack :: "Disposition \<Rightarrow> bool" where
  "should_ack d \<longleftrightarrow>
     (case d of AckAndProcess \<Rightarrow> True | AckDoNotProcess \<Rightarrow> True
      | AckCancelDoNotProcess \<Rightarrow> True | Ignore \<Rightarrow> False)"

definition ack_is_canceled :: "Disposition \<Rightarrow> bool" where
  "ack_is_canceled d \<longleftrightarrow> (case d of AckCancelDoNotProcess \<Rightarrow> True | _ \<Rightarrow> False)"

definition should_process :: "Disposition \<Rightarrow> bool" where
  "should_process d \<longleftrightarrow> (case d of AckAndProcess \<Rightarrow> True | _ \<Rightarrow> False)"

datatype ReceiverStat = TooOld | Duplicate | TooNew | OutOfOrder

definition ReceiverStat_is_protocol_error :: "ReceiverStat \<Rightarrow> bool" where
  "ReceiverStat_is_protocol_error st \<longleftrightarrow> (case st of TooNew \<Rightarrow> True | _ \<Rightarrow> False)"

record Receiver =
  rx_window_size :: nat
  highest_seen :: u64
  recvd :: u64
  canceled :: u64
  rx_stats :: "ReceiverStat \<Rightarrow> u64"

definition Receiver_MAX_WINDOW_SIZE :: nat where
  "Receiver_MAX_WINDOW_SIZE = 64"

definition Receiver_new :: "nat \<Rightarrow> Receiver res" where
  "Receiver_new window_size =
     bindR (assertR ''window_size >= 1'' (window_size \<ge> 1)) (\<lambda>_.
     bindR (assertR ''window_size <= MAX_WINDOW_SIZE''
              (window_size \<le> Receiver_MAX_WINDOW_SIZE)) (\<lambda>_.
     Inr \<lparr> rx_window_size = window_size, highest_seen = - 1, recvd = - 1,
           canceled = - 1, rx_stats = (\<lambda>_. 0) \<rparr>))"

definition oldest_unrecvd_offset :: "Receiver \<Rightarrow> int" where
  "oldest_unrecvd_offset r = - 64 + int (leading_ones (recvd r)) + 1"

definition rx_count :: "ReceiverStat \<Rightarrow> Receiver \<Rightarrow> Receiver" where
  "rx_count st r = r \<lparr> rx_stats := (rx_stats r) (st := rx_stats r st + 1) \<rparr>"

definition process_packet_or_cancel ::
  "Receiver \<Rightarrow> u64 \<Rightarrow> bool \<Rightarrow> Disposition \<times> Receiver" where
  "process_packet_or_cancel r sn is_cancel =
    (let offset = sint (sn - highest_seen r) in
     if offset \<le> - int (rx_window_size r) then (Ignore, rx_count TooOld r)
     else if offset \<ge> oldest_unrecvd_offset r + int (rx_window_size r)
     then (Ignore, rx_count TooNew r)
     else if offset > 0 then
       (let r1 = r \<lparr> highest_seen := highest_seen r + of_int offset,
                     recvd := shl64 (recvd r) (nat offset) OR 1,
                     canceled := shl64 (canceled r) (nat offset) \<rparr> in
        if is_cancel
        then (AckCancelDoNotProcess, r1 \<lparr> canceled := canceled r1 OR 1 \<rparr>)
        else (AckAndProcess, r1))
     else if shr64 (recvd r) (nat (- offset)) AND 1 = 0 then
       (let r1 = (rx_count OutOfOrder r)
                   \<lparr> recvd := recvd r OR shl64 1 (nat (- offset)) \<rparr> in
        if is_cancel
        then (AckCancelDoNotProcess,
              r1 \<lparr> canceled := canceled r OR shl64 1 (nat (- offset)) \<rparr>)
        else (AckAndProcess, r1))
     else if shr64 (canceled r) (nat (- offset)) AND 1 = 0
     then (AckDoNotProcess, rx_count Duplicate r)
     else (AckCancelDoNotProcess, rx_count Duplicate r))"

definition process_packet :: "Receiver \<Rightarrow> u64 \<Rightarrow> Disposition \<times> Receiver" where
  "process_packet r sn = process_packet_or_cancel r sn False"

definition process_cancel :: "Receiver \<Rightarrow> u64 \<Rightarrow> Disposition \<times> Receiver" where
  "process_cancel r sn = process_packet_or_cancel r sn True"

definition should_process_packet :: "Receiver \<Rightarrow> u64 \<Rightarrow> bool" where
  "should_process_packet r sn =
    (let offset = sint (sn - highest_seen r) in
     if offset \<le> - int (rx_window_size r) then False
     else if offset \<ge> oldest_unrecvd_offset r + int (rx_window_size r) then False
     else if offset > 0 then True
     else if shr64 (recvd r) (nat (- offset)) AND 1 = 0 then True
     else False)"

definition Receiver_fetch_reset_stat :: "Receiver \<Rightarrow> ReceiverStat \<Rightarrow> u64 \<times> Receiver" where
  "Receiver_fetch_reset_stat r st = (rx_stats r st, r \<lparr> rx_stats := (rx_stats r) (st := 0) \<rparr>)"

section \<open>The contract of a receive window\<close>

text \<open>
  The abstract state is the set of packet numbers accepted so far and the subset
  of those accepted as cancellations.  A packet is refused as too new when it is
  a window or more beyond the oldest packet still missing, accepted when it is
  missing otherwise, and answered like the first time when it was accepted
  before, unless it has left the window.
\<close>

record rx_spec =
  accepted :: "nat set"
  cancels :: "nat set"

definition oldest_missing :: "nat set \<Rightarrow> nat" where
  "oldest_missing R = (LEAST m. m \<notin> R)"

definition seen_count :: "nat set \<Rightarrow> nat" where
  "seen_count R = (if R = {} then 0 else Suc (Max R))"

definition spec_receive :: "nat \<Rightarrow> rx_spec \<Rightarrow> nat \<Rightarrow> bool \<Rightarrow> Disposition \<times> rx_spec" where
  "spec_receive ws a n is_cancel =
    (if n \<ge> oldest_missing (accepted a) + ws then (Ignore, a)
     else if n \<notin> accepted a then
       (if is_cancel
        then (AckCancelDoNotProcess,
              \<lparr> accepted = insert n (accepted a), cancels = insert n (cancels a) \<rparr>)
        else (AckAndProcess, \<lparr> accepted = insert n (accepted a), cancels = cancels a \<rparr>))
     else if n + ws < seen_count (accepted a) then (Ignore, a)
     else if n \<in> cancels a then (AckCancelDoNotProcess, a)
     else (AckDoNotProcess, a))"

text \<open>
  The simulation relation: bit k of the two bitsets describes packet
  \<open>H - 1 - k\<close>, where \<open>H\<close> counts the packet numbers up to the highest accepted, and
  no packet a window or more below the highest one is missing.
\<close>

definition rx_rel :: "Receiver \<Rightarrow> rx_spec \<Rightarrow> bool" where
  "rx_rel r a \<longleftrightarrow>
     (let H = seen_count (accepted a) in
      1 \<le> rx_window_size r \<and> rx_window_size r \<le> 63 \<and> finite (accepted a) \<and>
      cancels a \<subseteq> accepted a \<and>
      highest_seen r = of_nat H - 1 \<and>
      (\<forall>k<64. bit (recvd r) k \<longleftrightarrow> (k < H \<longrightarrow> H - 1 - k \<in> accepted a)) \<and>
      (\<forall>k<64. k < H \<longrightarrow> (bit (canceled r) k \<longleftrightarrow> H - 1 - k \<in> cancels a)) \<and>
      (\<forall>m<H. m \<notin> accepted a \<longrightarrow> H \<le> m + rx_window_size r))"

text \<open>
  A packet number is near the window when it is less than half of the sequence
  space away from the highest packet accepted; the code can tell apart only such
  numbers.
\<close>

definition near :: "nat set \<Rightarrow> nat \<Rightarrow> bool" where
  "near R n \<longleftrightarrow> - (2 ^ 63) \<le> int n + 1 - int (seen_count R) \<and>
              int n + 1 - int (seen_count R) < 2 ^ 63"

text \<open>
  Feeding a receiver a sequence of arrivals, each a packet number and whether it
  is a cancellation request; the log keeps the disposition of every arrival.
\<close>

type_synonym arrival = "nat \<times> bool"

fun rx_run :: "('r \<Rightarrow> u64 \<Rightarrow> bool \<Rightarrow> Disposition \<times> 'r) \<Rightarrow> 'r \<Rightarrow> arrival list
                 \<Rightarrow> (nat \<times> Disposition) list" where
  "rx_run step r [] = []"
| "rx_run step r ((n, c) # xs) =
     (let (d, r') = step r (of_nat n) c in (n, d) # rx_run step r' xs)"

fun spec_run :: "nat \<Rightarrow> rx_spec \<Rightarrow> arrival list \<Rightarrow> (nat \<times> Disposition) list" where
  "spec_run ws a [] = []"
| "spec_run ws a ((n, c) # xs) =
     (let (d, a') = spec_receive ws a n c in (n, d) # spec_run ws a' xs)"

definition log_of :: "Disposition \<Rightarrow> (nat \<times> Disposition) list \<Rightarrow> nat list" where
  "log_of d log = map fst (filter (\<lambda>e. snd e = d) log)"

section \<open>Facts about the contract\<close>

lemma spec_receive_cases:
  obtains (new) "n \<notin> accepted a" "\<not> c" "spec_receive ws a n c =
      (AckAndProcess, \<lparr> accepted = insert n (accepted a), cancels = cancels a \<rparr>)"
  | (cancel) "n \<notin> accepted a" "c" "spec_receive ws a n c =
      (AckCancelDoNotProcess,
       \<lparr> accepted = insert n (accepted a), cancels = insert n (cancels a) \<rparr>)"
  | (dup) "n \<in> accepted a" "n \<notin> cancels a" "spec_receive ws a n c = (AckDoNotProcess, a)"
  | (dup_cancel) "n \<in> accepted a" "n \<in> cancels a"
      "spec_receive ws a n c = (AckCancelDoNotProcess, a)"
  | (ignored) "spec_receive ws a n c = (Ignore, a)"
  by (cases "oldest_missing (accepted a) + ws \<le> n"; cases "n \<in> accepted a"; cases c;
      cases "n + ws < seen_count (accepted a)"; cases "n \<in> cancels a")
    (simp_all add: spec_receive_def)

lemma seen_count_upper: "finite R \<Longrightarrow> n \<in> R \<Longrightarrow> n < seen_count R"
  by (auto simp: seen_count_def less_Suc_eq_le)

lemma seen_count_insert_ge:
  assumes "finite R" and "seen_count R \<le> n"
  shows "seen_count (insert n R) = Suc n"
proof -
  have "Max (insert n R) = n"
    using assms by (intro Max_eqI) (auto dest: seen_count_upper intro: less_imp_le order.strict_trans2)
  then show ?thesis by (simp add: seen_count_def)
qed

lemma seen_count_mem: "finite R \<Longrightarrow> 0 < seen_count R \<Longrightarrow> seen_count R - 1 \<in> R"
  by (auto simp: seen_count_def split: if_splits)

lemma seen_count_insert_lt:
  assumes "finite R" and "n < seen_count R"
  shows "seen_count (insert n R) = seen_count R"
proof -
  have "R \<noteq> {}" "n \<le> Max R" using assms by (auto simp: seen_count_def split: if_splits)
  then show ?thesis using assms(1) by (simp add: seen_count_def max_def)
qed

lemma oldest_missing_notin: "finite R \<Longrightarrow> oldest_missing R \<notin> R"
  unfolding oldest_missing_def by (rule LeastI_ex) (metis ex_new_if_finite infinite_UNIV_nat)

lemma below_oldest_missing: "m < oldest_missing R \<Longrightarrow> m \<in> R"
  unfolding oldest_missing_def using not_less_Least by blast

lemma oldest_missing_le: "m \<notin> R \<Longrightarrow> oldest_missing R \<le> m"
  unfolding oldest_missing_def by (rule Least_le)

lemma oldest_missing_eqI: "m \<notin> R \<Longrightarrow> (\<And>k. k < m \<Longrightarrow> k \<in> R) \<Longrightarrow> oldest_missing R = m"
  unfolding oldest_missing_def by (rule Least_equality) (auto simp: not_less [symmetric])

lemma oldest_missing_le_seen: "finite R \<Longrightarrow> oldest_missing R \<le> seen_count R"
  by (rule oldest_missing_le) (auto dest: seen_count_upper)

section \<open>The bitsets refine the contract\<close>

lemma rx_rel_new:
  assumes "Receiver_new ws = Inr r" and "ws \<le> 63"
  shows "rx_rel r \<lparr> accepted = {}, cancels = {} \<rparr>"
  using assms
  by (auto simp: Receiver_new_def assertR_def rx_rel_def seen_count_def split: if_splits)

lemma rx_rel_oldest:
  assumes "rx_rel r a"
  shows "int (oldest_missing (accepted a)) =
           int (seen_count (accepted a)) - 1 + oldest_unrecvd_offset r"
proof -
  let ?R = "accepted a" let ?H = "seen_count ?R" let ?L = "leading_ones (recvd r)"
  have fin: "finite ?R" and ws: "rx_window_size r \<le> 63"
    and bits: "\<And>k. k < 64 \<Longrightarrow> bit (recvd r) k \<longleftrightarrow> (k < ?H \<longrightarrow> ?H - 1 - k \<in> ?R)"
    and miss: "\<And>m. m < ?H \<Longrightarrow> m \<notin> ?R \<Longrightarrow> ?H \<le> m + rx_window_size r"
    using assms by (auto simp: rx_rel_def Let_def)
  have low: "m \<in> ?R" if "m + 64 < ?H + ?L" "m < ?H" for m
  proof (cases "m + 64 \<le> ?H")
    case True
    then show ?thesis using miss [of m] ws that by force
  next
    case False
    then have "bit (recvd r) (?H - 1 - m)"
      using that by (intro leading_ones_bit) linarith+
    then show ?thesis using bits [of "?H - 1 - m"] False that by force
  qed
  show ?thesis
  proof (cases "?L = 64")
    case True
    have "oldest_missing ?R = ?H"
      using low True fin by (intro oldest_missing_eqI) (auto dest: seen_count_upper)
    then show ?thesis using True by (simp add: oldest_unrecvd_offset_def)
  next
    case False
    then have L: "?L < 64" using leading_ones_le [of "recvd r"] by linarith
    then have "\<not> bit (recvd r) (63 - ?L)" by (rule leading_ones_nbit)
    then have g: "63 - ?L < ?H" "?H - 1 - (63 - ?L) \<notin> ?R"
      using bits [of "63 - ?L"] by auto
    then have "oldest_missing ?R = ?H - 1 - (63 - ?L)"
      using low L by (intro oldest_missing_eqI) auto
    then show ?thesis using L g(1) by (simp add: oldest_unrecvd_offset_def)
  qed
qed


lemma rx_rel_offset:
  assumes "rx_rel r a"
    and "- (2 ^ 63) \<le> int n + 1 - int (seen_count (accepted a))"
    and "int n + 1 - int (seen_count (accepted a)) < 2 ^ 63"
  shows "sint (of_nat n - highest_seen r) = int n + 1 - int (seen_count (accepted a))"
proof -
  have "of_nat n - highest_seen r = (of_int (int n + 1 - int (seen_count (accepted a))) :: u64)"
    using assms(1) by (simp add: rx_rel_def Let_def)
  then show ?thesis using sint_of_int_64 [OF assms(2,3)] by (simp only:)
qed

lemma shr64_test: "k < 64 \<Longrightarrow> shr64 w k AND 1 = 0 \<longleftrightarrow> \<not> bit w k"
  by (simp add: shr64_def and_one_eq mod_2_eq_odd bit_iff_odd_drop_bit)

lemma bit_shl64_or_1:
  assumes "0 < s" and "s < 64" and "k < 64"
  shows "bit (shl64 w s OR 1) k \<longleftrightarrow> k = 0 \<or> s \<le> k \<and> bit w (k - s)"
  using assms by (auto simp: shl64_def bit_or_iff bit_push_bit_iff bit_1_iff)

lemma bit_shl64:
  assumes "s < 64" and "k < 64"
  shows "bit (shl64 w s) k \<longleftrightarrow> s \<le> k \<and> bit w (k - s)"
  using assms by (auto simp: shl64_def bit_push_bit_iff)

lemma bit_or_shl64_1:
  assumes "s < 64" and "k < 64"
  shows "bit (w OR shl64 1 s) k \<longleftrightarrow> k = s \<or> bit w k"
  using assms by (auto simp: shl64_def bit_or_iff bit_exp_iff)

lemmas rx_fields = rx_count_def Let_def

lemma rx_rel_window:
  assumes "rx_rel r a" and "n < oldest_missing (accepted a) + rx_window_size r"
  shows "n < seen_count (accepted a) + rx_window_size r"
  using assms oldest_missing_le_seen [of "accepted a"] by (auto simp: rx_rel_def Let_def)

text \<open>Advancing the highest sequence number shifts both bitsets.\<close>

lemma rx_rel_advance:
  assumes rel: "rx_rel r a" and new: "seen_count (accepted a) \<le> n"
    and win: "n < oldest_missing (accepted a) + rx_window_size r"
    and s: "s = Suc n - seen_count (accepted a)"
    and c': "c' = (if is_cancel then shl64 (canceled r) s OR 1 else shl64 (canceled r) s)"
  shows "rx_rel (r \<lparr> highest_seen := highest_seen r + of_nat s,
                     recvd := shl64 (recvd r) s OR 1, canceled := c' \<rparr>)
           \<lparr> accepted = insert n (accepted a),
             cancels = (if is_cancel then insert n (cancels a) else cancels a) \<rparr>"
    (is "rx_rel ?r ?a")
proof -
  let ?R = "accepted a" let ?H = "seen_count ?R"
  have fin: "finite ?R" and ws: "1 \<le> rx_window_size r" "rx_window_size r \<le> 63"
    and sub: "cancels a \<subseteq> ?R" and hs: "highest_seen r = of_nat ?H - 1"
    and bits: "\<And>k. k < 64 \<Longrightarrow> bit (recvd r) k \<longleftrightarrow> (k < ?H \<longrightarrow> ?H - 1 - k \<in> ?R)"
    and cbits: "\<And>k. k < 64 \<Longrightarrow> k < ?H \<Longrightarrow> bit (canceled r) k \<longleftrightarrow> ?H - 1 - k \<in> cancels a"
    using rel by (auto simp: rx_rel_def Let_def)
  have H': "seen_count (accepted ?a) = Suc n"
    using seen_count_insert_ge [OF fin new] by simp
  have s64: "0 < s" "s < 64"
    using s new ws rx_rel_window [OF rel win] by linarith+
  have nin: "m \<notin> ?R" if "?H \<le> m" for m
    using that fin seen_count_upper by (metis not_le)
  have idx: "n - k = ?H - 1 - (k - s)" "k - s < ?H" if "s \<le> k" "k < Suc n" for k
    using that s new by linarith+
  have hi: "?H \<le> n - k" if "\<not> s \<le> k" for k
    using that s new by linarith
  have b: "bit (recvd ?r) k \<longleftrightarrow> (k < Suc n \<longrightarrow> n - k \<in> insert n ?R)" if k: "k < 64" for k
  proof (cases "s \<le> k \<and> k < Suc n")
    case True
    then show ?thesis
      using idx [of k] bits [of "k - s"] k s64 by (auto simp: bit_shl64_or_1)
  next
    case False
    then show ?thesis
      using s64 k hi [of k] nin [of "n - k"] bits [of "k - s"] s
      by (auto simp: bit_shl64_or_1)
  qed
  have cb: "bit (canceled ?r) k \<longleftrightarrow> n - k \<in> cancels ?a" if k: "k < 64" "k < Suc n" for k
  proof (cases "s \<le> k")
    case True
    then have "k \<noteq> 0" "n - k \<noteq> n" using s64 k by auto
    then show ?thesis
      using True idx [of k] cbits [of "k - s"] k s64 c'
      by (auto simp: bit_shl64_or_1 bit_shl64)
  next
    case False
    then have "n - k \<notin> cancels a" using hi nin sub by blast
    then show ?thesis using False c' k s64 by (auto simp: bit_shl64_or_1 bit_shl64)
  qed
  have m: "Suc n \<le> m + rx_window_size r" if "m \<notin> insert n ?R" for m
    using oldest_missing_le [of m ?R] that win by auto
  have "highest_seen ?r = of_nat (Suc n) - 1"
    using hs s new by (simp add: of_nat_diff)
  then show ?thesis
    unfolding rx_rel_def Let_def H'
    using fin ws sub b cb m by auto
qed

text \<open>Marking a missing packet inside the window sets one bit.\<close>

lemma rx_rel_mark:
  assumes rel: "rx_rel r a" and old: "n < seen_count (accepted a)"
    and k: "s = seen_count (accepted a) - 1 - n" "s < 64"
    and c': "c' = (if is_cancel then canceled r OR shl64 1 s else canceled r)"
    and new: "n \<notin> accepted a"
  shows "rx_rel (r \<lparr> recvd := recvd r OR shl64 1 s, canceled := c', rx_stats := st \<rparr>)
           \<lparr> accepted = insert n (accepted a),
             cancels = (if is_cancel then insert n (cancels a) else cancels a) \<rparr>"
    (is "rx_rel ?r ?a")
proof -
  let ?R = "accepted a" let ?H = "seen_count ?R"
  have fin: "finite ?R" using rel by (auto simp: rx_rel_def Let_def)
  have H': "seen_count (accepted ?a) = ?H"
    using seen_count_insert_lt [OF fin old] by simp
  have idx: "j = s \<longleftrightarrow> ?H - 1 - j = n" if "j < ?H" for j
    using that k old by linarith
  have sub: "cancels a \<subseteq> ?R" using rel by (auto simp: rx_rel_def Let_def)
  show ?thesis
    unfolding rx_rel_def Let_def H'
    using rel idx k(2) sub new old c' k(1) unfolding rx_rel_def Let_def
    by (auto simp: bit_or_shl64_1)
qed

lemma rx_rel_stats [simp]: "rx_rel (r \<lparr> rx_stats := st \<rparr>) a = rx_rel r a"
  by (simp add: rx_rel_def)


lemma rx_sim:
  assumes rel: "rx_rel r a" and near: "near (accepted a) n"
    and res: "process_packet_or_cancel r (of_nat n) c = (d, r')"
  shows "\<exists>a'. spec_receive (rx_window_size r) a n c = (d, a') \<and> rx_rel r' a'"
proof -
  let ?R = "accepted a" let ?H = "seen_count ?R" let ?ws = "rx_window_size r"
  let ?o = "int n + 1 - int ?H"
  have fin: "finite ?R" and ws: "?ws \<le> 63"
    and bits: "\<And>k. k < 64 \<Longrightarrow> bit (recvd r) k \<longleftrightarrow> (k < ?H \<longrightarrow> ?H - 1 - k \<in> ?R)"
    and cbits: "\<And>k. k < 64 \<Longrightarrow> k < ?H \<Longrightarrow> bit (canceled r) k \<longleftrightarrow> ?H - 1 - k \<in> cancels a"
    and miss: "\<And>m. m < ?H \<Longrightarrow> m \<notin> ?R \<Longrightarrow> ?H \<le> m + ?ws"
    using rel by (auto simp: rx_rel_def Let_def)
  have off: "sint (of_nat n - highest_seen r) = ?o"
    using rx_rel_offset [OF rel] near by (simp add: near_def)
  have too_new: "?o \<ge> oldest_unrecvd_offset r + int ?ws \<longleftrightarrow> n \<ge> oldest_missing ?R + ?ws"
    using rx_rel_oldest [OF rel] by linarith
  have u: "?H \<le> oldest_missing ?R + ?ws"
    using miss [of "oldest_missing ?R"] oldest_missing_notin [OF fin] by linarith
  note step = res [unfolded process_packet_or_cancel_def Let_def off too_new]
  consider (old) "?o \<le> - int ?ws" | (newer) "\<not> ?o \<le> - int ?ws" "n \<ge> oldest_missing ?R + ?ws"
    | (adv) "\<not> ?o \<le> - int ?ws" "n < oldest_missing ?R + ?ws" "?o > 0"
    | (inw) "\<not> ?o \<le> - int ?ws" "n < oldest_missing ?R + ?ws" "?o \<le> 0" by linarith
  then show ?thesis
  proof cases
    case old
    then have "n \<in> ?R" using miss [of n] by force
    then show ?thesis using old step u rel by (auto simp: spec_receive_def rx_count_def)
  next
    case newer
    then show ?thesis using step rel by (auto simp: spec_receive_def rx_count_def)
  next
    case adv
    have new: "n \<notin> ?R" using adv(3) fin seen_count_upper [of ?R n] by linarith
    have H: "?H \<le> n" using adv(3) by linarith
    have s: "nat ?o = Suc n - ?H" "of_int ?o = (of_nat (Suc n - ?H) :: u64)"
      using H by (simp_all add: of_nat_diff)
    have d: "d = (if c then AckCancelDoNotProcess else AckAndProcess)"
      and r': "r' = r \<lparr> highest_seen := highest_seen r + of_nat (Suc n - ?H),
        recvd := shl64 (recvd r) (Suc n - ?H) OR 1,
        canceled := (if c then shl64 (canceled r) (Suc n - ?H) OR 1
                     else shl64 (canceled r) (Suc n - ?H)) \<rparr>"
      using step adv unfolding s by (auto split: if_splits)
    show ?thesis
      using rx_rel_advance [OF rel H adv(2) refl refl, of c] adv(2) new
      unfolding r' d by (cases c) (simp_all add: spec_receive_def)
  next
    case inw
    let ?s = "?H - 1 - n"
    have s: "nat (- ?o) = ?s" "?s < 64" "n < ?H" "?H - 1 - ?s = n" "?s < ?H"
      using inw ws by linarith+
    have seen: "bit (recvd r) ?s \<longleftrightarrow> n \<in> ?R" and canc: "bit (canceled r) ?s \<longleftrightarrow> n \<in> cancels a"
      using bits [OF s(2)] cbits [OF s(2)] s by auto
    note step' = step [unfolded s(1) shr64_test [OF s(2)] seen canc]
    show ?thesis
    proof (cases "n \<in> ?R")
      case True
      then show ?thesis using step' inw rel
        by (cases "n \<in> cancels a") (auto simp: spec_receive_def rx_count_def)
    next
      case False
      have d: "d = (if c then AckCancelDoNotProcess else AckAndProcess)"
        and r': "r' = r \<lparr> recvd := recvd r OR shl64 1 ?s,
          canceled := (if c then canceled r OR shl64 1 ?s else canceled r),
          rx_stats := rx_stats (rx_count OutOfOrder r) \<rparr>"
        using step' inw False by (auto simp: rx_count_def split: if_splits)
      show ?thesis
        using rx_rel_mark [where is_cancel = c, OF rel s(3) refl s(2) refl False] inw(2) False
        unfolding r' d by (cases c) (simp_all add: spec_receive_def)
    qed
  qed
qed


lemma rx_window_const: "rx_window_size (snd (process_packet_or_cancel r sn c)) = rx_window_size r"
  by (simp add: process_packet_or_cancel_def rx_count_def Let_def)

lemma rx_too_new_stat:
  assumes "rx_rel r a" and "near (accepted a) n"
    and "n < oldest_missing (accepted a) + rx_window_size r"
  shows "rx_stats (snd (process_packet_or_cancel r (of_nat n) c)) TooNew = rx_stats r TooNew"
proof -
  have "sint (of_nat n - highest_seen r) < oldest_unrecvd_offset r + int (rx_window_size r)"
    using rx_rel_offset [OF assms(1)] assms(2,3) rx_rel_oldest [OF assms(1)]
    by (simp add: near_def)
  then show ?thesis by (simp add: process_packet_or_cancel_def rx_count_def Let_def)
qed

lemma should_process_packet_iff:
  "should_process_packet r sn \<longleftrightarrow> fst (process_packet r sn) = AckAndProcess"
  by (simp add: should_process_packet_def process_packet_def process_packet_or_cancel_def Let_def)

section \<open>Clients of the receive window\<close>

text \<open>
  What the rest of the program relies on: each arrival is answered as the
  contract says, as long as its number is near the window.
\<close>

locale receive_window =
  fixes step :: "'r \<Rightarrow> u64 \<Rightarrow> bool \<Rightarrow> Disposition \<times> 'r"
    and rel :: "'r \<Rightarrow> rx_spec \<Rightarrow> bool"
    and win :: "'r \<Rightarrow> nat"
  assumes sim: "rel r a \<Longrightarrow> near (accepted a) n \<Longrightarrow> step r (of_nat n) c = (d, r') \<Longrightarrow>
      \<exists>a'. spec_receive (win r) a n c = (d, a') \<and> rel r' a'"
    and win: "win (snd (step r sn c)) = win r"
    and fin: "rel r a \<Longrightarrow> finite (accepted a) \<and> cancels a \<subseteq> accepted a"
begin

lemma near_bounded:
  assumes "rel r a" and "accepted a \<subseteq> {..<2 ^ 63 - 1}" and "n < 2 ^ 63 - 1"
  shows "near (accepted a) n"
proof -
  have "seen_count (accepted a) \<le> 2 ^ 63 - 1"
  proof (cases "accepted a = {}")
    case False
    then have "Max (accepted a) \<in> accepted a" using fin [OF assms(1)] by (intro Max_in) auto
    then show ?thesis using assms(2) False by (auto simp: seen_count_def)
  qed (simp add: seen_count_def)
  then show ?thesis using assms(3) unfolding near_def by auto
qed

lemma step_obtain:
  assumes "rel r a" and "accepted a \<subseteq> {..<2 ^ 63 - 1}" and "n < 2 ^ 63 - 1"
  obtains d r' a' where "step r (of_nat n) c = (d, r')" "rel r' a'"
    "spec_receive (win r) a n c = (d, a')" "accepted a' \<subseteq> {..<2 ^ 63 - 1}"
proof -
  obtain d r' where st: "step r (of_nat n) c = (d, r')" by (cases "step r (of_nat n) c")
  obtain a' where a': "spec_receive (win r) a n c = (d, a')" "rel r' a'"
    using sim [OF assms(1) near_bounded [OF assms] st] by blast
  have "accepted a' \<subseteq> {..<2 ^ 63 - 1}"
    using a'(1) assms(2,3) by (cases rule: spec_receive_cases [of n a c "win r"]) auto
  with st a' that show thesis by blast
qed

text \<open>Over any sequence of arrivals the answers are those of the contract.\<close>

lemma run_refines:
  assumes "rel r a" and "accepted a \<subseteq> {..<2 ^ 63 - 1}"
    and "\<forall>x \<in> set xs. fst x < 2 ^ 63 - 1"
  shows "rx_run step r xs = spec_run (win r) a xs"
  using assms
proof (induction xs arbitrary: r a)
  case (Cons x xs)
  obtain n c where x: "x = (n, c)" by (cases x)
  have n: "n < 2 ^ 63 - 1" using Cons.prems(3) x by simp
  obtain d r' a' where st: "step r (of_nat n) c = (d, r')" "rel r' a'"
    and sp: "spec_receive (win r) a n c = (d, a')" and b: "accepted a' \<subseteq> {..<2 ^ 63 - 1}"
    using step_obtain [OF Cons.prems(1,2) n] by blast
  have "win r' = win r" using win [of r "of_nat n" c] st by simp
  then show ?case using Cons.IH [OF st(2) b] Cons.prems(3) x st sp by simp
qed simp

text \<open>
  Over any sequence of arrivals, with every kind of loss, duplication and
  reordering: a packet is processed at most once, only if it was not accepted
  before, and no packet is both processed and acknowledged as canceled.
\<close>

lemma run_sound:
  assumes "rel r a" and "accepted a \<subseteq> {..<2 ^ 63 - 1}"
    and "\<forall>x \<in> set xs. fst x < 2 ^ 63 - 1"
  shows "distinct (log_of AckAndProcess (rx_run step r xs)) \<and>
    set (log_of AckAndProcess (rx_run step r xs)) \<inter> accepted a = {} \<and>
    set (log_of AckCancelDoNotProcess (rx_run step r xs)) \<inter>
      (set (log_of AckAndProcess (rx_run step r xs)) \<union> (accepted a - cancels a)) = {} \<and>
    set (log_of AckDoNotProcess (rx_run step r xs)) \<subseteq>
      set (log_of AckAndProcess (rx_run step r xs)) \<union> (accepted a - cancels a)"
  using assms
proof (induction xs arbitrary: r a)
  case Nil
  then show ?case by (simp add: log_of_def)
next
  case (Cons x xs)
  obtain n c where x: "x = (n, c)" by (cases x)
  have n: "n < 2 ^ 63 - 1" using Cons.prems(3) x by simp
  obtain d r' a' where st: "step r (of_nat n) c = (d, r')" "rel r' a'"
    and sp: "spec_receive (win r) a n c = (d, a')" and b: "accepted a' \<subseteq> {..<2 ^ 63 - 1}"
    using step_obtain [OF Cons.prems(1,2) n] by blast
  have sub: "cancels a \<subseteq> accepted a" using fin [OF Cons.prems(1)] by simp
  have run: "rx_run step r (x # xs) = (n, d) # rx_run step r' xs" using x st by simp
  note IH = Cons.IH [OF st(2) b]
  show ?case
    using sp IH Cons.prems(3) sub unfolding run
    by (cases rule: spec_receive_cases [of n a c "win r"]) (auto simp: log_of_def)
qed

end

interpretation rxw: receive_window process_packet_or_cancel rx_rel rx_window_size
proof unfold_locales
  show "\<exists>a'. spec_receive (rx_window_size r) a n c = (d, a') \<and> rx_rel r' a'"
    if "rx_rel r a" "near (accepted a) n" "process_packet_or_cancel r (of_nat n) c = (d, r')"
    for r a n c d r'
    using that by (rule rx_sim)
  show "rx_window_size (snd (process_packet_or_cancel r sn c)) = rx_window_size r" for r sn c
    by (rule rx_window_const)
  show "finite (accepted a) \<and> cancels a \<subseteq> accepted a" if "rx_rel r a" for r a
    using that by (simp add: rx_rel_def Let_def)
qed


section \<open>Properties\<close>

text \<open>C5 (receiver refinement).  A receiver created with a window of at most 63 packets
  answers every sequence of arrivals of packets and cancellation requests (lost,
  duplicated and reordered in any way) exactly as the contract over unbounded
  packet numbers does, as long as fewer than \<open>2 ^ 63 - 1\<close> packets are sent.\<close>

theorem receiver_refines:
  assumes "Receiver_new ws = Inr r" and "ws \<le> 63" and "\<forall>x \<in> set xs. fst x < 2 ^ 63 - 1"
  shows "rx_run process_packet_or_cancel r xs = spec_run ws \<lparr> accepted = {}, cancels = {} \<rparr> xs"
proof -
  have "rx_window_size r = ws"
    using assms(1) by (auto simp: Receiver_new_def assertR_def split: if_splits)
  then show ?thesis
    using rxw.run_refines [OF rx_rel_new [OF assms(1,2)] _ assms(3)] by simp
qed

theorem receiver_refines_witness:
  "\<exists>r. Receiver_new 32 = Inr r \<and>
     rx_run process_packet_or_cancel r [(1, False), (0, True), (1, False), (40, False)] =
     spec_run 32 \<lparr> accepted = {}, cancels = {} \<rparr> [(1, False), (0, True), (1, False), (40, False)]"
proof -
  obtain r where r: "Receiver_new 32 = Inr r"
    by (simp add: Receiver_new_def assertR_def Receiver_MAX_WINDOW_SIZE_def)
  show ?thesis
    using receiver_refines [OF r, of "[(1, False), (0, True), (1, False), (40, False)]"] r by simp
qed

text \<open>C20 (at most once).  Whatever arrives, and in whatever order, a receiver hands each
  packet to the caller at most once, and no packet it hands to the caller is ever
  acknowledged as canceled; a packet acknowledged as a duplicate was handed over.\<close>

theorem receiver_at_most_once:
  assumes "Receiver_new ws = Inr r" and "ws \<le> 63" and "\<forall>x \<in> set xs. fst x < 2 ^ 63 - 1"
    and "log = rx_run process_packet_or_cancel r xs"
  shows "distinct (log_of AckAndProcess log) \<and>
    set (log_of AckCancelDoNotProcess log) \<inter> set (log_of AckAndProcess log) = {} \<and>
    set (log_of AckDoNotProcess log) \<subseteq> set (log_of AckAndProcess log)"
  using rxw.run_sound [OF rx_rel_new [OF assms(1,2)] _ assms(3)] assms(4) by auto

theorem receiver_at_most_once_witness:
  "\<exists>r. Receiver_new 32 = Inr r \<and>
     distinct (log_of AckAndProcess (rx_run process_packet_or_cancel r [(2, False), (2, False)]))"
proof -
  obtain r where r: "Receiver_new 32 = Inr r"
    by (simp add: Receiver_new_def assertR_def Receiver_MAX_WINDOW_SIZE_def)
  show ?thesis
    using receiver_at_most_once [OF r _ _ refl, of "[(2, False), (2, False)]"] r by simp
qed

text \<open>C21 (no missing packet is refused).  A packet not accepted before, within a window of
  the oldest packet still missing, is accepted and handed to the caller.\<close>

theorem receiver_accepts_missing:
  assumes "rx_rel r a" and "near (accepted a) n" and "n \<notin> accepted a"
    and "n < oldest_missing (accepted a) + rx_window_size r"
  shows "fst (process_packet r (of_nat n)) = AckAndProcess"
  using rx_sim [OF assms(1,2), of False] assms(3,4)
  by (cases "process_packet_or_cancel r (of_nat n) False")
    (auto simp: process_packet_def spec_receive_def split: if_splits)

theorem receiver_accepts_missing_witness:
  "\<exists>r. Receiver_new 32 = Inr r \<and> fst (process_packet r (of_nat 31)) = AckAndProcess"
proof -
  obtain r where r: "Receiver_new 32 = Inr r" "rx_window_size r = 32"
    by (simp add: Receiver_new_def assertR_def Receiver_MAX_WINDOW_SIZE_def)
  have "rx_rel r \<lparr> accepted = {}, cancels = {} \<rparr>" using rx_rel_new [OF r(1)] by simp
  then show ?thesis
    using receiver_accepts_missing [of r "\<lparr> accepted = {}, cancels = {} \<rparr>" 31] r
    by (simp add: near_def seen_count_def)
qed

text \<open>C32 (query agrees with action).  \<open>should_process_packet\<close> predicts, in every state and
  for every sequence number, whether \<open>process_packet\<close> hands the packet over.\<close>

theorem should_process_agrees:
  "should_process_packet r sn \<longleftrightarrow> should_process (fst (process_packet r sn))"
  by (simp add: should_process_packet_iff should_process_def split: Disposition.split)

text \<open>A receiver accepts a window of 64 packets, but
  then the arrival of packet 63 shifts the bitsets by 64, which the hardware takes
  as 0: packet 0, which never arrived before, is answered as canceled.\<close>

theorem receiver_window_64_unsound:
  "\<exists>r. Receiver_new 64 = Inr r \<and>
     rx_run process_packet_or_cancel r [(63, False), (0, False)] =
       [(63, AckAndProcess), (0, AckCancelDoNotProcess)]"
  by (simp add: Receiver_new_def assertR_def Receiver_MAX_WINDOW_SIZE_def
      process_packet_or_cancel_def oldest_unrecvd_offset_def shl64_def shr64_def rx_count_def Let_def)

end
