(* ===== verification/Zdpr_Sender.thy ===== *)
theory Zdpr_Sender
  imports Prelude
begin

text \<open>
  The sending side of a reliable ZDP session, \<open>adapter/ph/src/zdpr.rs\<close>:
  \<open>UnackedState\<close>, \<open>BlockedState\<close> and \<open>Sender\<close> with all its methods.

  A waker is \<open>None\<close> for \<open>Waker::noop()\<close> and \<open>Some t\<close> for the waker of task \<open>t\<close>;
  operations that wake return the tasks they wake.  A mutable reference to a
  queued packet is returned as the packet's value.  Queue lengths are below
  \<open>2 ^ 63\<close>, so a cast of one to \<open>i64\<close> keeps its value; differences of sequence
  numbers and of packet IDs are kept as wrapped 64-bit words.
\<close>

section \<open>The state of one packet\<close>

type_synonym waker = "nat option"

definition wake :: "waker \<Rightarrow> nat list" where
  "wake w = (case w of None \<Rightarrow> [] | Some t \<Rightarrow> [t])"

datatype SenderStat = InvalidAck | TooOldAck | DuplicateAck | TooNewAck

definition SenderStat_is_protocol_error :: "SenderStat \<Rightarrow> bool" where
  "SenderStat_is_protocol_error st \<longleftrightarrow>
     (case st of InvalidAck \<Rightarrow> True | TooNewAck \<Rightarrow> True | _ \<Rightarrow> False)"

datatype 'p UnackedState =
    Unacked 'p waker "u8 option" u8 bool
  | CancelRequested waker bool
  | Acked
  | CancelAcked

definition Unacked_is_acked :: "'p UnackedState \<Rightarrow> bool" where
  "Unacked_is_acked st \<longleftrightarrow> (case st of Acked \<Rightarrow> True | CancelAcked \<Rightarrow> True | _ \<Rightarrow> False)"

definition Unacked_cancel :: "'p UnackedState \<Rightarrow> 'p option \<times> 'p UnackedState" where
  "Unacked_cancel st =
     (case st of Unacked packet waker _ _ forgotten \<Rightarrow>
        (Some packet, CancelRequested waker forgotten)
      | _ \<Rightarrow> (None, st))"

definition min_limit :: "u8 \<Rightarrow> u8 option \<Rightarrow> u8" where
  "min_limit limit retry_limit = min limit (case retry_limit of None \<Rightarrow> - 1 | Some l \<Rightarrow> l)"

definition Unacked_limit_retries :: "u8 \<Rightarrow> 'p UnackedState \<Rightarrow> 'p UnackedState" where
  "Unacked_limit_retries limit st =
     (case st of Unacked packet waker retry_limit retry_count forgotten \<Rightarrow>
        Unacked packet waker (Some (min_limit limit retry_limit)) retry_count forgotten
      | _ \<Rightarrow> st)"

definition Unacked_forget :: "'p UnackedState \<Rightarrow> 'p UnackedState" where
  "Unacked_forget st =
     (case st of
        Unacked packet waker (Some l) retry_count _ \<Rightarrow> Unacked packet waker (Some l) retry_count True
      | CancelRequested waker _ \<Rightarrow> CancelRequested waker True
      | CancelAcked \<Rightarrow> Acked
      | _ \<Rightarrow> st)"

definition Unacked_age_retries :: "'p UnackedState \<Rightarrow> 'p option \<times> 'p UnackedState" where
  "Unacked_age_retries st =
     (case st of
        Unacked packet waker retry_limit retry_count forgotten \<Rightarrow>
          (if (case retry_limit of Some limit \<Rightarrow> retry_count \<ge> limit | None \<Rightarrow> False)
           then Unacked_cancel st
           else (None, Unacked packet waker retry_limit
                   (if retry_count = - 1 then retry_count else retry_count + 1) forgotten))
      | _ \<Rightarrow> (None, st))"

definition Unacked_destruct :: "'p UnackedState \<Rightarrow> 'p option \<times> nat list" where
  "Unacked_destruct st =
     (case st of
        Unacked packet waker _ _ _ \<Rightarrow> (Some packet, wake waker)
      | CancelRequested waker _ \<Rightarrow> (None, wake waker)
      | _ \<Rightarrow> (None, []))"

datatype 'p BlockedState =
    Blocked 'p waker "u8 option"
  | Canceled

definition Blocked_cancel :: "'p BlockedState \<Rightarrow> ('p \<times> waker) option \<times> 'p BlockedState" where
  "Blocked_cancel st =
     (case st of Blocked packet waker _ \<Rightarrow> (Some (packet, waker), Canceled)
      | Canceled \<Rightarrow> (None, st))"

definition Blocked_limit_retries :: "u8 \<Rightarrow> 'p BlockedState \<Rightarrow> 'p BlockedState" where
  "Blocked_limit_retries limit st =
     (case st of Blocked packet waker retry_limit \<Rightarrow>
        Blocked packet waker (Some (min_limit limit retry_limit))
      | Canceled \<Rightarrow> st)"

definition Blocked_destruct :: "'p BlockedState \<Rightarrow> 'p option \<times> nat list" where
  "Blocked_destruct st =
     (case st of Blocked packet waker _ \<Rightarrow> (Some packet, wake waker) | Canceled \<Rightarrow> (None, []))"

section \<open>The sender\<close>

record 'p Sender =
  tx_window_size :: nat
  last_sent :: u64
  unacked :: "'p UnackedState list"
  last_enqueued :: u64
  blocked :: "'p BlockedState list"
  sent :: "u64 option list"
  tx_stats :: "SenderStat \<Rightarrow> u64"

datatype 'p EnqueueResult = Sent u64 'p | Queued u64

datatype 'a Poll = Pending | Ready 'a

text \<open>
  The two idioms every lookup uses: \<open>-offset >= len as i64\<close>, and the index
  \<open>(len as i64 + offset - 1) as usize\<close>.
\<close>

definition past_front :: "u64 \<Rightarrow> nat \<Rightarrow> bool" where
  "past_front offset len \<longleftrightarrow> sint (- offset) \<ge> int len"

definition queue_idx :: "u64 \<Rightarrow> nat \<Rightarrow> nat" where
  "queue_idx offset len = unat (of_nat len + offset - 1)"

definition tx_count :: "SenderStat \<Rightarrow> 'p Sender \<Rightarrow> 'p Sender" where
  "tx_count st s = s \<lparr> tx_stats := (tx_stats s) (st := tx_stats s st + 1) \<rparr>"

definition Sender_new :: "'p Sender" where
  "Sender_new = \<lparr> tx_window_size = 1, last_sent = - 1, unacked = [], last_enqueued = - 1,
                  blocked = [], sent = [], tx_stats = (\<lambda>_. 0) \<rparr>"

definition adjust_window_size :: "'p Sender \<Rightarrow> nat \<Rightarrow> 'p Sender res" where
  "adjust_window_size s window_size =
     bindR (assertR ''window_size >= 1'' (window_size \<ge> 1)) (\<lambda>_.
     Inr (s \<lparr> tx_window_size := min (2 ^ 64 - 1) window_size \<rparr>))"

definition is_blocked :: "'p Sender \<Rightarrow> bool" where
  "is_blocked s \<longleftrightarrow> length (unacked s) \<ge> tx_window_size s"

definition has_blocked_packets :: "'p Sender \<Rightarrow> bool" where
  "has_blocked_packets s \<longleftrightarrow> blocked s \<noteq> []"

definition is_sent :: "'p Sender \<Rightarrow> u64 \<Rightarrow> bool" where
  "is_sent s pid = (let offset = pid - last_enqueued s in past_front offset (length (blocked s)))"

definition is_acked :: "'p Sender \<Rightarrow> u64 \<Rightarrow> bool res" where
  "is_acked s sn =
    (let offset = sn - last_sent s in
     if sint offset > 0 then Inr False
     else if past_front offset (length (unacked s)) then Inr True
     else bindR (nthR (unacked s) (queue_idx offset (length (unacked s))))
            (\<lambda>st. Inr (Unacked_is_acked st)))"

definition is_cancel_acked :: "'p Sender \<Rightarrow> u64 \<Rightarrow> bool res" where
  "is_cancel_acked s sn =
    (let offset = sn - last_sent s in
     if sint offset > 0 then Inl (Assert_failed ''packet must have been acknowledged'')
     else if past_front offset (length (unacked s)) then Inr False
     else bindR (nthR (unacked s) (queue_idx offset (length (unacked s)))) (\<lambda>st.
       case st of
         Unacked _ _ _ _ _ \<Rightarrow> Inl (Assert_failed ''packet must have been acknowledged'')
       | CancelRequested _ _ \<Rightarrow> Inl (Assert_failed ''packet must have been acknowledged'')
       | CancelAcked \<Rightarrow> Inr True
       | Acked \<Rightarrow> Inr False))"

definition lookup_seq_num :: "'p Sender \<Rightarrow> u64 \<Rightarrow> u64 option res" where
  "lookup_seq_num s pid =
    (let offset = pid - last_enqueued s + of_nat (length (blocked s)) in
     bindR (assertR ''lookup of packet which has not yet been sent'' (sint offset \<le> 0)) (\<lambda>_.
     if past_front offset (length (sent s)) then Inr None
     else nthR (sent s) (queue_idx offset (length (sent s)))))"

definition poll_send :: "'p Sender \<Rightarrow> waker \<Rightarrow> u64 \<Rightarrow> (u64 option Poll \<times> 'p Sender) res" where
  "poll_send s cx pid =
    (let offset = pid - last_enqueued s in
     bindR (assertR ''poll of packet which has not yet been enqueued'' (sint offset \<le> 0)) (\<lambda>_.
     if past_front offset (length (blocked s))
     then bindR (lookup_seq_num s pid) (\<lambda>r. Inr (Ready r, s))
     else let idx = queue_idx offset (length (blocked s)) in
       bindR (nthR (blocked s) idx) (\<lambda>st.
         case st of
           Canceled \<Rightarrow> Inl (Assert_failed ''poll of cancelled packet'')
         | Blocked packet _ retry_limit \<Rightarrow>
             Inr (Pending, s \<lparr> blocked := (blocked s)[idx := Blocked packet cx retry_limit] \<rparr>))))"

definition poll_ack :: "'p Sender \<Rightarrow> waker \<Rightarrow> u64 \<Rightarrow> (unit Poll \<times> 'p Sender) res" where
  "poll_ack s cx sn =
    (let offset = sn - last_sent s in
     bindR (assertR ''poll of packet which has not yet been sent'' (sint offset \<le> 0)) (\<lambda>_.
     if past_front offset (length (unacked s)) then Inr (Ready (), s)
     else let idx = queue_idx offset (length (unacked s)) in
       bindR (nthR (unacked s) idx) (\<lambda>st.
         case st of
           Acked \<Rightarrow> Inr (Ready (), s)
         | CancelAcked \<Rightarrow> Inr (Ready (), s)
         | Unacked packet _ retry_limit retry_count forgotten \<Rightarrow>
             Inr (Pending, s \<lparr> unacked :=
               (unacked s)[idx := Unacked packet cx retry_limit retry_count forgotten] \<rparr>)
         | CancelRequested _ forgotten \<Rightarrow>
             Inr (Pending, s \<lparr> unacked := (unacked s)[idx := CancelRequested cx forgotten] \<rparr>))))"

definition poll_send_and_ack :: "'p Sender \<Rightarrow> waker \<Rightarrow> u64 \<Rightarrow> (unit Poll \<times> 'p Sender) res" where
  "poll_send_and_ack s cx pid =
     bindR (poll_send s cx pid) (\<lambda>(p, s1).
       case p of
         Pending \<Rightarrow> Inr (Pending, s1)
       | Ready None \<Rightarrow> Inr (Ready (), s1)
       | Ready (Some sn) \<Rightarrow> poll_ack s1 cx sn)"

definition enqueue_packet :: "'p Sender \<Rightarrow> 'p \<Rightarrow> 'p EnqueueResult \<times> 'p Sender" where
  "enqueue_packet s packet =
    (if is_blocked s \<or> has_blocked_packets s then
       (let s1 = s \<lparr> last_enqueued := last_enqueued s + 1,
                     blocked := blocked s @ [Blocked packet None None] \<rparr> in
        (Queued (last_enqueued s1), s1))
     else
       (let sn = last_sent s + 1 in
        (Sent sn packet,
         s \<lparr> unacked := unacked s @ [Unacked packet None None 0 False], last_sent := sn \<rparr>)))"

subsection \<open>Queue cleaning\<close>

fun clean_blocked_loop ::
  "'p BlockedState list \<Rightarrow> u64 option list \<Rightarrow> 'p BlockedState list \<times> u64 option list" where
  "clean_blocked_loop (Canceled # bs) ss = clean_blocked_loop bs (ss @ [None])"
| "clean_blocked_loop bs ss = (bs, ss)"

definition clean_blocked_queue :: "'p Sender \<Rightarrow> 'p Sender" where
  "clean_blocked_queue s =
     (case clean_blocked_loop (blocked s) (sent s) of (bs, ss) \<Rightarrow> s \<lparr> blocked := bs, sent := ss \<rparr>)"

fun clean_unacked_loop :: "'p UnackedState list \<Rightarrow> 'p UnackedState list" where
  "clean_unacked_loop (Acked # us) = clean_unacked_loop us"
| "clean_unacked_loop us = us"

definition clean_unacked_queue :: "'p Sender \<Rightarrow> 'p Sender" where
  "clean_unacked_queue s = s \<lparr> unacked := clean_unacked_loop (unacked s) \<rparr>"

fun clean_sent_loop :: "'p Sender \<Rightarrow> u64 option list \<Rightarrow> u64 option list res" where
  "clean_sent_loop s [] = Inr []"
| "clean_sent_loop s (None # ss) = clean_sent_loop s ss"
| "clean_sent_loop s (Some sn # ss) =
     bindR (is_acked s sn) (\<lambda>a. if \<not> a then Inr (Some sn # ss) else clean_sent_loop s ss)"

definition clean_sent_queue :: "'p Sender \<Rightarrow> 'p Sender res" where
  "clean_sent_queue s = bindR (clean_sent_loop s (sent s)) (\<lambda>ss. Inr (s \<lparr> sent := ss \<rparr>))"

subsection \<open>Cancellation\<close>

definition cancel_queued_packet ::
  "'p Sender \<Rightarrow> u64 \<Rightarrow> ('p option \<times> nat list \<times> 'p Sender) res" where
  "cancel_queued_packet s pid =
    (let offset = pid - last_enqueued s in
     bindR (assertR ''cancel of packet which has not yet been enqueued'' (sint offset \<le> 0)) (\<lambda>_.
     if past_front offset (length (blocked s)) then Inr (None, [], s)
     else let idx = queue_idx offset (length (blocked s)) in
       bindR (nthR (blocked s) idx) (\<lambda>st.
         case Blocked_cancel st of
           (None, st') \<Rightarrow> Inr (None, [], s \<lparr> blocked := (blocked s)[idx := st'] \<rparr>)
         | (Some (pkt, waker), st') \<Rightarrow>
             let s1 = s \<lparr> blocked := (blocked s)[idx := st'] \<rparr>;
                 s2 = (if idx = 0 then clean_blocked_queue s1 else s1) in
             Inr (Some pkt, wake waker, s2))))"

definition cancel_sent_packet :: "'p Sender \<Rightarrow> u64 \<Rightarrow> ('p option \<times> 'p Sender) res" where
  "cancel_sent_packet s sn =
    (let offset = sn - last_sent s in
     if sint offset > 0 \<or> past_front offset (length (unacked s)) then Inr (None, s)
     else let idx = queue_idx offset (length (unacked s)) in
       bindR (nthR (unacked s) idx) (\<lambda>st.
         case Unacked_cancel st of
           (r, st') \<Rightarrow> Inr (r, s \<lparr> unacked := (unacked s)[idx := st'] \<rparr>)))"

definition limit_retries_by_seq_num :: "'p Sender \<Rightarrow> u64 \<Rightarrow> u8 \<Rightarrow> 'p Sender res" where
  "limit_retries_by_seq_num s sn retry_limit =
    (let offset = sn - last_sent s in
     if sint offset > 0 \<or> past_front offset (length (unacked s)) then Inr s
     else let idx = queue_idx offset (length (unacked s)) in
       bindR (nthR (unacked s) idx) (\<lambda>st.
         Inr (s \<lparr> unacked := (unacked s)[idx := Unacked_limit_retries retry_limit st] \<rparr>)))"

definition limit_retries_by_id :: "'p Sender \<Rightarrow> u64 \<Rightarrow> u8 \<Rightarrow> 'p Sender res" where
  "limit_retries_by_id s pid retry_limit =
    (let offset = pid - last_enqueued s in
     bindR (assertR ''retry-limiting of packet which has not yet been enqueued''
              (sint offset \<le> 0)) (\<lambda>_.
     if past_front offset (length (blocked s))
     then bindR (lookup_seq_num s pid) (\<lambda>r.
            case r of None \<Rightarrow> Inr s | Some sn \<Rightarrow> limit_retries_by_seq_num s sn retry_limit)
     else let idx = queue_idx offset (length (blocked s)) in
       bindR (nthR (blocked s) idx) (\<lambda>st.
         Inr (s \<lparr> blocked := (blocked s)[idx := Blocked_limit_retries retry_limit st] \<rparr>))))"

definition forget_canceled_packet :: "'p Sender \<Rightarrow> u64 \<Rightarrow> 'p Sender res" where
  "forget_canceled_packet s sn =
    (let offset = sn - last_sent s in
     if sint offset > 0 \<or> past_front offset (length (unacked s)) then Inr s
     else let idx = queue_idx offset (length (unacked s)) in
       bindR (nthR (unacked s) idx) (\<lambda>st.
         let s1 = s \<lparr> unacked := (unacked s)[idx := Unacked_forget st] \<rparr>;
             s2 = (if idx = 0 then clean_unacked_queue s1 else s1) in
         clean_sent_queue s2))"

subsection \<open>Acknowledgements\<close>

definition lookup_ack_index :: "'p Sender \<Rightarrow> u64 \<Rightarrow> nat option \<times> 'p Sender" where
  "lookup_ack_index s sn =
    (let offset = sn - last_sent s in
     if sint offset > 0 then (None, tx_count TooNewAck s)
     else if past_front offset (length (unacked s)) then (None, tx_count TooOldAck s)
     else (Some (queue_idx offset (length (unacked s))), s))"

definition process_ack :: "'p Sender \<Rightarrow> u64 \<Rightarrow> ('p option \<times> nat list \<times> 'p Sender) res" where
  "process_ack s sn =
    (case lookup_ack_index s sn of
       (None, s1) \<Rightarrow> Inr (None, [], s1)
     | (Some idx, s1) \<Rightarrow>
         bindR (nthR (unacked s1) idx) (\<lambda>st.
           let finish = (\<lambda>pkt waker.
                 let s2 = s1 \<lparr> unacked := (unacked s1)[idx := Acked] \<rparr>;
                     s3 = (if idx = 0 then clean_unacked_queue s2 else s2) in
                 bindR (clean_sent_queue s3) (\<lambda>s4. Inr (pkt, wake waker, s4))) in
           case st of
             Unacked packet waker _ _ _ \<Rightarrow> finish (Some packet) waker
           | CancelRequested waker _ \<Rightarrow> finish None waker
           | Acked \<Rightarrow> Inr (None, [], tx_count DuplicateAck s1)
           | CancelAcked \<Rightarrow> Inr (None, [], tx_count InvalidAck s1)))"

definition process_canceled :: "'p Sender \<Rightarrow> u64 \<Rightarrow> (nat list \<times> 'p Sender) res" where
  "process_canceled s sn =
    (case lookup_ack_index s sn of
       (None, s1) \<Rightarrow> Inr ([], s1)
     | (Some idx, s1) \<Rightarrow>
         bindR (nthR (unacked s1) idx) (\<lambda>st.
           case st of
             CancelRequested waker forgotten \<Rightarrow>
               let s2 = s1 \<lparr> unacked := (unacked s1)
                               [idx := (if forgotten then Acked else CancelAcked)] \<rparr>;
                   s3 = (if idx = 0 then clean_unacked_queue s2 else s2) in
               bindR (clean_sent_queue s3) (\<lambda>s4. Inr (wake waker, s4))
           | Unacked _ _ _ _ _ \<Rightarrow> Inr ([], tx_count InvalidAck s1)
           | Acked \<Rightarrow> Inr ([], tx_count InvalidAck s1)
           | CancelAcked \<Rightarrow> Inr ([], tx_count DuplicateAck s1)))"

subsection \<open>Unblocking and retries\<close>

definition unblock_needed :: "'p Sender \<Rightarrow> bool" where
  "unblock_needed s \<longleftrightarrow> \<not> is_blocked s \<and> has_blocked_packets s"

definition enqueue_next_blocked_packet ::
  "'p Sender \<Rightarrow> (u64 \<times> 'p \<times> nat list \<times> 'p Sender) res" where
  "enqueue_next_blocked_packet s =
     bindR (assertR ''sender is blocked'' (\<not> is_blocked s)) (\<lambda>_.
       case blocked s of
         [] \<Rightarrow> Inl (Unwrap_failed ''no blocked packets'')
       | Canceled # _ \<Rightarrow> Inl (Assert_failed ''sender is blocked'')
       | Blocked packet waker retry_limit # bs \<Rightarrow>
           let sn = last_sent s + 1;
               s1 = s \<lparr> blocked := bs,
                        unacked := unacked s @ [Unacked packet None retry_limit 0 False],
                        last_sent := sn, sent := sent s @ [Some sn] \<rparr> in
           Inr (sn, packet, wake waker, clean_blocked_queue s1))"

definition retry_needed :: "'p Sender \<Rightarrow> bool" where
  "retry_needed s \<longleftrightarrow> (\<exists>st \<in> set (unacked s). \<not> Unacked_is_acked st)"

definition age_retries :: "'p Sender \<Rightarrow> 'p list \<times> 'p Sender" where
  "age_retries s =
     (let aged = map Unacked_age_retries (unacked s) in
      (List.map_filter fst aged, s \<lparr> unacked := map snd aged \<rparr>))"

definition sn_base :: "'p Sender \<Rightarrow> u64" where
  "sn_base s = last_sent s - of_nat (length (unacked s)) + 1"

definition retry_packets :: "'p Sender \<Rightarrow> (u64 \<times> 'p) list" where
  "retry_packets s =
     List.map_filter (\<lambda>(offset, st).
         case st of Unacked packet _ _ _ _ \<Rightarrow> Some (sn_base s + of_nat offset, packet) | _ \<Rightarrow> None)
       (enumerate 0 (unacked s))"

definition retry_cancels :: "'p Sender \<Rightarrow> u64 list" where
  "retry_cancels s =
     List.map_filter (\<lambda>(offset, st).
         case st of CancelRequested _ _ \<Rightarrow> Some (sn_base s + of_nat offset) | _ \<Rightarrow> None)
       (enumerate 0 (unacked s))"

definition Sender_destruct :: "'p Sender \<Rightarrow> 'p list \<times> nat list \<times> 'p Sender" where
  "Sender_destruct s =
     (let us = map Unacked_destruct (unacked s); bs = map Blocked_destruct (blocked s) in
      (List.map_filter fst us @ List.map_filter fst bs,
       concat (map snd us) @ concat (map snd bs),
       s \<lparr> unacked := [], blocked := [] \<rparr>))"

definition Sender_fetch_reset_stat :: "'p Sender \<Rightarrow> SenderStat \<Rightarrow> u64 \<times> 'p Sender" where
  "Sender_fetch_reset_stat s st = (tx_stats s st, s \<lparr> tx_stats := (tx_stats s) (st := 0) \<rparr>)"


section \<open>Packets as the caller sees them\<close>

text \<open>
  The state machine every packet follows (the comment above \<open>impl Sender\<close>), by
  packet number: the n-th packet sent is number n and carries sequence number
  \<open>of_nat n\<close>.  A packet that left the queue was acknowledged, so \<open>PDone\<close> stands
  for both ACKED and FORGOTTEN.
\<close>

datatype 'p pstate =
    PNotSent
  | PUnacked 'p
  | PCancelRequested
  | PCancelAcked
  | PDone

fun kind_of :: "'p UnackedState \<Rightarrow> 'p pstate" where
  "kind_of (Unacked p _ _ _ _) = PUnacked p"
| "kind_of (CancelRequested _ _) = PCancelRequested"
| "kind_of Acked = PDone"
| "kind_of CancelAcked = PCancelAcked"

definition sent_count :: "'p Sender \<Rightarrow> nat" where
  "sent_count s = unat (last_sent s + 1)"

definition queued_count :: "'p Sender \<Rightarrow> nat" where
  "queued_count s = unat (last_enqueued s + 1)"

definition window_base :: "'p Sender \<Rightarrow> nat" where
  "window_base s = sent_count s - length (unacked s)"

definition packet_state :: "'p Sender \<Rightarrow> nat \<Rightarrow> 'p pstate" where
  "packet_state s i =
     (if sent_count s \<le> i then PNotSent
      else if i < window_base s then PDone
      else kind_of (unacked s ! (i - window_base s)))"

text \<open>
  The invariant of the sender, as long as fewer than \<open>2 ^ 63\<close> packets were sent
  and queued: no acknowledged packet at the front of \<open>unacked\<close>, no canceled one at
  the front of \<open>blocked\<close>, and the \<open>sent\<close> queue names packets that were sent.
\<close>

definition tx_inv :: "'p Sender \<Rightarrow> bool" where
  "tx_inv s \<longleftrightarrow>
     sent_count s < 2 ^ 63 \<and> length (unacked s) \<le> sent_count s \<and>
     (unacked s \<noteq> [] \<longrightarrow> hd (unacked s) \<noteq> Acked) \<and>
     (blocked s \<noteq> [] \<longrightarrow> hd (blocked s) \<noteq> Canceled) \<and>
     (\<forall>sn. Some sn \<in> set (sent s) \<longrightarrow> (\<exists>i < sent_count s. sn = of_nat i))"

section \<open>Queue positions\<close>

named_theorems tx_defs

lemma last_sent_count: "last_sent s = of_nat (sent_count s) - 1"
  by (simp add: sent_count_def)

lemma last_enqueued_count: "last_enqueued s = of_nat (queued_count s) - 1"
  by (simp add: queued_count_def)

lemma queue_offset:
  assumes "i < N" and "N < 2 ^ 63"
  shows "sint (of_nat i - (of_nat N - 1) :: u64) = int i + 1 - int N"
    and "past_front (of_nat i - (of_nat N - 1)) len \<longleftrightarrow> i + len < N"
    and "N \<le> i + len \<Longrightarrow> len \<le> N \<Longrightarrow> queue_idx (of_nat i - (of_nat N - 1)) len = i + len - N"
proof -
  have N: "int N < 2 ^ 63" using assms(2) by simp
  have o: "of_nat i - (of_nat N - 1) = (of_int (int i + 1 - int N) :: u64)" by simp
  show "sint (of_nat i - (of_nat N - 1) :: u64) = int i + 1 - int N"
    unfolding o using assms(1) N by (intro sint_of_int_64) linarith+
  have "- (of_nat i - (of_nat N - 1)) = (of_int (int N - 1 - int i) :: u64)" by simp
  moreover have "sint (of_int (int N - 1 - int i) :: u64) = int N - 1 - int i"
    using assms(1) N by (intro sint_of_int_64) linarith+
  ultimately have "sint (- (of_nat i - (of_nat N - 1)) :: u64) = int N - 1 - int i"
    by (simp only:)
  then show "past_front (of_nat i - (of_nat N - 1)) len \<longleftrightarrow> i + len < N"
    using assms by (simp only: past_front_def) linarith
  show "queue_idx (of_nat i - (of_nat N - 1)) len = i + len - N"
    if len: "N \<le> i + len" "len \<le> N"
  proof -
    have "of_nat len + (of_nat i - (of_nat N - 1)) - 1 = (of_nat (i + len - N) :: u64)"
      using len by (simp add: of_nat_diff)
    moreover have "i + len - N < 2 ^ 64"
      by (rule le_less_trans [of _ N]) (use assms len in simp_all)
    ultimately show ?thesis
      by (simp add: queue_idx_def unat_of_nat take_bit_nat_eq_self)
  qed
qed

lemma unacked_offset:
  assumes "tx_inv s" and "i < sent_count s"
  shows "sint (of_nat i - last_sent s) \<le> 0"
    and "past_front (of_nat i - last_sent s) (length (unacked s)) \<longleftrightarrow> i < window_base s"
    and "window_base s \<le> i \<Longrightarrow>
      queue_idx (of_nat i - last_sent s) (length (unacked s)) = i - window_base s"
    and "window_base s \<le> i \<Longrightarrow> i - window_base s < length (unacked s)"
proof -
  have N: "sent_count s < 2 ^ 63" and len: "length (unacked s) \<le> sent_count s"
    using assms(1) by (auto simp: tx_inv_def)
  note q = queue_offset [OF assms(2) N]
  show "sint (of_nat i - last_sent s) \<le> 0"
    unfolding last_sent_count q(1) using assms(2) by linarith
  show "past_front (of_nat i - last_sent s) (length (unacked s)) \<longleftrightarrow> i < window_base s"
    unfolding last_sent_count q(2) window_base_def using len assms(2) by linarith
  show "queue_idx (of_nat i - last_sent s) (length (unacked s)) = i - window_base s"
    if "window_base s \<le> i"
    unfolding last_sent_count using q(3) [of "length (unacked s)"] that len
    by (simp add: window_base_def)
  show "i - window_base s < length (unacked s)" if "window_base s \<le> i"
    using that assms(2) len by (simp add: window_base_def)
qed

section \<open>The cleaning loops\<close>

lemma clean_unacked_loop_drop:
  "\<exists>k \<le> length us. clean_unacked_loop us = drop k us \<and> (\<forall>j < k. us ! j = Acked) \<and>
     (clean_unacked_loop us \<noteq> [] \<longrightarrow> hd (clean_unacked_loop us) \<noteq> Acked)"
proof (induction us rule: clean_unacked_loop.induct)
  case (1 us)
  then obtain k where "k \<le> length us" "clean_unacked_loop us = drop k us"
    "\<forall>j < k. us ! j = Acked" "clean_unacked_loop us \<noteq> [] \<longrightarrow> hd (clean_unacked_loop us) \<noteq> Acked"
    by blast
  then show ?case
    by (intro exI [of _ "Suc k"]) (auto simp: nth_Cons split: nat.split)
qed (intro exI [of _ 0], simp)+

lemma clean_blocked_loop_hd:
  "fst (clean_blocked_loop bs ss) \<noteq> [] \<Longrightarrow> hd (fst (clean_blocked_loop bs ss)) \<noteq> Canceled"
  by (induction bs ss rule: clean_blocked_loop.induct) simp_all

lemma clean_blocked_loop_sent:
  "Some sn \<in> set (snd (clean_blocked_loop bs ss)) \<longleftrightarrow> Some sn \<in> set ss"
  by (induction bs ss rule: clean_blocked_loop.induct) auto

lemma packet_state_cong:
  "last_sent s' = last_sent s \<Longrightarrow> unacked s' = unacked s \<Longrightarrow> packet_state s' = packet_state s"
  by (simp add: packet_state_def sent_count_def window_base_def fun_eq_iff)

lemma clean_unacked_queue_state:
  assumes "length (unacked s) \<le> sent_count s"
  shows "packet_state (clean_unacked_queue s) = packet_state s"
    and "length (unacked (clean_unacked_queue s)) \<le> length (unacked s)"
    and "unacked (clean_unacked_queue s) \<noteq> [] \<longrightarrow> hd (unacked (clean_unacked_queue s)) \<noteq> Acked"
proof -
  let ?s = "clean_unacked_queue s"
  obtain k where k: "k \<le> length (unacked s)" "unacked ?s = drop k (unacked s)"
    "\<forall>j < k. unacked s ! j = Acked" and hd: "unacked ?s \<noteq> [] \<longrightarrow> hd (unacked ?s) \<noteq> Acked"
    using clean_unacked_loop_drop [of "unacked s"] by (auto simp: clean_unacked_queue_def)
  have N: "sent_count ?s = sent_count s" by (simp add: sent_count_def clean_unacked_queue_def)
  have b: "window_base ?s = window_base s + k"
    using k assms by (simp add: window_base_def N)
  show "packet_state ?s = packet_state s"
  proof
    fix i
    show "packet_state ?s i = packet_state s i"
    proof (cases "window_base s \<le> i \<and> i < window_base ?s")
      case True
      then have "i - window_base s < k" using b by linarith
      then have "unacked s ! (i - window_base s) = Acked" using k(3) by blast
      then show ?thesis using True by (simp add: packet_state_def N)
    next
      case False
      then show ?thesis using k b by (auto simp: packet_state_def N add.commute)
    qed
  qed
  show "length (unacked ?s) \<le> length (unacked s)" using k by simp
  show "unacked ?s \<noteq> [] \<longrightarrow> hd (unacked ?s) \<noteq> Acked" by (rule hd)
qed

lemma is_acked_state:
  assumes "tx_inv s" and "i < sent_count s"
  shows "is_acked s (of_nat i) = Inr (packet_state s i \<in> {PDone, PCancelAcked})"
  using unacked_offset [OF assms] assms(2)
  by (cases "unacked s ! (i - window_base s)")
    (auto simp: is_acked_def Let_def packet_state_def Unacked_is_acked_def not_less)


lemma clean_sent_loop_ok:
  assumes "tx_inv s" and "\<And>sn. Some sn \<in> set ss \<Longrightarrow> \<exists>i < sent_count s. sn = of_nat i"
  shows "\<exists>k \<le> length ss. clean_sent_loop s ss = Inr (drop k ss) \<and>
    (\<forall>j < k. \<forall>sn. ss ! j = Some sn \<longrightarrow> is_acked s sn = Inr True)"
  using assms
proof (induction s ss rule: clean_sent_loop.induct)
  case (2 s ss)
  then obtain k where "k \<le> length ss" "clean_sent_loop s ss = Inr (drop k ss)"
    "\<forall>j < k. \<forall>sn. ss ! j = Some sn \<longrightarrow> is_acked s sn = Inr True" by auto
  then show ?case by (intro exI [of _ "Suc k"]) (auto simp: nth_Cons split: nat.split)
next
  case (3 s sn ss)
  obtain i where i: "i < sent_count s" "sn = of_nat i" using "3.prems"(2) [of sn] by auto
  then obtain b where b: "is_acked s sn = Inr b"
    using is_acked_state [OF "3.prems"(1) i(1)] by simp
  show ?case
  proof (cases b)
    case True
    then obtain k where "k \<le> length ss" "clean_sent_loop s ss = Inr (drop k ss)"
      "\<forall>j < k. \<forall>sn. ss ! j = Some sn \<longrightarrow> is_acked s sn = Inr True"
      using "3.IH" [of b] "3.prems" by auto
    then show ?thesis
      using b True by (intro exI [of _ "Suc k"]) (auto simp: nth_Cons split: nat.split)
  qed (use b in \<open>intro exI [of _ 0], simp\<close>)
qed simp

lemma clean_sent_queue_ok:
  assumes "tx_inv s"
  obtains k where "clean_sent_queue s = Inr (s \<lparr> sent := drop k (sent s) \<rparr>)"
    "k \<le> length (sent s)" "\<forall>j < k. \<forall>sn. sent s ! j = Some sn \<longrightarrow> is_acked s sn = Inr True"
    "tx_inv (s \<lparr> sent := drop k (sent s) \<rparr>)"
proof -
  obtain k where k: "k \<le> length (sent s)" "clean_sent_loop s (sent s) = Inr (drop k (sent s))"
    "\<forall>j < k. \<forall>sn. sent s ! j = Some sn \<longrightarrow> is_acked s sn = Inr True"
    using clean_sent_loop_ok [OF assms, of "sent s"] assms by (auto simp: tx_inv_def)
  have "tx_inv (s \<lparr> sent := drop k (sent s) \<rparr>)"
    using assms by (auto simp: tx_inv_def sent_count_def dest!: in_set_dropD)
  with k that show thesis by (simp add: clean_sent_queue_def)
qed

section \<open>Updating the entry of one packet\<close>

definition set_entry :: "'p Sender \<Rightarrow> nat \<Rightarrow> 'p UnackedState \<Rightarrow> 'p Sender" where
  "set_entry s i st = s \<lparr> unacked := (unacked s)[i - window_base s := st] \<rparr>"

definition set_entry_clean :: "'p Sender \<Rightarrow> nat \<Rightarrow> 'p UnackedState \<Rightarrow> 'p Sender" where
  "set_entry_clean s i st =
     (if i - window_base s = 0 then clean_unacked_queue (set_entry s i st) else set_entry s i st)"

lemma set_entry_simps [simp]:
  "last_sent (set_entry s i st) = last_sent s" "blocked (set_entry s i st) = blocked s"
  "sent (set_entry s i st) = sent s" "last_enqueued (set_entry s i st) = last_enqueued s"
  "tx_window_size (set_entry s i st) = tx_window_size s" "tx_stats (set_entry s i st) = tx_stats s"
  "sent_count (set_entry s i st) = sent_count s" "window_base (set_entry s i st) = window_base s"
  "length (unacked (set_entry s i st)) = length (unacked s)"
  by (simp_all add: set_entry_def sent_count_def window_base_def)

lemma clean_unacked_queue_simps [simp]:
  "last_sent (clean_unacked_queue s) = last_sent s" "blocked (clean_unacked_queue s) = blocked s"
  "sent (clean_unacked_queue s) = sent s" "last_enqueued (clean_unacked_queue s) = last_enqueued s"
  "tx_window_size (clean_unacked_queue s) = tx_window_size s"
  "tx_stats (clean_unacked_queue s) = tx_stats s" "sent_count (clean_unacked_queue s) = sent_count s"
  by (simp_all add: clean_unacked_queue_def sent_count_def)

lemma set_entry_clean_simps [simp]:
  "last_sent (set_entry_clean s i st) = last_sent s" "blocked (set_entry_clean s i st) = blocked s"
  "sent (set_entry_clean s i st) = sent s" "last_enqueued (set_entry_clean s i st) = last_enqueued s"
  "tx_window_size (set_entry_clean s i st) = tx_window_size s"
  "tx_stats (set_entry_clean s i st) = tx_stats s" "sent_count (set_entry_clean s i st) = sent_count s"
  by (simp_all add: set_entry_clean_def)

lemma set_entry_state:
  assumes "tx_inv s" and "window_base s \<le> i" and "i < sent_count s"
  shows "packet_state (set_entry s i st) = (packet_state s) (i := kind_of st)"
proof
  fix j
  have "i - window_base s < length (unacked s)" using unacked_offset(4) assms by blast
  then show "packet_state (set_entry s i st) j = ((packet_state s) (i := kind_of st)) j"
    using assms(2,3)
    by (auto simp: packet_state_def nth_list_update set_entry_def sent_count_def window_base_def)
qed

lemma set_entry_inv:
  assumes "tx_inv s" and "window_base s \<le> i" and "i < sent_count s"
    and "st = Acked \<longrightarrow> i \<noteq> window_base s"
  shows "tx_inv (set_entry s i st)"
proof -
  have "hd ((unacked s)[i - window_base s := st]) \<noteq> Acked" if "unacked s \<noteq> []"
  proof (cases "i = window_base s")
    case True
    then have "st \<noteq> Acked" using assms(4) by blast
    then show ?thesis using True that by (cases "unacked s") simp_all
  next
    case False
    then have "i - window_base s \<noteq> 0" using assms(2) by simp
    then show ?thesis
      using that assms(1) by (cases "unacked s"; cases "i - window_base s") (auto simp: tx_inv_def)
  qed
  then show ?thesis
    using assms(1) by (auto simp: tx_inv_def) (auto simp: set_entry_def)
qed

lemma set_entry_clean_state:
  assumes "tx_inv s" and "window_base s \<le> i" and "i < sent_count s"
  shows "packet_state (set_entry_clean s i st) = (packet_state s) (i := kind_of st)"
    and "tx_inv (set_entry_clean s i st)"
    and "length (unacked (set_entry_clean s i st)) \<le> length (unacked s)"
proof -
  have len: "length (unacked (set_entry s i st)) \<le> sent_count (set_entry s i st)"
    using assms(1) by (simp add: tx_inv_def)
  note cl = clean_unacked_queue_state [OF len]
  show "packet_state (set_entry_clean s i st) = (packet_state s) (i := kind_of st)"
    using cl(1) set_entry_state [OF assms] by (simp add: set_entry_clean_def)
  show "length (unacked (set_entry_clean s i st)) \<le> length (unacked s)"
    using cl(2) by (simp add: set_entry_clean_def)
  show "tx_inv (set_entry_clean s i st)"
  proof (cases "i = window_base s")
    case True
    then show ?thesis
      using assms(1) cl(2,3) by (auto simp: set_entry_clean_def tx_inv_def)
  next
    case False
    then show ?thesis
      using assms set_entry_inv [OF assms] by (simp add: set_entry_clean_def)
  qed
qed


section \<open>The operations on packet states\<close>

definition acked_state :: "'p pstate \<Rightarrow> 'p pstate" where
  "acked_state st = (case st of PUnacked _ \<Rightarrow> PDone | PCancelRequested \<Rightarrow> PDone | _ \<Rightarrow> st)"

definition acked_packet :: "'p pstate \<Rightarrow> 'p option" where
  "acked_packet st = (case st of PUnacked p \<Rightarrow> Some p | _ \<Rightarrow> None)"

definition tx_frame :: "'p Sender \<Rightarrow> 'p Sender \<Rightarrow> bool" where
  "tx_frame s s' \<longleftrightarrow> last_sent s' = last_sent s \<and> last_enqueued s' = last_enqueued s \<and>
     blocked s' = blocked s \<and> tx_window_size s' = tx_window_size s \<and>
     length (unacked s') \<le> length (unacked s)"

lemma tx_frame_count: "tx_frame s s' \<Longrightarrow> sent_count s' = sent_count s"
  by (simp add: tx_frame_def sent_count_def)

lemma tx_count_simps [simp]:
  "sent (tx_count st s) = sent s" "unacked (tx_count st s) = unacked s"
  "tx_stats (tx_count st s) = (tx_stats s) (st := tx_stats s st + 1)"
  by (simp_all add: tx_count_def)

lemma ex_drop_self [simp]: "\<exists>k. xs = drop k xs"
  by (rule exI [of _ 0]) simp

lemma tx_inv_count [simp]: "tx_inv (tx_count st s) = tx_inv s"
  by (simp add: tx_inv_def tx_count_def sent_count_def)

lemma packet_state_count [simp]: "packet_state (tx_count st s) = packet_state s"
  by (rule packet_state_cong) (simp_all add: tx_count_def)

lemma tx_frame_refl [simp]: "tx_frame s s" "tx_frame s (tx_count st s)"
  by (simp_all add: tx_frame_def tx_count_def)

lemma packet_state_entry:
  "window_base s \<le> i \<Longrightarrow> i < sent_count s \<Longrightarrow>
     packet_state s i = kind_of (unacked s ! (i - window_base s))"
  by (simp add: packet_state_def)

lemma packet_state_out:
  "i < window_base s \<Longrightarrow> i < sent_count s \<Longrightarrow> packet_state s i = PDone"
  by (simp add: packet_state_def)

text \<open>Settling an entry: the update, the cleaning of both queues, the wake-up.\<close>

lemma settle_entry:
  assumes "tx_inv s" and "window_base s \<le> i" and "i < sent_count s"
  obtains s' where "clean_sent_queue (set_entry_clean s i st) = Inr s'" "tx_inv s'" "tx_frame s s'"
    "packet_state s' = (packet_state s) (i := kind_of st)" "tx_stats s' = tx_stats s"
    "\<exists>k. sent s' = drop k (sent s)"
proof -
  note e = set_entry_clean_state [OF assms, of st]
  obtain k where k: "clean_sent_queue (set_entry_clean s i st) =
      Inr (set_entry_clean s i st \<lparr> sent := drop k (sent s) \<rparr>)"
    "tx_inv (set_entry_clean s i st \<lparr> sent := drop k (sent s) \<rparr>)"
    using clean_sent_queue_ok [OF e(2)] by (metis set_entry_clean_simps(3))
  let ?s = "set_entry_clean s i st \<lparr> sent := drop k (sent s) \<rparr>"
  have "packet_state ?s = packet_state (set_entry_clean s i st)"
    by (rule packet_state_cong) simp_all
  with that [of ?s] k e show thesis by (auto simp: tx_frame_def)
qed

lemma lookup_ack_index_entry:
  assumes "tx_inv s" and "i < sent_count s"
  shows "lookup_ack_index s (of_nat i) =
    (if i < window_base s then (None, tx_count TooOldAck s) else (Some (i - window_base s), s))"
  using unacked_offset [OF assms] by (auto simp: lookup_ack_index_def Let_def not_less)

lemma process_ack_ok:
  assumes "tx_inv s" and "i < sent_count s"
  obtains ws s' where
    "process_ack s (of_nat i) = Inr (acked_packet (packet_state s i), ws, s')"
    "tx_inv s'" "tx_frame s s'" "\<exists>k. sent s' = drop k (sent s)"
    "packet_state s' = (packet_state s) (i := acked_state (packet_state s i))"
    "packet_state s i \<noteq> PCancelAcked \<Longrightarrow> tx_stats s' InvalidAck = tx_stats s InvalidAck"
    "tx_stats s' TooNewAck = tx_stats s TooNewAck"
proof (cases "i < window_base s")
  case True
  have st: "packet_state s i = PDone" using packet_state_out [OF True assms(2)] .
  have "(packet_state s) (i := PDone) = packet_state s" using st by auto
  then show thesis
    using True that [of "[]" "tx_count TooOldAck s"] assms st
    by (auto simp: process_ack_def lookup_ack_index_entry [OF assms] acked_packet_def
        acked_state_def)
next
  case False
  then have b: "window_base s \<le> i" by simp
  let ?e = "unacked s ! (i - window_base s)"
  have st: "packet_state s i = kind_of ?e" using packet_state_entry [OF b assms(2)] .
  have idx: "nthR (unacked s) (i - window_base s) = Inr ?e"
    using unacked_offset(4) [OF assms b] by simp
  have look: "lookup_ack_index s (of_nat i) = (Some (i - window_base s), s)"
    using b by (simp add: lookup_ack_index_entry [OF assms])
  obtain s' where s': "clean_sent_queue (set_entry_clean s i Acked) = Inr s'" "tx_inv s'"
    "tx_frame s s'" "packet_state s' = (packet_state s) (i := PDone)" "tx_stats s' = tx_stats s"
    "\<exists>k. sent s' = drop k (sent s)"
    using settle_entry [OF assms(1) b assms(2), of Acked] by auto
  have fold: "(if i - window_base s = 0
      then clean_unacked_queue (s \<lparr> unacked := (unacked s)[i - window_base s := Acked] \<rparr>)
      else s \<lparr> unacked := (unacked s)[i - window_base s := Acked] \<rparr>) = set_entry_clean s i Acked"
    by (simp add: set_entry_clean_def set_entry_def)
  have same: "(packet_state s) (i := packet_state s i) = packet_state s" by simp
  have pa: "process_ack s (of_nat i) =
      (case ?e of Unacked p w _ _ _ \<Rightarrow> Inr (Some p, wake w, s')
       | CancelRequested w _ \<Rightarrow> Inr (None, wake w, s')
       | Acked \<Rightarrow> Inr (None, [], tx_count DuplicateAck s)
       | CancelAcked \<Rightarrow> Inr (None, [], tx_count InvalidAck s))"
    unfolding process_ack_def look prod.case option.case idx bindR_Inr Let_def fold s'(1) ..
  show thesis
  proof (cases ?e)
    case (Unacked p w rl rc f)
    then show thesis
      using that [of "wake w" s'] s' st
      by (simp add: pa acked_packet_def acked_state_def)
  next
    case (CancelRequested w f)
    then show thesis
      using that [of "wake w" s'] s' st
      by (simp add: pa acked_packet_def acked_state_def)
  next
    case Acked
    then show thesis
      using that [of "[]" "tx_count DuplicateAck s"] st assms(1) same
      by (simp add: pa acked_packet_def acked_state_def)
  next
    case CancelAcked
    then show thesis
      using that [of "[]" "tx_count InvalidAck s"] st assms(1) same
      by (simp add: pa acked_packet_def acked_state_def)
  qed
qed


definition canceled_state :: "'p pstate \<Rightarrow> bool \<Rightarrow> 'p pstate" where
  "canceled_state st forgotten =
     (case st of PCancelRequested \<Rightarrow> (if forgotten then PDone else PCancelAcked) | _ \<Rightarrow> st)"

lemma process_canceled_ok:
  assumes "tx_inv s" and "i < sent_count s"
  obtains f ws s' where
    "process_canceled s (of_nat i) = Inr (ws, s')"
    "tx_inv s'" "tx_frame s s'" "\<exists>k. sent s' = drop k (sent s)"
    "packet_state s' = (packet_state s) (i := canceled_state (packet_state s i) f)"
    "packet_state s i \<in> {PCancelRequested, PCancelAcked} \<or> i < window_base s \<Longrightarrow>
       tx_stats s' InvalidAck = tx_stats s InvalidAck"
    "tx_stats s' TooNewAck = tx_stats s TooNewAck"
proof (cases "i < window_base s")
  case True
  have st: "packet_state s i = PDone" using packet_state_out [OF True assms(2)] .
  have "(packet_state s) (i := PDone) = packet_state s" using st by auto
  then show thesis
    using True that [of "[]" "tx_count TooOldAck s"] assms st
    by (auto simp: process_canceled_def lookup_ack_index_entry [OF assms] canceled_state_def)
next
  case False
  then have b: "window_base s \<le> i" by simp
  let ?e = "unacked s ! (i - window_base s)"
  have st: "packet_state s i = kind_of ?e" using packet_state_entry [OF b assms(2)] .
  have idx: "nthR (unacked s) (i - window_base s) = Inr ?e"
    using unacked_offset(4) [OF assms b] by simp
  have look: "lookup_ack_index s (of_nat i) = (Some (i - window_base s), s)"
    using b by (simp add: lookup_ack_index_entry [OF assms])
  have fold: "(if i - window_base s = 0
      then clean_unacked_queue (s \<lparr> unacked := (unacked s)[i - window_base s := e] \<rparr>)
      else s \<lparr> unacked := (unacked s)[i - window_base s := e] \<rparr>) = set_entry_clean s i e" for e
    by (simp add: set_entry_clean_def set_entry_def)
  have same: "(packet_state s) (i := packet_state s i) = packet_state s" by simp
  have pc: "process_canceled s (of_nat i) =
      (case ?e of
         CancelRequested w f \<Rightarrow> bindR (clean_sent_queue (set_entry_clean s i
             (if f then Acked else CancelAcked))) (\<lambda>s4. Inr (wake w, s4))
       | Unacked _ _ _ _ _ \<Rightarrow> Inr ([], tx_count InvalidAck s)
       | Acked \<Rightarrow> Inr ([], tx_count InvalidAck s)
       | CancelAcked \<Rightarrow> Inr ([], tx_count DuplicateAck s))"
    unfolding process_canceled_def look prod.case option.case idx bindR_Inr Let_def fold ..
  show thesis
  proof (cases ?e)
    case (CancelRequested w f)
    obtain s' where "clean_sent_queue (set_entry_clean s i (if f then Acked else CancelAcked)) = Inr s'"
      "tx_inv s'" "tx_frame s s'" "tx_stats s' = tx_stats s" "\<exists>k. sent s' = drop k (sent s)"
      "packet_state s' = (packet_state s) (i := kind_of (if f then Acked else CancelAcked))"
      using settle_entry [OF assms(1) b assms(2)] by metis
    then show thesis
      using that [of "wake w" s' f] CancelRequested st
      by (cases f) (simp_all add: pc canceled_state_def)
  next
    case (Unacked p w rl rc f)
    then show thesis
      using that [of "[]" "tx_count InvalidAck s"] st assms(1) same b
      by (simp add: pc canceled_state_def)
  next
    case Acked
    then show thesis
      using that [of "[]" "tx_count InvalidAck s"] st assms(1) same b
      by (simp add: pc canceled_state_def)
  next
    case CancelAcked
    then show thesis
      using that [of "[]" "tx_count DuplicateAck s"] st assms(1) same
      by (simp add: pc canceled_state_def)
  qed
qed


text \<open>Sending: both ways for a packet to get the next sequence number.\<close>

definition push_packet :: "'p Sender \<Rightarrow> 'p \<Rightarrow> u8 option \<Rightarrow> 'p Sender" where
  "push_packet s p l =
     s \<lparr> unacked := unacked s @ [Unacked p None l 0 False], last_sent := last_sent s + 1 \<rparr>"

lemma push_packet_count:
  assumes "sent_count s < 2 ^ 63"
  shows "sent_count (push_packet s p l) = Suc (sent_count s)"
proof -
  have e: "last_sent (push_packet s p l) + 1 = of_nat (Suc (sent_count s))"
    by (simp add: push_packet_def last_sent_count [of s])
  have "Suc (sent_count s) < 2 ^ 64" using assms by simp
  then show ?thesis
    unfolding sent_count_def [of "push_packet s p l"] e by (rule unat_of_nat64)
qed

lemma push_packet_state:
  assumes "tx_inv s"
  shows "packet_state (push_packet s p l) = (packet_state s) (sent_count s := PUnacked p)"
proof
  fix i
  have N: "sent_count (push_packet s p l) = Suc (sent_count s)"
    using push_packet_count [of s p l] assms(1) by (simp add: tx_inv_def)
  have b: "window_base (push_packet s p l) = window_base s"
    unfolding window_base_def N using assms by (simp add: push_packet_def tx_inv_def)
  have len: "sent_count s - window_base s = length (unacked s)" "window_base s \<le> sent_count s"
    using assms by (auto simp: tx_inv_def window_base_def)
  show "packet_state (push_packet s p l) i = ((packet_state s) (sent_count s := PUnacked p)) i"
  proof (cases "i = sent_count s")
    case True
    then show ?thesis using N b len by (simp add: packet_state_def push_packet_def nth_append)
  next
    case False
    then show ?thesis using N b len by (auto simp: packet_state_def push_packet_def nth_append)
  qed
qed

lemma push_packet_inv:
  assumes "tx_inv s" and "sent_count s < 2 ^ 63 - 1"
  shows "tx_inv (push_packet s p l)"
proof -
  have N: "sent_count (push_packet s p l) = Suc (sent_count s)"
    using push_packet_count [of s p l] assms(1) by (simp add: tx_inv_def)
  have "hd (unacked s @ [Unacked p None l 0 False]) \<noteq> Acked"
    using assms(1) by (cases "unacked s") (auto simp: tx_inv_def)
  then show ?thesis
    using assms unfolding tx_inv_def N
    by (auto simp: push_packet_def intro: less_SucI)
qed

lemma enqueue_packet_cases:
  obtains (sent) "\<not> is_blocked s" "blocked s = []"
      "enqueue_packet s p = (Sent (of_nat (sent_count s)) p, push_packet s p None)"
  | (queued) "is_blocked s \<or> blocked s \<noteq> []"
      "enqueue_packet s p = (Queued (last_enqueued s + 1),
         s \<lparr> last_enqueued := last_enqueued s + 1,
             blocked := blocked s @ [Blocked p None None] \<rparr>)"
  by (cases "is_blocked s \<or> blocked s \<noteq> []")
    (auto simp: enqueue_packet_def has_blocked_packets_def push_packet_def Let_def last_sent_count)

lemma clean_blocked_queue_simps [simp]:
  "last_sent (clean_blocked_queue s) = last_sent s" "unacked (clean_blocked_queue s) = unacked s"
  "last_enqueued (clean_blocked_queue s) = last_enqueued s"
  "tx_window_size (clean_blocked_queue s) = tx_window_size s"
  "tx_stats (clean_blocked_queue s) = tx_stats s"
  "sent_count (clean_blocked_queue s) = sent_count s"
  "packet_state (clean_blocked_queue s) = packet_state s"
  by (simp_all add: clean_blocked_queue_def sent_count_def case_prod_unfold
      packet_state_cong [of "s \<lparr> blocked := _, sent := _ \<rparr>" s])

lemma clean_blocked_queue_inv:
  assumes "tx_inv (s \<lparr> blocked := [] \<rparr>)"
  shows "tx_inv (clean_blocked_queue s)"
proof -
  have "sent_count (s \<lparr> blocked := [] \<rparr>) = sent_count s" by (simp add: sent_count_def)
  then show ?thesis
    using assms clean_blocked_loop_hd [of "blocked s" "sent s"]
      clean_blocked_loop_sent [of _ "blocked s" "sent s"]
    by (auto simp: tx_inv_def) (auto simp: clean_blocked_queue_def case_prod_unfold)
qed

lemma enqueue_next_ok:
  assumes "tx_inv s" and "unblock_needed s" and "sent_count s < 2 ^ 63 - 1"
  obtains p l ws s' where
    "enqueue_next_blocked_packet s = Inr (of_nat (sent_count s), p, ws, s')"
    "tx_inv s'" "packet_state s' = (packet_state s) (sent_count s := PUnacked p)"
    "sent_count s' = Suc (sent_count s)" "length (unacked s') = Suc (length (unacked s))"
    "tx_window_size s' = tx_window_size s" "tx_stats s' = tx_stats s"
    "\<exists>w. hd (blocked s) = Blocked p w l" "length (blocked s') < length (blocked s)"
proof -
  obtain p w l bs where bs: "blocked s = Blocked p w l # bs"
    using assms(1,2) by (cases "blocked s"; cases "hd (blocked s)")
      (auto simp: unblock_needed_def has_blocked_packets_def tx_inv_def)
  let ?s1 = "push_packet s p l \<lparr> blocked := bs, sent := sent s @ [Some (of_nat (sent_count s))] \<rparr>"
  have st: "packet_state ?s1 = packet_state (push_packet s p l)"
    by (rule packet_state_cong) simp_all
  have c: "sent_count ?s1 = Suc (sent_count s)"
    using push_packet_count [of s p l] assms(1) by (simp add: sent_count_def tx_inv_def)
  have "tx_inv (?s1 \<lparr> blocked := [] \<rparr>)"
    using push_packet_inv [OF assms(1,3), of p l] c push_packet_count [of s p l] assms(1)
    by (auto simp: tx_inv_def sent_count_def push_packet_def)
  then have inv: "tx_inv (clean_blocked_queue ?s1)" by (rule clean_blocked_queue_inv)
  have len: "length (fst (clean_blocked_loop bs ss)) \<le> length bs" for ss
    by (induction bs ss rule: clean_blocked_loop.induct) simp_all
  show thesis
  proof (rule that [of p "wake w" "clean_blocked_queue ?s1" l])
    show "enqueue_next_blocked_packet s =
        Inr (of_nat (sent_count s), p, wake w, clean_blocked_queue ?s1)"
      using assms(2) bs
      by (simp add: enqueue_next_blocked_packet_def unblock_needed_def Let_def push_packet_def
          last_sent_count [of s]) (rule arg_cong [of _ _ clean_blocked_queue], rule Sender.equality, simp_all)
    show "length (blocked (clean_blocked_queue ?s1)) < length (blocked s)"
      using len bs by (simp add: clean_blocked_queue_def case_prod_unfold less_Suc_eq_le)
  qed (use inv st c push_packet_state [OF assms(1)] bs in \<open>simp_all add: push_packet_def\<close>)
qed


text \<open>Operations that keep the state of every packet.\<close>

definition kinds :: "'p Sender \<Rightarrow> 'p pstate list" where
  "kinds s = map kind_of (unacked s)"

lemma kind_of_Acked [simp]: "kind_of st = PDone \<longleftrightarrow> st = Acked"
  by (cases st) simp_all

lemma kinds_state:
  assumes "kinds s' = kinds s" and "last_sent s' = last_sent s"
  shows "packet_state s' = packet_state s"
proof
  fix i
  have len: "length (unacked s') = length (unacked s)"
    using arg_cong [OF assms(1), of length] by (simp add: kinds_def)
  have "kind_of (unacked s' ! j) = kind_of (unacked s ! j)" if "j < length (unacked s)" for j
    using arg_cong [OF assms(1), of "\<lambda>l. l ! j"] that len by (simp add: kinds_def)
  then show "packet_state s' i = packet_state s i"
    using assms(2) len
    by (auto simp: packet_state_def sent_count_def window_base_def)
qed

lemma kinds_inv:
  assumes "tx_inv s" and "kinds s' = kinds s" and "last_sent s' = last_sent s"
    and "blocked s' \<noteq> [] \<longrightarrow> hd (blocked s') \<noteq> Canceled" and "set (sent s') \<subseteq> set (sent s)"
  shows "tx_inv s'"
proof -
  have len: "length (unacked s') = length (unacked s)"
    using arg_cong [OF assms(2), of length] by (simp add: kinds_def)
  have "hd (unacked s') \<noteq> Acked" if "unacked s' \<noteq> []"
  proof -
    have "kind_of (hd (unacked s')) = kind_of (hd (unacked s))"
      using arg_cong [OF assms(2), of hd] that len
      by (cases "unacked s"; cases "unacked s'") (simp_all add: kinds_def)
    then have "hd (unacked s') = Acked \<longleftrightarrow> hd (unacked s) = Acked" by (metis kind_of_Acked)
    then show ?thesis using assms(1) that len by (auto simp: tx_inv_def)
  qed
  then show ?thesis
    using assms len by (auto simp: tx_inv_def sent_count_def)
qed

lemma Unacked_limit_retries_kind [simp]: "kind_of (Unacked_limit_retries l st) = kind_of st"
  by (cases st) (simp_all add: Unacked_limit_retries_def)

lemma limit_retries_seq_frame:
  assumes "limit_retries_by_seq_num s sn l = Inr s'"
  shows "kinds s' = kinds s \<and> tx_frame s s' \<and> sent s' = sent s \<and> tx_stats s' = tx_stats s"
  using assms
  by (auto simp: limit_retries_by_seq_num_def Let_def kinds_def map_update list_update_same_conv
      nthR_def tx_frame_def bindR_def split: if_splits)

lemma Blocked_limit_Canceled [simp]: "Blocked_limit_retries l st = Canceled \<longleftrightarrow> st = Canceled"
  by (cases st) (simp_all add: Blocked_limit_retries_def)

lemma hd_list_update_Canceled:
  assumes "xs \<noteq> [] \<longrightarrow> hd xs \<noteq> Canceled" and "y \<noteq> Canceled"
  shows "xs[i := y] \<noteq> [] \<longrightarrow> hd (xs[i := y]) \<noteq> Canceled"
  using assms by (cases xs; cases i) simp_all

text \<open>Cancelling a sent packet, forgetting a cancellation, ageing.\<close>

definition cancel_state :: "'p pstate \<Rightarrow> 'p pstate" where
  "cancel_state st = (case st of PUnacked _ \<Rightarrow> PCancelRequested | _ \<Rightarrow> st)"

definition forget_state :: "'p pstate \<Rightarrow> 'p pstate" where
  "forget_state st = (case st of PCancelAcked \<Rightarrow> PDone | _ \<Rightarrow> st)"

lemma Unacked_cancel_kind: "kind_of (snd (Unacked_cancel st)) = cancel_state (kind_of st)"
  by (cases st) (simp_all add: Unacked_cancel_def cancel_state_def)

lemma Unacked_cancel_not_Acked: "snd (Unacked_cancel st) = Acked \<longleftrightarrow> st = Acked"
  by (cases st) (simp_all add: Unacked_cancel_def)

lemma Unacked_forget_kind: "kind_of (Unacked_forget st) = forget_state (kind_of st)"
  by (cases st) (simp_all add: Unacked_forget_def forget_state_def split: option.split)

lemma window_entry:
  assumes "tx_inv s" and "idx < length (unacked s)"
  shows "window_base s \<le> window_base s + idx" "window_base s + idx < sent_count s"
    "packet_state s (window_base s + idx) = kind_of (unacked s ! idx)"
    "s \<lparr> unacked := (unacked s)[idx := e] \<rparr> = set_entry s (window_base s + idx) e"
  using assms by (auto simp: tx_inv_def window_base_def packet_state_def set_entry_def)

lemma queue_idx_sn:
  assumes "tx_inv s" and "idx = queue_idx (sn - last_sent s) (length (unacked s))"
  shows "sn = of_nat (window_base s + idx)"
proof -
  have "of_nat idx = of_nat (length (unacked s)) + (sn - last_sent s) - (1 :: u64)"
    using assms(2) by (simp add: queue_idx_def)
  then show ?thesis
    using assms(1) last_sent_count [of s]
    by (simp add: window_base_def tx_inv_def of_nat_diff)
qed

lemma cancel_sent_packet_cases:
  assumes "tx_inv s" and "cancel_sent_packet s sn = Inr (r, s')"
  obtains (none) "r = None" "s' = s"
  | (entry) i where "sn = of_nat i" "window_base s \<le> i" "i < sent_count s" "tx_inv s'" "tx_frame s s'"
      "sent s' = sent s" "tx_stats s' = tx_stats s" "r = acked_packet (packet_state s i)"
      "packet_state s' = (packet_state s) (i := cancel_state (packet_state s i))"
proof (cases "sint (sn - last_sent s) > 0 \<or> past_front (sn - last_sent s) (length (unacked s))")
  case True
  then show thesis using none assms(2) by (auto simp: cancel_sent_packet_def Let_def)
next
  case False
  define idx where "idx = queue_idx (sn - last_sent s) (length (unacked s))"
  let ?i = "window_base s + idx" let ?st = "unacked s ! idx"
  have idx: "idx < length (unacked s)" and r: "r = fst (Unacked_cancel ?st)"
    and s': "s' = s \<lparr> unacked := (unacked s)[idx := snd (Unacked_cancel ?st)] \<rparr>"
    using assms(2) False
    by (auto simp: cancel_sent_packet_def Let_def idx_def nthR_def bindR_def case_prod_unfold
        split: if_splits)
  note w = window_entry [OF assms(1) idx]
  have hd: "snd (Unacked_cancel ?st) = Acked \<longrightarrow> ?i \<noteq> window_base s"
    using assms(1) idx by (cases "unacked s"; cases idx)
      (auto simp: Unacked_cancel_not_Acked tx_inv_def)
  show thesis
  proof (rule entry [OF queue_idx_sn [OF assms(1) idx_def] w(1,2)])
    show "tx_inv s'" unfolding s' w(4) using set_entry_inv [OF assms(1) w(1,2) hd] .
    show "packet_state s' = (packet_state s) (?i := cancel_state (packet_state s ?i))"
      unfolding s' w(3,4) set_entry_state [OF assms(1) w(1,2)] Unacked_cancel_kind ..
    show "r = acked_packet (packet_state s ?i)"
      unfolding r w(3) by (cases ?st) (simp_all add: Unacked_cancel_def acked_packet_def)
  qed (simp_all add: s' tx_frame_def)
qed

lemma forget_canceled_packet_cases:
  assumes "tx_inv s" and "forget_canceled_packet s sn = Inr s'"
  obtains (none) "s' = s"
  | (entry) i where "window_base s \<le> i" "i < sent_count s" "tx_inv s'" "tx_frame s s'"
      "tx_stats s' = tx_stats s" "\<exists>k. sent s' = drop k (sent s)"
      "packet_state s' = (packet_state s) (i := forget_state (packet_state s i))"
proof (cases "sint (sn - last_sent s) > 0 \<or> past_front (sn - last_sent s) (length (unacked s))")
  case True
  then show thesis using none assms(2) by (auto simp: forget_canceled_packet_def Let_def)
next
  case False
  define idx where "idx = queue_idx (sn - last_sent s) (length (unacked s))"
  let ?i = "window_base s + idx" let ?st = "Unacked_forget (unacked s ! idx)"
  have idx: "idx < length (unacked s)"
    using assms(2) False
    by (auto simp: forget_canceled_packet_def Let_def idx_def nthR_def split: if_splits)
  note w = window_entry [OF assms(1) idx]
  have "forget_canceled_packet s sn = clean_sent_queue (set_entry_clean s ?i ?st)"
    using False idx
    by (simp add: forget_canceled_packet_def Let_def idx_def [symmetric] set_entry_clean_def
        set_entry_def)
  moreover obtain s'' where "clean_sent_queue (set_entry_clean s ?i ?st) = Inr s''"
    "tx_inv s''" "tx_frame s s''" "tx_stats s'' = tx_stats s" "\<exists>k. sent s'' = drop k (sent s)"
    "packet_state s'' = (packet_state s) (?i := kind_of ?st)"
    using settle_entry [OF assms(1) w(1,2), of ?st] by metis
  ultimately show thesis
    using entry [OF w(1,2)] assms(2) by (simp add: w(3) Unacked_forget_kind)
qed


lemma kind_of_age: "kind_of (snd (Unacked_age_retries st)) \<in> {kind_of st, cancel_state (kind_of st)}"
  by (cases st) (auto simp: Unacked_age_retries_def Unacked_cancel_def cancel_state_def
      split: option.split)

text \<open>Ageing cancels some of the unacknowledged packets and changes nothing else.\<close>

lemma age_retries_ok:
  assumes "tx_inv s" and "age_retries s = (ps, s')"
  shows "tx_inv s'" "tx_frame s s'" "sent s' = sent s" "tx_stats s' = tx_stats s"
    "\<And>i. packet_state s' i \<in> {packet_state s i, cancel_state (packet_state s i)}"
proof -
  have u: "unacked s' = map (\<lambda>st. snd (Unacked_age_retries st)) (unacked s)"
    and s': "s' = s \<lparr> unacked := unacked s' \<rparr>"
    using assms(2) by (auto simp: age_retries_def Let_def)
  have c: "sent_count s' = sent_count s" "window_base s' = window_base s"
    using u by (subst s', simp add: sent_count_def window_base_def)+
  have b: "blocked s' = blocked s" "sent s' = sent s" "tx_stats s' = tx_stats s"
    by (subst s', simp)+
  show st: "packet_state s' i \<in> {packet_state s i, cancel_state (packet_state s i)}" for i
  proof (cases "window_base s \<le> i \<and> i < sent_count s")
    case True
    then have "i - window_base s < length (unacked s)" using unacked_offset(4) assms(1) by blast
    then show ?thesis using True kind_of_age u by (auto simp: packet_state_def c)
  qed (auto simp: packet_state_def c cancel_state_def)
  have "hd (unacked s') \<noteq> Acked" if ne: "unacked s' \<noteq> []"
  proof -
    obtain a us where a: "unacked s = a # us" using ne u by (cases "unacked s") simp_all
    have "kind_of (snd (Unacked_age_retries a)) \<noteq> PDone"
      using kind_of_age [of a] assms(1) a by (cases a) (auto simp: tx_inv_def cancel_state_def)
    then show ?thesis using u a by auto
  qed
  then show "tx_inv s'"
    using assms(1) c u b unfolding tx_inv_def by simp
  show "tx_frame s s'" using u by (subst s', simp add: tx_frame_def)
  show "sent s' = sent s" "tx_stats s' = tx_stats s" using b by simp_all
qed

lemma sn_base_window:
  assumes "tx_inv s"
  shows "sn_base s + of_nat j = of_nat (window_base s + j)"
  using assms by (simp add: sn_base_def last_sent_count [of s] window_base_def tx_inv_def of_nat_diff)

lemma in_map_filter_iff: "y \<in> set (List.map_filter f xs) \<longleftrightarrow> (\<exists>x \<in> set xs. f x = Some y)"
  by (induction xs) (auto simp: map_filter_simps split: option.split)

lemma in_map_filter_enumerate:
  "y \<in> set (List.map_filter f (enumerate 0 xs)) \<longleftrightarrow> (\<exists>j < length xs. f (j, xs ! j) = Some y)"
proof -
  have "enumerate 0 xs = map (\<lambda>j. (j, xs ! j)) [0..<length xs]"
    by (rule nth_equalityI) (simp_all add: nth_enumerate_eq)
  then show ?thesis by (simp add: in_map_filter_iff atLeast0LessThan Bex_def)
qed

lemma window_ex:
  assumes "tx_inv s" and "k \<noteq> PDone" and "k \<noteq> PNotSent"
  shows "(\<exists>j < length (unacked s). sn = of_nat (window_base s + j) \<and> kind_of (unacked s ! j) = k)
    \<longleftrightarrow> (\<exists>i < sent_count s. sn = of_nat i \<and> packet_state s i = k)" (is "?L \<longleftrightarrow> ?R")
proof
  assume ?L
  then obtain j where "j < length (unacked s)" "sn = of_nat (window_base s + j)"
    "kind_of (unacked s ! j) = k" by blast
  then show ?R
    using window_entry [OF assms(1), of j] by (intro exI [of _ "window_base s + j"]) simp
next
  assume ?R
  then obtain i where i: "i < sent_count s" "sn = of_nat i" "packet_state s i = k" by blast
  then have "window_base s \<le> i" using assms(2) packet_state_out [of i s] by (metis not_le)
  then show ?L
    using i unacked_offset(4) [OF assms(1) i(1)] packet_state_entry [of s i]
    by (intro exI [of _ "i - window_base s"]) simp
qed

lemma retry_packets_iff:
  assumes "tx_inv s"
  shows "(sn, p) \<in> set (retry_packets s) \<longleftrightarrow>
    (\<exists>i < sent_count s. sn = of_nat i \<and> packet_state s i = PUnacked p)"
proof -
  have e: "(case st of Unacked packet _ _ _ _ \<Rightarrow> Some (x, packet) | _ \<Rightarrow> None) = Some (sn, p) \<longleftrightarrow>
      sn = x \<and> kind_of st = PUnacked p" for st :: "'a UnackedState" and x
    by (cases st) auto
  show ?thesis
    unfolding retry_packets_def in_map_filter_enumerate prod.case e sn_base_window [OF assms]
    by (rule window_ex [OF assms]) simp_all
qed

lemma retry_cancels_iff:
  assumes "tx_inv s"
  shows "sn \<in> set (retry_cancels s) \<longleftrightarrow>
    (\<exists>i < sent_count s. sn = of_nat i \<and> packet_state s i = PCancelRequested)"
proof -
  have e: "(case st of CancelRequested _ _ \<Rightarrow> Some x | _ \<Rightarrow> None) = Some sn \<longleftrightarrow>
      sn = x \<and> kind_of st = PCancelRequested" for st :: "'a UnackedState" and x
    by (cases st) auto
  show ?thesis
    unfolding retry_cancels_def in_map_filter_enumerate prod.case e sn_base_window [OF assms]
    by (rule window_ex [OF assms]) simp_all
qed


text \<open>Operations that only touch the waiting packets, or wakers and limits.\<close>

definition tx_quiet :: "'p Sender \<Rightarrow> 'p Sender \<Rightarrow> bool" where
  "tx_quiet s s' \<longleftrightarrow> tx_inv s' \<and> packet_state s' = packet_state s \<and> last_sent s' = last_sent s \<and>
     length (unacked s') = length (unacked s) \<and> tx_window_size s' = tx_window_size s \<and>
     tx_stats s' = tx_stats s"

lemma tx_quiet_refl: "tx_inv s \<Longrightarrow> tx_quiet s s"
  by (simp add: tx_quiet_def)

lemma tx_quiet_kinds:
  assumes "tx_inv s" and "kinds s' = kinds s" and "last_sent s' = last_sent s"
    and "blocked s' = blocked s" and "sent s' = sent s"
    and "tx_window_size s' = tx_window_size s" and "tx_stats s' = tx_stats s"
  shows "tx_quiet s s'"
  using kinds_inv [OF assms(1-3)] kinds_state [OF assms(2,3)] arg_cong [OF assms(2), of length] assms
  by (auto simp: tx_quiet_def kinds_def tx_inv_def)

lemma tx_quiet_blocked:
  assumes "tx_inv s" and "bs \<noteq> [] \<longrightarrow> hd bs \<noteq> Canceled"
  shows "tx_quiet s (s \<lparr> blocked := bs \<rparr>)"
proof -
  have "packet_state (s \<lparr> blocked := bs \<rparr>) = packet_state s" by (rule packet_state_cong) simp_all
  then show ?thesis using assms by (auto simp: tx_quiet_def tx_inv_def sent_count_def)
qed

lemma cancel_queued_quiet:
  assumes inv: "tx_inv s" and res: "cancel_queued_packet s pid = Inr (r, ws, s')"
  shows "tx_quiet s s'"
proof (cases "past_front (pid - last_enqueued s) (length (blocked s))")
  case True
  then show ?thesis
    using res tx_quiet_refl [OF inv]
    by (auto simp: cancel_queued_packet_def Let_def assertR_def bindR_def split: if_splits)
next
  case False
  define idx where "idx = queue_idx (pid - last_enqueued s) (length (blocked s))"
  have idx: "idx < length (blocked s)"
    using res False
    by (auto simp: cancel_queued_packet_def Let_def assertR_def bindR_def nthR_def idx_def
        split: if_splits)
  let ?s1 = "s \<lparr> blocked := (blocked s)[idx := Canceled] \<rparr>"
  have hd: "idx \<noteq> 0 \<Longrightarrow> (blocked s)[idx := Canceled] \<noteq> [] \<longrightarrow>
      hd ((blocked s)[idx := Canceled]) \<noteq> Canceled"
    using inv by (cases "blocked s"; cases idx) (auto simp: tx_inv_def)
  have "s' = s \<or> s' = (if idx = 0 then clean_blocked_queue ?s1 else ?s1)"
    using res False idx
    by (cases "blocked s ! idx")
      (auto simp: cancel_queued_packet_def Let_def assertR_def bindR_def idx_def [symmetric]
        Blocked_cancel_def list_update_same_conv split: if_splits)
  moreover have "tx_quiet s (clean_blocked_queue ?s1)"
  proof -
    have "tx_inv (clean_blocked_queue ?s1)"
      using tx_quiet_blocked [OF inv, of "[]"]
      by (intro clean_blocked_queue_inv) (simp add: tx_quiet_def)
    moreover have "packet_state ?s1 = packet_state s" by (rule packet_state_cong) simp_all
    ultimately show ?thesis by (simp add: tx_quiet_def)
  qed
  ultimately show ?thesis
    using tx_quiet_refl [OF inv] tx_quiet_blocked [OF inv hd] by auto
qed

lemma limit_seq_quiet:
  assumes "tx_inv s" and "limit_retries_by_seq_num s sn l = Inr s'"
  shows "tx_quiet s s'"
  using limit_retries_seq_frame [OF assms(2)] assms(1)
  by (intro tx_quiet_kinds) (auto simp: tx_frame_def)

lemma limit_id_quiet:
  assumes inv: "tx_inv s" and res: "limit_retries_by_id s pid l = Inr s'"
  shows "tx_quiet s s'"
proof (cases "past_front (pid - last_enqueued s) (length (blocked s))")
  case True
  then have "s' = s \<or> (\<exists>sn. limit_retries_by_seq_num s sn l = Inr s')"
    using res by (auto simp: limit_retries_by_id_def Let_def assertR_def bindR_def
        split: if_splits sum.splits option.splits)
  then show ?thesis using limit_seq_quiet [OF inv] tx_quiet_refl [OF inv] by blast
next
  case False
  define idx where "idx = queue_idx (pid - last_enqueued s) (length (blocked s))"
  have idx: "idx < length (blocked s)"
    and s': "s' = s \<lparr> blocked := (blocked s)[idx := Blocked_limit_retries l (blocked s ! idx)] \<rparr>"
    using res False
    by (auto simp: limit_retries_by_id_def Let_def assertR_def bindR_def nthR_def idx_def
        split: if_splits)
  have "(blocked s)[idx := Blocked_limit_retries l (blocked s ! idx)] \<noteq> [] \<longrightarrow>
      hd ((blocked s)[idx := Blocked_limit_retries l (blocked s ! idx)]) \<noteq> Canceled"
    using inv idx by (cases "blocked s"; cases idx) (auto simp: tx_inv_def)
  then show ?thesis unfolding s' by (rule tx_quiet_blocked [OF inv])
qed

lemma poll_ack_quiet:
  assumes inv: "tx_inv s" and res: "poll_ack s cx sn = Inr (r, s')"
  shows "tx_quiet s s'"
proof (cases "past_front (sn - last_sent s) (length (unacked s))")
  case True
  then show ?thesis
    using res tx_quiet_refl [OF inv]
    by (auto simp: poll_ack_def Let_def assertR_def bindR_def split: if_splits)
next
  case False
  define idx where "idx = queue_idx (sn - last_sent s) (length (unacked s))"
  have idx: "idx < length (unacked s)"
    using res False
    by (auto simp: poll_ack_def Let_def assertR_def bindR_def nthR_def idx_def split: if_splits)
  then have "s' = s \<or> (\<exists>e. s' = s \<lparr> unacked := (unacked s)[idx := e] \<rparr> \<and>
      kind_of e = kind_of (unacked s ! idx))"
    using res False
    by (cases "unacked s ! idx")
      (auto simp: poll_ack_def Let_def assertR_def bindR_def idx_def [symmetric] split: if_splits)
  moreover have "tx_quiet s (s \<lparr> unacked := (unacked s)[idx := e] \<rparr>)"
    if "kind_of e = kind_of (unacked s ! idx)" for e
    using that idx by (intro tx_quiet_kinds [OF inv])
      (simp_all add: kinds_def map_update list_update_same_conv)
  ultimately show ?thesis using tx_quiet_refl [OF inv] by blast
qed

lemma poll_send_quiet:
  assumes inv: "tx_inv s" and res: "poll_send s cx pid = Inr (r, s')"
  shows "tx_quiet s s'"
proof (cases "past_front (pid - last_enqueued s) (length (blocked s))")
  case True
  then show ?thesis
    using res tx_quiet_refl [OF inv]
    by (auto simp: poll_send_def Let_def assertR_def bindR_def split: if_splits sum.splits)
next
  case False
  define idx where "idx = queue_idx (pid - last_enqueued s) (length (blocked s))"
  have "\<exists>p l. s' = s \<lparr> blocked := (blocked s)[idx := Blocked p cx l] \<rparr>"
    using res False
    by (auto simp: poll_send_def Let_def assertR_def bindR_def nthR_def idx_def
        split: if_splits BlockedState.splits)
  then obtain p l where s': "s' = s \<lparr> blocked := (blocked s)[idx := Blocked p cx l] \<rparr>" by blast
  show ?thesis
    unfolding s' using inv
    by (intro tx_quiet_blocked hd_list_update_Canceled) (auto simp: tx_inv_def)
qed

lemma tx_quiet_trans: "tx_quiet s s' \<Longrightarrow> tx_quiet s' s'' \<Longrightarrow> tx_quiet s s''"
  by (simp add: tx_quiet_def)

lemma poll_send_and_ack_quiet:
  assumes inv: "tx_inv s" and res: "poll_send_and_ack s cx pid = Inr (r, s')"
  shows "tx_quiet s s'"
proof -
  obtain p s1 where ps: "poll_send s cx pid = Inr (p, s1)"
    using res by (auto simp: poll_send_and_ack_def res_simps)
  have rest: "s' = s1 \<or> (\<exists>sn. poll_ack s1 cx sn = Inr (r, s'))"
    using res ps by (auto simp: poll_send_and_ack_def split: Poll.splits option.splits)
  note q = poll_send_quiet [OF inv ps]
  have "tx_inv s1" using q by (simp add: tx_quiet_def)
  then show ?thesis using rest q poll_ack_quiet tx_quiet_trans by blast
qed


section \<open>Properties\<close>

text \<open>C19 (an acknowledgement settles its packet).  Processing the acknowledgement of any
  packet ever sent never panics: an unacknowledged packet is handed back and
  done, a packet whose cancellation was requested is done, and in every other
  case no packet changes its state; no other packet is affected.\<close>

theorem process_ack_settles:
  assumes "tx_inv s" and "i < sent_count s"
  shows "\<exists>ws s'. process_ack s (of_nat i) = Inr (acked_packet (packet_state s i), ws, s') \<and>
    tx_inv s' \<and> packet_state s' = (packet_state s) (i := acked_state (packet_state s i))"
  using process_ack_ok [OF assms] by metis

theorem process_ack_settles_witness:
  "let s = snd (enqueue_packet Sender_new (7::nat)) in
   tx_inv s \<and> (\<exists>ws s'. process_ack s (of_nat 0) = Inr (acked_packet (packet_state s 0), ws, s'))"
proof -
  let ?s = "snd (enqueue_packet Sender_new (7::nat))"
  have d: "tx_inv ?s" "0 < sent_count ?s"
    by (simp_all add: enqueue_packet_def is_blocked_def has_blocked_packets_def
        Sender_new_def Let_def tx_inv_def sent_count_def)
  then show ?thesis using process_ack_settles [OF d] by (auto simp: Let_def)
qed

text \<open>C22 (retries cover exactly the unsettled packets).  The packets resent on a retry are
  those not yet acknowledged, under the sequence numbers they were sent with, and
  the cancellations resent are those requested and not yet acknowledged.\<close>

theorem retries_cover_unsettled:
  assumes "tx_inv s"
  shows "set (retry_packets s) = {(of_nat i, p) | i p. i < sent_count s \<and> packet_state s i = PUnacked p} \<and>
    set (retry_cancels s) = {of_nat i | i. i < sent_count s \<and> packet_state s i = PCancelRequested}"
  using retry_packets_iff [OF assms] retry_cancels_iff [OF assms] by auto

theorem retries_cover_unsettled_witness:
  "let s = snd (enqueue_packet Sender_new (7::nat)) in
   tx_inv s \<and> retry_packets s = [(0, 7)] \<and>
   set (retry_packets s) = {(of_nat i, p) | i p. i < sent_count s \<and> packet_state s i = PUnacked p}"
proof -
  let ?s = "snd (enqueue_packet Sender_new (7::nat))"
  have d: "tx_inv ?s" "retry_packets ?s = [(0, 7)]"
    by (simp_all add: enqueue_packet_def is_blocked_def has_blocked_packets_def
        Sender_new_def Let_def tx_inv_def sent_count_def retry_packets_def map_filter_simps sn_base_def)
  then show ?thesis using retries_cover_unsettled [OF d(1)] by (simp add: Let_def)
qed

lemma queue_idx_min:
  assumes "length (unacked s) < 2 ^ 63"
  shows "lookup_ack_index s (last_sent s + 2 ^ 63) =
    (Some (queue_idx (2 ^ 63) (length (unacked s))), s)"
    and "\<not> queue_idx (2 ^ 63) (length (unacked s)) < length (unacked s)"
proof -
  let ?n = "length (unacked s)"
  have idx: "queue_idx (2 ^ 63) ?n = ?n + (2 ^ 63 - 1)"
  proof -
    have "of_nat ?n + 2 ^ 63 - 1 = (of_nat (?n + (2 ^ 63 - 1)) :: u64)" by simp
    moreover have "?n + (2 ^ 63 - 1) < 2 ^ 64" using assms by simp
    ultimately show ?thesis unfolding queue_idx_def by (metis unat_of_nat64)
  qed
  have "\<not> past_front (2 ^ 63) ?n" by (simp add: past_front_def)
  then show "lookup_ack_index s (last_sent s + 2 ^ 63) = (Some (queue_idx (2 ^ 63) ?n), s)"
    by (simp add: lookup_ack_index_def Let_def)
  show "\<not> queue_idx (2 ^ 63) ?n < ?n" unfolding idx by simp
qed

text \<open>C37 (a hostile acknowledgement crashes the sender).  In every state, acknowledging the
  sequence number half of the sequence space away from the last one sent makes
  the index computation overflow and the sender panic.\<close>

theorem hostile_ack_panics:
  assumes "length (unacked s) < 2 ^ 63"
  shows "process_ack s (last_sent s + 2 ^ 63) = Inl Index_out_of_bounds"
  using queue_idx_min [OF assms] by (simp add: process_ack_def nthR_def)

theorem hostile_ack_panics_witness:
  "process_ack (Sender_new :: nat Sender) (last_sent (Sender_new :: nat Sender) + 2 ^ 63)
     = Inl Index_out_of_bounds"
  using hostile_ack_panics [of "Sender_new :: nat Sender"] by (simp add: Sender_new_def)

text \<open>Of two packets the
  second is canceled and the caller forgets it; when the peer's cancellation
  acknowledgement arrives twice, as it does whenever the request was resent, the
  second one is counted as an invalid acknowledgement, a protocol error.\<close>

theorem repeated_cancel_ack_counted_invalid:
  "returns_with (\<lambda>s0.
     let s1 = snd (enqueue_packet (snd (enqueue_packet s0 (1::nat))) 2) in
     returns_with (\<lambda>(_, s2).
       returns_with (\<lambda>s3.
         returns_with (\<lambda>(_, s4). tx_stats s4 InvalidAck = 0 \<and>
           returns_with (\<lambda>(_, s5). tx_stats s5 InvalidAck = 1 \<and>
             SenderStat_is_protocol_error InvalidAck)
           (process_canceled s4 1))
         (process_canceled s3 1))
       (forget_canceled_packet s2 1))
     (cancel_sent_packet s1 1))
   (adjust_window_size Sender_new 2)"
proof -
  have w: "adjust_window_size Sender_new 2 = Inr (Sender_new \<lparr> tx_window_size := 2 \<rparr>)"
    by (simp add: adjust_window_size_def)
  show ?thesis unfolding w by code_simp
qed

end
