(* ===== verification/Counters.thy ===== *)
theory Counters
  imports Prelude
begin

text \<open>
  The performance counters of \<open>adapter/ph/src/counters.rs\<close>: the two enumerations, a
  counter as the 64-bit word its atomic cell holds (all accesses are relaxed
  fetch-and-add, so an interleaving of them is a sequence of these operations),
  and the aggregation of a worker's counters.
\<close>

datatype FastpathCounterType =
    F_InPacksRec | F_InPacksDrop | F_InPacksSent
  | F_OutPacksRec | F_OutPacksDrop | F_OutPacksSent
  | F_RequeuedPacketsReceived | F_MgmtPacketsSent
  | F_InCapPacksWrite | F_OutCapPacksWrite
  | F_InCapPacksDrop | F_OutCapPacksDrop
  | F_InCapPacksFilt | F_OutCapPacksFilt
  | F_DroppedOversize
  | F_QueueBackpressure | F_DroppedAwaitingBind
  | F_DispatchedToMgmt | F_ActorSlowpath
  | F_UnknownPeer | F_PeerRemoved
  | F_UnknownZpi | F_MicvFailure | F_BadChecksum
  | F_DecryptionFailure | F_EncryptionFailure
  | F_UnknownStreamId | F_BadStructure | F_OtherError
  | F_TtlExpired

datatype ManagementCounterType =
    M_QueueBackpressure | M_DroppedAwaitingBind | M_DroppedNop
  | M_DroppedTooOld | M_DroppedTooNew | M_DroppedDuplicate
  | M_DroppedNoSA | M_InternalRoutingError
  | M_BadMgmtResponse | M_UnknownTransaction | M_OutOfOrderPacket | M_ResentPacket
  | M_UnknownPeer | M_PeerRemoved
  | M_PeerHandshakeSuccess | M_PeerHandshakeFailure
  | M_ActorAuthorizationSuccess | M_ActorAuthorizationRejected | M_ActorAuthorizationRetry
  | M_SequenceError | M_UnknownType | M_BadStructure | M_OtherError
  | M_VisaRequested | M_VisaByIdRequested | M_VisaRequestSuccess
  | M_VisaRequestDenied | M_VisaRequestError

type_synonym 'k counters = "'k \<Rightarrow> u64"
type_synonym mgmt_counters = "ManagementCounterType counters"
type_synonym fastpath_counters = "FastpathCounterType counters"

definition increase_by :: "'k counters \<Rightarrow> 'k \<Rightarrow> u64 \<Rightarrow> 'k counters" where
  "increase_by c k amount = c (k := c k + amount)"

definition increment :: "'k counters \<Rightarrow> 'k \<Rightarrow> 'k counters" where
  "increment c k = increase_by c k 1"

text \<open>\<open>count_event\<close> and \<open>count_events\<close> of \<open>mgmt/core.rs\<close>.\<close>

definition count_event :: "mgmt_counters \<Rightarrow> ManagementCounterType \<Rightarrow> mgmt_counters" where
  "count_event c event = increment c event"

definition count_events :: "mgmt_counters \<Rightarrow> ManagementCounterType \<Rightarrow> u64 \<Rightarrow> mgmt_counters" where
  "count_events c event count = (if count = 0 then c else increase_by c event count)"

lemma increase_by_apply [simp]:
  "increase_by c k n j = (if j = k then c k + n else c j)"
  by (simp add: increase_by_def)

lemma increment_apply [simp]: "increment c k j = (if j = k then c k + 1 else c j)"
  by (simp add: increment_def)

lemma count_event_apply [simp]: "count_event c e j = (if j = e then c e + 1 else c j)"
  by (simp add: count_event_def)

lemma count_events_apply [simp]: "count_events c e n j = (if j = e then c e + n else c j)"
  by (simp add: count_events_def)

end
