(* ===== verification/Zdpr_Link.thy ===== *)
theory Zdpr_Link
  imports Zdpr_Sender Zdpr_Receiver Counters
begin

text \<open>
  How the program drives the two ends of a ZDP-R session: what it puts on the
  wire when it sends, retries, acknowledges and unblocks.  The functions are the
  bodies of \<open>send_mgmt_helper\<close> (\<open>mgmt/core.rs\<close>), of the handlers of
  \<open>mgmt/dispatch.rs\<close> after parsing, and of the tick of \<open>zdpr_worker.rs\<close>.

  A management packet travels as its sequence number and its body.  Messages the
  egress queues drop are messages the network loses.
\<close>

datatype 'p wire =
    WData u64 'p
  | WCancel u64
  | WAck u64
  | WCanceled u64

definition zdpr_sender_stat_to_counter :: "SenderStat \<Rightarrow> ManagementCounterType" where
  "zdpr_sender_stat_to_counter st =
     (case st of
        InvalidAck \<Rightarrow> M_BadMgmtResponse
      | TooOldAck \<Rightarrow> M_DroppedTooOld
      | DuplicateAck \<Rightarrow> M_DroppedDuplicate
      | TooNewAck \<Rightarrow> M_DroppedTooNew)"

definition zdpr_receiver_stat_to_counter :: "ReceiverStat \<Rightarrow> ManagementCounterType" where
  "zdpr_receiver_stat_to_counter st =
     (case st of
        TooOld \<Rightarrow> M_DroppedTooOld
      | Duplicate \<Rightarrow> M_DroppedDuplicate
      | TooNew \<Rightarrow> M_DroppedTooNew
      | OutOfOrder \<Rightarrow> M_OutOfOrderPacket)"

definition count_zdpr_sender_stats ::
  "mgmt_counters \<Rightarrow> 'p Sender \<Rightarrow> mgmt_counters \<times> 'p Sender" where
  "count_zdpr_sender_stats c s =
     fold (\<lambda>st (c, s). case Sender_fetch_reset_stat s st of (n, s') \<Rightarrow>
             (increase_by c (zdpr_sender_stat_to_counter st) n, s'))
       [InvalidAck, TooOldAck, DuplicateAck, TooNewAck] (c, s)"

definition count_zdpr_receiver_stats ::
  "mgmt_counters \<Rightarrow> Receiver \<Rightarrow> mgmt_counters \<times> Receiver" where
  "count_zdpr_receiver_stats c r =
     fold (\<lambda>st (c, r). case Receiver_fetch_reset_stat r st of (n, r') \<Rightarrow>
             (increase_by c (zdpr_receiver_stat_to_counter st) n, r'))
       [TooOld, Duplicate, TooNew, OutOfOrder] (c, r)"

text \<open>The reply to an arrival.\<close>

definition ack_reply :: "Disposition \<Rightarrow> u64 \<Rightarrow> 'p wire list" where
  "ack_reply disp seq_num =
     (if should_ack disp
      then (if ack_is_canceled disp then [WCanceled seq_num] else [WAck seq_num])
      else [])"

text \<open>
  Sending: the packet leaves at once or waits; the flag tells whether the retry
  timer must be restarted.
\<close>

definition send_packet ::
  "'p Sender \<Rightarrow> 'p \<Rightarrow> 'p EnqueueResult \<times> 'p wire list \<times> bool \<times> 'p Sender" where
  "send_packet s packet =
     (let old_retry_needed = retry_needed s in
      case enqueue_packet s packet of
        (Sent sn pkt, s1) \<Rightarrow> (Sent sn pkt, [WData sn pkt], \<not> old_retry_needed, s1)
      | (Queued pid, s1) \<Rightarrow> (Queued pid, [], False, s1))"

text \<open>
  A management packet arrives: if ZDP-R wants it processed it goes into the queue
  of the link's processor, and only if there is room for it is it accepted.
\<close>

definition receive_packet ::
  "nat \<Rightarrow> Receiver \<Rightarrow> 'p list \<Rightarrow> mgmt_counters \<Rightarrow> u64 \<Rightarrow> 'p
     \<Rightarrow> 'p wire list \<times> Receiver \<times> 'p list \<times> mgmt_counters" where
  "receive_packet cap r queue c seq_num pkt =
     (if should_process_packet r seq_num \<and> \<not> length queue < cap
      then ([], r, queue, count_event c M_QueueBackpressure)
      else
        let queue' = (if should_process_packet r seq_num then queue @ [pkt] else queue);
            (disp, r1) = process_packet r seq_num;
            (c1, r2) = count_zdpr_receiver_stats c r1
        in (ack_reply disp seq_num, r2, queue', c1))"

definition receive_cancel ::
  "Receiver \<Rightarrow> mgmt_counters \<Rightarrow> u64 \<Rightarrow> 'p wire list \<times> Receiver \<times> mgmt_counters" where
  "receive_cancel r c seq_num =
     (let (disp, r1) = process_cancel r seq_num;
          (c1, r2) = count_zdpr_receiver_stats c r1
      in (ack_reply disp seq_num, r2, c1))"

lemma clean_blocked_loop_length: "length (fst (clean_blocked_loop bs ss)) \<le> length bs"
  by (induction bs ss rule: clean_blocked_loop.induct) simp_all

lemma enqueue_next_shrinks:
  assumes "enqueue_next_blocked_packet s = Inr (sn, p, ws, s')"
  shows "length (blocked s') < length (blocked s)"
proof -
  obtain w l bs where "blocked s = Blocked p w l # bs"
    "blocked s' = fst (clean_blocked_loop bs (sent s @ [Some (last_sent s + 1)]))"
    using assms
    by (auto simp: enqueue_next_blocked_packet_def bindR_def Let_def assertR_def
        clean_blocked_queue_def case_prod_unfold split: if_splits list.splits BlockedState.splits)
  then show ?thesis using clean_blocked_loop_length by (simp add: less_Suc_eq_le)
qed

text \<open>The loop that sends queued packets while the window has room.\<close>

function unblock_all :: "'p Sender \<Rightarrow> ('p wire list \<times> nat list \<times> 'p Sender) res" where
  "unblock_all s =
     (if \<not> unblock_needed s then Inr ([], [], s)
      else case enqueue_next_blocked_packet s of
        Inl e \<Rightarrow> Inl e
      | Inr (sn, p, ws, s1) \<Rightarrow>
          bindR (unblock_all s1) (\<lambda>(out, ws', s2). Inr (WData sn p # out, ws @ ws', s2)))"
  by auto

termination
  by (relation "measure (\<lambda>s. length (blocked s))") (auto dest: enqueue_next_shrinks)

declare unblock_all.simps [simp del]

text \<open>
  An acknowledgement (or cancellation acknowledgement) arrives; the flag tells
  whether the retry timer must be restarted.
\<close>

definition receive_ack ::
  "'p Sender \<Rightarrow> mgmt_counters \<Rightarrow> u64 \<Rightarrow> bool
     \<Rightarrow> ('p wire list \<times> nat list \<times> bool \<times> 'p Sender \<times> mgmt_counters) res" where
  "receive_ack s c seq_num is_canceled =
     bindR (if is_canceled then process_canceled s seq_num
            else bindR (process_ack s seq_num) (\<lambda>(_, ws, s1). Inr (ws, s1))) (\<lambda>(ws, s1).
     let (c1, s2) = count_zdpr_sender_stats c s1; old_retry_needed = retry_needed s2 in
     bindR (unblock_all s2) (\<lambda>(out, ws', s3).
       Inr (out, ws @ ws', retry_needed s3 \<and> \<not> old_retry_needed, s3, c1)))"

text \<open>One tick of the retry timer.\<close>

definition retry_tick :: "'p Sender \<Rightarrow> mgmt_counters \<Rightarrow> 'p wire list \<times> 'p Sender \<times> mgmt_counters" where
  "retry_tick s c =
     (case age_retries s of (_, s1) \<Rightarrow>
        (map (\<lambda>(sn, p). WData sn p) (retry_packets s1) @ map WCancel (retry_cancels s1), s1,
         count_events c M_ResentPacket (of_nat (length (retry_packets s1)))))"

end
