(* ===== verification/Zdpr_Session.thy ===== *)
theory Zdpr_Session
  imports Zdpr_Link
begin

text \<open>
  One direction of a reliable ZDP session over a substrate that may lose,
  duplicate, delay and reorder: a sender, a receiver with its bounded queue of
  packets to process, and the set of all messages ever put on the wire, any of
  which may arrive at any time, any number of times or never.

  The steps are the link functions of \<open>Zdpr_Link\<close> and the calls of the
  application; \<open>sent_log\<close>, \<open>numbers\<close> and \<open>handled\<close> record what was sent, which
  packets entered the receiver's queue and what the processor took out of it.
\<close>

section \<open>The system\<close>

record 'p session =
  tx :: "'p Sender"
  rx :: Receiver
  queue :: "'p list"
  net :: "'p wire set"
  tx_counters :: mgmt_counters
  rx_counters :: mgmt_counters
  sent_log :: "'p list"
  numbers :: "nat list"
  handled :: "'p list"

definition new_data :: "'p wire list \<Rightarrow> 'p list" where
  "new_data out = List.map_filter (\<lambda>m. case m of WData _ p \<Rightarrow> Some p | _ \<Rightarrow> None) out"

text \<open>Room in the sequence space for every packet sent or waiting.\<close>

definition room :: "'p session \<Rightarrow> bool" where
  "room \<sigma> \<longleftrightarrow> sent_count (tx \<sigma>) + length (blocked (tx \<sigma>)) < 2 ^ 63 - 2"

definition emit :: "'p wire list \<Rightarrow> 'p session \<Rightarrow> 'p session" where
  "emit out \<sigma> = \<sigma> \<lparr> net := net \<sigma> \<union> set out \<rparr>"

definition transmit :: "'p wire list \<Rightarrow> 'p Sender \<Rightarrow> 'p session \<Rightarrow> 'p session" where
  "transmit out s' \<sigma> =
     \<sigma> \<lparr> tx := s', net := net \<sigma> \<union> set out, sent_log := sent_log \<sigma> @ new_data out \<rparr>"

definition session_new :: "nat \<Rightarrow> 'p session res" where
  "session_new W =
     bindR (Receiver_new W) (\<lambda>r. Inr
       \<lparr> tx = Sender_new, rx = r, queue = [], net = {}, tx_counters = (\<lambda>_. 0),
         rx_counters = (\<lambda>_. 0), sent_log = [], numbers = [], handled = [] \<rparr>)"

inductive session_step :: "nat \<Rightarrow> nat \<Rightarrow> 'p session \<Rightarrow> 'p session \<Rightarrow> bool"
  for cap :: nat and W :: nat where
  send: "room \<sigma> \<Longrightarrow> send_packet (tx \<sigma>) p = (res, out, nf, s') \<Longrightarrow>
    session_step cap W \<sigma> (transmit out s' \<sigma>)"
| tick: "retry_needed (tx \<sigma>) \<Longrightarrow> retry_tick (tx \<sigma>) (tx_counters \<sigma>) = (out, s', c') \<Longrightarrow>
    session_step cap W \<sigma> (emit out \<sigma> \<lparr> tx := s', tx_counters := c' \<rparr>)"
| cancel_sent: "cancel_sent_packet (tx \<sigma>) sn = Inr (r, s') \<Longrightarrow>
    session_step cap W \<sigma> (emit (if r = None then [] else [WCancel sn]) \<sigma> \<lparr> tx := s' \<rparr>)"
| cancel_queued: "cancel_queued_packet (tx \<sigma>) pid = Inr (r, ws, s') \<Longrightarrow>
    session_step cap W \<sigma> (\<sigma> \<lparr> tx := s' \<rparr>)"
| limit_seq: "limit_retries_by_seq_num (tx \<sigma>) sn l = Inr s' \<Longrightarrow>
    session_step cap W \<sigma> (\<sigma> \<lparr> tx := s' \<rparr>)"
| limit_id: "limit_retries_by_id (tx \<sigma>) pid l = Inr s' \<Longrightarrow>
    session_step cap W \<sigma> (\<sigma> \<lparr> tx := s' \<rparr>)"
| forget: "forget_canceled_packet (tx \<sigma>) sn = Inr s' \<Longrightarrow>
    session_step cap W \<sigma> (\<sigma> \<lparr> tx := s' \<rparr>)"
| window: "w \<le> W \<Longrightarrow> adjust_window_size (tx \<sigma>) w = Inr s' \<Longrightarrow>
    session_step cap W \<sigma> (\<sigma> \<lparr> tx := s' \<rparr>)"
| poll: "poll_send_and_ack (tx \<sigma>) cx pid = Inr (r, s') \<Longrightarrow>
    session_step cap W \<sigma> (\<sigma> \<lparr> tx := s' \<rparr>)"
| recv_data: "WData sn p \<in> net \<sigma> \<Longrightarrow>
    receive_packet cap (rx \<sigma>) (queue \<sigma>) (rx_counters \<sigma>) sn p = (out, r', q', c') \<Longrightarrow>
    session_step cap W \<sigma> (emit out \<sigma> \<lparr> rx := r', queue := q', rx_counters := c',
      numbers := (if q' = queue \<sigma> then numbers \<sigma> else numbers \<sigma> @ [unat sn]) \<rparr>)"
| recv_cancel: "WCancel sn \<in> net \<sigma> \<Longrightarrow>
    receive_cancel (rx \<sigma>) (rx_counters \<sigma>) sn = (out, r', c') \<Longrightarrow>
    session_step cap W \<sigma> (emit out \<sigma> \<lparr> rx := r', rx_counters := c' \<rparr>)"
| recv_ack: "room \<sigma> \<Longrightarrow> WAck sn \<in> net \<sigma> \<Longrightarrow>
    receive_ack (tx \<sigma>) (tx_counters \<sigma>) sn False = Inr (out, ws, nf, s', c') \<Longrightarrow>
    session_step cap W \<sigma> (transmit out s' \<sigma> \<lparr> tx_counters := c' \<rparr>)"
| recv_canceled: "room \<sigma> \<Longrightarrow> WCanceled sn \<in> net \<sigma> \<Longrightarrow>
    receive_ack (tx \<sigma>) (tx_counters \<sigma>) sn True = Inr (out, ws, nf, s', c') \<Longrightarrow>
    session_step cap W \<sigma> (transmit out s' \<sigma> \<lparr> tx_counters := c' \<rparr>)"
| handle: "queue \<sigma> = p # q \<Longrightarrow>
    session_step cap W \<sigma> (\<sigma> \<lparr> queue := q, handled := handled \<sigma> @ [p] \<rparr>)"

inductive session_reach :: "nat \<Rightarrow> nat \<Rightarrow> 'p session \<Rightarrow> bool" for cap :: nat and W :: nat where
  init: "session_new W = Inr \<sigma> \<Longrightarrow> session_reach cap W \<sigma>"
| step: "session_reach cap W \<sigma> \<Longrightarrow> session_step cap W \<sigma> \<sigma>' \<Longrightarrow> session_reach cap W \<sigma>'"

section \<open>The invariant\<close>

text \<open>
  What a message on the wire tells: N packets were sent with the given log, the
  sender sees them in the given states, the receiver accepted A and among them
  the cancellations C.
\<close>

fun msg_ok :: "'p list \<Rightarrow> (nat \<Rightarrow> 'p pstate) \<Rightarrow> rx_spec \<Rightarrow> 'p wire \<Rightarrow> bool" where
  "msg_ok log st a (WData sn p) = (\<exists>i < length log. sn = of_nat i \<and> log ! i = p)"
| "msg_ok log st a (WCancel sn) = (\<exists>i < length log. sn = of_nat i \<and> (\<forall>p. st i \<noteq> PUnacked p))"
| "msg_ok log st a (WAck sn) = (\<exists>i. sn = of_nat i \<and> i \<in> accepted a - cancels a)"
| "msg_ok log st a (WCanceled sn) = (\<exists>i. sn = of_nat i \<and> i \<in> cancels a)"

definition tx_ok :: "nat \<Rightarrow> 'p list \<Rightarrow> rx_spec \<Rightarrow> 'p Sender \<Rightarrow> bool" where
  "tx_ok W log a s \<longleftrightarrow>
     tx_inv s \<and> length (unacked s) \<le> W \<and> tx_window_size s \<le> W \<and> length log = sent_count s \<and>
     tx_stats s TooNewAck = 0 \<and>
     (\<forall>i < sent_count s. case packet_state s i of
        PNotSent \<Rightarrow> False
      | PUnacked p \<Rightarrow> log ! i = p \<and> i \<notin> cancels a
      | PCancelRequested \<Rightarrow> True
      | PCancelAcked \<Rightarrow> i \<in> cancels a
      | PDone \<Rightarrow> i \<in> accepted a)"

definition rx_ok :: "nat \<Rightarrow> 'p session \<Rightarrow> rx_spec \<Rightarrow> bool" where
  "rx_ok W \<sigma> a \<longleftrightarrow>
     rx_rel (rx \<sigma>) a \<and> rx_window_size (rx \<sigma>) = W \<and> rx_stats (rx \<sigma>) TooNew = 0 \<and>
     accepted a \<subseteq> {..<length (sent_log \<sigma>)} \<and> length (sent_log \<sigma>) < 2 ^ 63 - 1 \<and>
     distinct (numbers \<sigma>) \<and> set (numbers \<sigma>) = accepted a - cancels a \<and>
     handled \<sigma> @ queue \<sigma> = map (\<lambda>i. sent_log \<sigma> ! i) (numbers \<sigma>) \<and>
     (\<forall>i \<in> cancels a. WCanceled (of_nat i) \<in> net \<sigma>)"

definition session_inv :: "nat \<Rightarrow> 'p session \<Rightarrow> rx_spec \<Rightarrow> bool" where
  "session_inv W \<sigma> a \<longleftrightarrow>
     tx_ok W (sent_log \<sigma>) a (tx \<sigma>) \<and> rx_ok W \<sigma> a \<and>
     (\<forall>m \<in> net \<sigma>. msg_ok (sent_log \<sigma>) (packet_state (tx \<sigma>)) a m) \<and>
     tx_counters \<sigma> M_DroppedTooNew = 0 \<and> rx_counters \<sigma> M_DroppedTooNew = 0"

lemma msg_ok_mono:
  assumes "msg_ok log st a m"
    and log: "length log \<le> length log'" "\<And>i. i < length log \<Longrightarrow> log' ! i = log ! i"
    and st: "\<And>i p. i < length log \<Longrightarrow> (\<And>q. st i \<noteq> PUnacked q) \<Longrightarrow> st' i \<noteq> PUnacked p"
    and a: "accepted a - cancels a \<subseteq> accepted a' - cancels a'" "cancels a \<subseteq> cancels a'"
  shows "msg_ok log' st' a' m"
proof (cases m)
  case (WData sn p)
  then obtain i where "i < length log" "sn = of_nat i" "log ! i = p" using assms(1) by auto
  then show ?thesis
    unfolding WData msg_ok.simps using log by (intro exI [of _ i]) auto
next
  case (WCancel sn)
  then obtain i where "i < length log" "sn = of_nat i" "\<And>p. st i \<noteq> PUnacked p"
    using assms(1) by auto
  then show ?thesis
    unfolding WCancel msg_ok.simps using log st by (intro exI [of _ i]) auto
next
  case (WAck sn)
  then obtain i where "sn = of_nat i" "i \<in> accepted a - cancels a" using assms(1) by auto
  then show ?thesis
    unfolding WAck msg_ok.simps using a by (intro exI [of _ i]) blast
next
  case (WCanceled sn)
  then obtain i where "sn = of_nat i" "i \<in> cancels a" using assms(1) by auto
  then show ?thesis
    unfolding WCanceled msg_ok.simps using a by (intro exI [of _ i]) blast
qed

section \<open>Changes of the sender\<close>

text \<open>A change of one packet's state that the receiver's state justifies.\<close>

definition ok_change :: "rx_spec \<Rightarrow> nat \<Rightarrow> 'p pstate \<Rightarrow> 'p pstate \<Rightarrow> bool" where
  "ok_change a i st st' \<longleftrightarrow> st' = st \<or> st \<noteq> PNotSent \<and>
     (case st' of PDone \<Rightarrow> i \<in> accepted a | PCancelAcked \<Rightarrow> i \<in> cancels a
      | PCancelRequested \<Rightarrow> True | _ \<Rightarrow> False)"

lemma session_tx_change:
  assumes inv: "session_inv W \<sigma> a" and "tx_inv s'" and "sent_count s' = sent_count (tx \<sigma>)"
    and "length (unacked s') \<le> W" and "tx_window_size s' \<le> W" and "tx_stats s' TooNewAck = 0"
    and ch: "\<And>i. ok_change a i (packet_state (tx \<sigma>) i) (packet_state s' i)"
    and "set out \<subseteq> Collect (msg_ok (sent_log \<sigma>) (packet_state s') a)"
    and "c' M_DroppedTooNew = 0"
  shows "session_inv W (emit out \<sigma> \<lparr> tx := s', tx_counters := c' \<rparr>) a"
proof -
  have "msg_ok (sent_log \<sigma>) (packet_state s') a m"
    if ok: "msg_ok (sent_log \<sigma>) (packet_state (tx \<sigma>)) a m" for m
  proof (rule msg_ok_mono [OF ok])
    show "packet_state s' i \<noteq> PUnacked p" if "\<And>q. packet_state (tx \<sigma>) i \<noteq> PUnacked q" for i p
      using ch [of i] that [of p] by (auto simp: ok_change_def)
  qed simp_all
  moreover have "tx_ok W (sent_log \<sigma>) a s'"
    unfolding tx_ok_def
  proof (intro conjI allI impI)
    fix i assume "i < sent_count s'"
    then have i: "i < sent_count (tx \<sigma>)" using assms(3) by simp
    then have "case packet_state (tx \<sigma>) i of PNotSent \<Rightarrow> False
      | PUnacked p \<Rightarrow> sent_log \<sigma> ! i = p \<and> i \<notin> cancels a | PCancelRequested \<Rightarrow> True
      | PCancelAcked \<Rightarrow> i \<in> cancels a | PDone \<Rightarrow> i \<in> accepted a"
      using inv by (auto simp: session_inv_def tx_ok_def)
    then show "case packet_state s' i of PNotSent \<Rightarrow> False
      | PUnacked p \<Rightarrow> sent_log \<sigma> ! i = p \<and> i \<notin> cancels a | PCancelRequested \<Rightarrow> True
      | PCancelAcked \<Rightarrow> i \<in> cancels a | PDone \<Rightarrow> i \<in> accepted a"
      using ch [of i] by (cases "packet_state s' i") (auto simp: ok_change_def)
  qed (use assms in \<open>auto simp: session_inv_def tx_ok_def\<close>)
  ultimately show ?thesis
    using inv assms(8,9) unfolding session_inv_def by (auto simp: rx_ok_def emit_def)
qed


lemma new_data_simps [simp]:
  "new_data [] = []" "new_data (WData sn p # out) = p # new_data out"
  by (simp_all add: new_data_def map_filter_simps)

lemma transmit_tx [simp]: "tx (transmit out s' \<sigma>) = s'"
  by (simp add: transmit_def)

lemma new_data_append: "new_data (xs @ ys) = new_data xs @ new_data ys"
  by (simp add: new_data_def map_filter_def)

lemma transmit_transmit:
  "transmit out' s'' (transmit out s' \<sigma>) = transmit (out @ out') s'' \<sigma>"
  by (simp add: transmit_def new_data_append Un_assoc)

text \<open>A packet goes out with the next sequence number.\<close>

lemma session_push:
  assumes inv: "session_inv W \<sigma> a" and N: "sent_count (tx \<sigma>) < 2 ^ 63 - 2"
    and s': "tx_inv s'" "sent_count s' = Suc (sent_count (tx \<sigma>))"
      "packet_state s' = (packet_state (tx \<sigma>)) (sent_count (tx \<sigma>) := PUnacked p)"
      "length (unacked s') \<le> W" "tx_window_size s' \<le> W" "tx_stats s' TooNewAck = 0"
  shows "session_inv W (transmit [WData (of_nat (sent_count (tx \<sigma>))) p] s' \<sigma>) a"
proof -
  let ?N = "sent_count (tx \<sigma>)" let ?log = "sent_log \<sigma> @ [p]"
  have log: "length (sent_log \<sigma>) = ?N" and A: "accepted a \<subseteq> {..<?N}" and C: "cancels a \<subseteq> accepted a"
    and num: "set (numbers \<sigma>) \<subseteq> {..<?N}" and st: "tx_ok W (sent_log \<sigma>) a (tx \<sigma>)"
    using inv by (auto simp: session_inv_def tx_ok_def rx_ok_def rx_rel_def Let_def)
  have "msg_ok ?log (packet_state s') a m"
    if ok: "msg_ok (sent_log \<sigma>) (packet_state (tx \<sigma>)) a m" for m
    by (rule msg_ok_mono [OF ok]) (use log s'(3) in \<open>auto simp: nth_append\<close>)
  moreover have "msg_ok ?log (packet_state s') a (WData (of_nat ?N) p)"
    using log by (auto simp: nth_append intro!: exI [of _ ?N])
  moreover have "tx_ok W ?log a s'"
    using st s' log A C unfolding tx_ok_def by (auto simp: less_Suc_eq nth_append split: pstate.splits)
  moreover have "rx_ok W (transmit [WData (of_nat ?N) p] s' \<sigma>) a"
  proof -
    have "map (\<lambda>i. ?log ! i) (numbers \<sigma>) = map (\<lambda>i. sent_log \<sigma> ! i) (numbers \<sigma>)"
      using num log by (auto simp: nth_append)
    then show ?thesis
      using inv N log by (auto simp: session_inv_def rx_ok_def transmit_def)
  qed
  ultimately show ?thesis
    using inv by (auto simp: session_inv_def transmit_def)
qed

lemma session_tx_facts:
  assumes "session_inv W \<sigma> a"
  shows "tx_inv (tx \<sigma>)" "length (unacked (tx \<sigma>)) \<le> W" "tx_window_size (tx \<sigma>) \<le> W"
    "tx_stats (tx \<sigma>) TooNewAck = 0" "length (sent_log \<sigma>) = sent_count (tx \<sigma>)"
    "tx_counters \<sigma> M_DroppedTooNew = 0"
  using assms by (auto simp: session_inv_def tx_ok_def)

text \<open>The unblocking loop always ends, never panics and keeps the invariant.\<close>

lemma session_unblock:
  assumes "session_inv W \<sigma> a" and "sent_count (tx \<sigma>) + length (blocked (tx \<sigma>)) < 2 ^ 63 - 2"
  shows "\<exists>out ws s'. unblock_all (tx \<sigma>) = Inr (out, ws, s') \<and>
    session_inv W (transmit out s' \<sigma>) a"
  using assms
proof (induction "tx \<sigma>" arbitrary: \<sigma> rule: unblock_all.induct)
  case 1
  note inv = "1.prems"(1)
  show ?case
  proof (cases "unblock_needed (tx \<sigma>)")
    case False
    have "transmit [] (tx \<sigma>) \<sigma> = \<sigma>" by (simp add: transmit_def)
    then show ?thesis using False inv by (subst unblock_all.simps) auto
  next
    case True
    have N1: "sent_count (tx \<sigma>) < 2 ^ 63 - 1" using "1.prems"(2) by simp
    obtain p l ws s' where e:
      "enqueue_next_blocked_packet (tx \<sigma>) = Inr (of_nat (sent_count (tx \<sigma>)), p, ws, s')"
      and s': "tx_inv s'" "packet_state s' = (packet_state (tx \<sigma>)) (sent_count (tx \<sigma>) := PUnacked p)"
      "sent_count s' = Suc (sent_count (tx \<sigma>))" "length (unacked s') = Suc (length (unacked (tx \<sigma>)))"
      "tx_window_size s' = tx_window_size (tx \<sigma>)" "tx_stats s' = tx_stats (tx \<sigma>)"
      "length (blocked s') < length (blocked (tx \<sigma>))"
      using enqueue_next_ok [OF session_tx_facts(1) [OF inv] True N1] by metis
    let ?\<sigma> = "transmit [WData (of_nat (sent_count (tx \<sigma>))) p] s' \<sigma>"
    have "session_inv W ?\<sigma> a"
      using True session_tx_facts [OF inv] "1.prems"(2)
      by (intro session_push [OF inv _ s'(1,3,2)])
        (auto simp: s' unblock_needed_def is_blocked_def)
    moreover have "sent_count (tx ?\<sigma>) + length (blocked (tx ?\<sigma>)) < 2 ^ 63 - 2"
      using "1.prems"(2) s' by simp
    ultimately obtain out ws' s'' where "unblock_all s' = Inr (out, ws', s'')"
      "session_inv W (transmit out s'' ?\<sigma>) a"
      using "1.hyps" [OF _ e refl refl, where \<sigma> = ?\<sigma>] True by auto
    then show ?thesis
      using True e by (subst unblock_all.simps) (auto simp: transmit_transmit)
  qed
qed


section \<open>The sender's steps\<close>

lemma session_tx_same:
  assumes inv: "session_inv W \<sigma> a" and "tx_inv s'" and "packet_state s' = packet_state (tx \<sigma>)"
    and "last_sent s' = last_sent (tx \<sigma>)" and "length (unacked s') \<le> length (unacked (tx \<sigma>))"
    and "tx_window_size s' \<le> W" and "tx_stats s' = tx_stats (tx \<sigma>)"
  shows "session_inv W (\<sigma> \<lparr> tx := s' \<rparr>) a"
proof -
  have "session_inv W (emit [] \<sigma> \<lparr> tx := s', tx_counters := tx_counters \<sigma> \<rparr>) a"
    using assms session_tx_facts [OF inv]
    by (intro session_tx_change) (auto simp: ok_change_def sent_count_def)
  then show ?thesis by (simp add: emit_def)
qed

lemma session_send:
  assumes inv: "session_inv W \<sigma> a" and "room \<sigma>" and "send_packet (tx \<sigma>) p = (res, out, nf, s')"
  shows "session_inv W (transmit out s' \<sigma>) a"
proof (cases rule: enqueue_packet_cases [of "tx \<sigma>" p])
  case sent
  note f = session_tx_facts [OF inv]
  have N: "sent_count (tx \<sigma>) < 2 ^ 63 - 2" using assms(2) by (simp add: room_def)
  then have N1: "sent_count (tx \<sigma>) < 2 ^ 63 - 1" "sent_count (tx \<sigma>) < 2 ^ 63" by simp_all
  have "out = [WData (of_nat (sent_count (tx \<sigma>))) p]" "s' = push_packet (tx \<sigma>) p None"
    using assms(3) sent by (auto simp: send_packet_def Let_def)
  then show ?thesis
    using session_push [OF inv N push_packet_inv [OF f(1) N1(1)] push_packet_count [OF N1(2)]
        push_packet_state [OF f(1)]] f sent(1)
    by (simp add: push_packet_def is_blocked_def)
next
  case queued
  then have s': "out = []" "s' = tx \<sigma> \<lparr> last_enqueued := last_enqueued (tx \<sigma>) + 1,
      blocked := blocked (tx \<sigma>) @ [Blocked p None None] \<rparr>"
    using assms(3) by (auto simp: send_packet_def Let_def)
  have "hd (blocked (tx \<sigma>) @ [Blocked p None None]) \<noteq> Canceled"
    using session_tx_facts(1) [OF inv] by (cases "blocked (tx \<sigma>)") (auto simp: tx_inv_def)
  then have "tx_inv s'"
    using session_tx_facts(1) [OF inv] s' by (auto simp: tx_inv_def sent_count_def)
  moreover have "packet_state s' = packet_state (tx \<sigma>)"
    using s' by (intro packet_state_cong) simp_all
  ultimately have "session_inv W (\<sigma> \<lparr> tx := s' \<rparr>) a"
    using session_tx_facts [OF inv] s' by (intro session_tx_same [OF inv]) simp_all
  then show ?thesis using s' by (simp add: transmit_def)
qed

lemma session_state:
  assumes "session_inv W \<sigma> a" and "i < sent_count (tx \<sigma>)"
  shows "packet_state (tx \<sigma>) i \<noteq> PNotSent"
    "packet_state (tx \<sigma>) i = PUnacked p \<Longrightarrow> sent_log \<sigma> ! i = p \<and> i \<notin> cancels a"
    "packet_state (tx \<sigma>) i = PCancelAcked \<Longrightarrow> i \<in> cancels a"
    "packet_state (tx \<sigma>) i = PDone \<Longrightarrow> i \<in> accepted a"
  using assms by (auto simp: session_inv_def tx_ok_def)

lemma session_tick:
  assumes inv: "session_inv W \<sigma> a"
    and "retry_tick (tx \<sigma>) (tx_counters \<sigma>) = (out, s', c')"
  shows "session_inv W (emit out \<sigma> \<lparr> tx := s', tx_counters := c' \<rparr>) a"
proof -
  note f = session_tx_facts [OF inv]
  obtain ps where age: "age_retries (tx \<sigma>) = (ps, s')"
    and out: "out = map (\<lambda>(sn, p). WData sn p) (retry_packets s') @ map WCancel (retry_cancels s')"
    and c': "c' = count_events (tx_counters \<sigma>) M_ResentPacket (of_nat (length (retry_packets s')))"
    using assms(2) by (auto simp: retry_tick_def case_prod_unfold prod_eq_iff)
  note ag = age_retries_ok [OF f(1) age]
  have N: "sent_count s' = sent_count (tx \<sigma>)" using ag(2) by (rule tx_frame_count)
  have ch: "ok_change a i (packet_state (tx \<sigma>) i) (packet_state s' i)" for i
    using ag(5) [of i] by (auto simp: ok_change_def cancel_state_def split: pstate.splits)
  have d: "msg_ok (sent_log \<sigma>) (packet_state s') a (WData sn p)"
    if rp: "(sn, p) \<in> set (retry_packets s')" for sn p
  proof -
    obtain i where i: "i < sent_count (tx \<sigma>)" "sn = of_nat i" "packet_state s' i = PUnacked p"
      using rp retry_packets_iff [OF ag(1)] N by auto
    then have "packet_state (tx \<sigma>) i = PUnacked p"
      using ag(5) [of i] by (auto simp: cancel_state_def split: pstate.splits)
    then show ?thesis using session_state(2) [OF inv i(1)] i f(5) by auto
  qed
  have k: "msg_ok (sent_log \<sigma>) (packet_state s') a (WCancel sn)" if "sn \<in> set (retry_cancels s')" for sn
    using that retry_cancels_iff [OF ag(1)] N f(5) by auto
  show ?thesis
  proof (rule session_tx_change [OF inv ag(1) N])
    show "set out \<subseteq> Collect (msg_ok (sent_log \<sigma>) (packet_state s') a)"
      using d k unfolding out by auto
  qed (use ag f ch c' in \<open>auto simp: tx_frame_def\<close>)
qed


lemma session_quiet:
  assumes "session_inv W \<sigma> a" and "tx_quiet (tx \<sigma>) s'"
  shows "session_inv W (\<sigma> \<lparr> tx := s' \<rparr>) a"
  using assms session_tx_facts [OF assms(1)]
  by (intro session_tx_same [OF assms(1)]) (auto simp: tx_quiet_def)

lemma session_window:
  assumes "session_inv W \<sigma> a" and "w \<le> W" and "adjust_window_size (tx \<sigma>) w = Inr s'"
  shows "session_inv W (\<sigma> \<lparr> tx := s' \<rparr>) a"
proof -
  have s': "s' = tx \<sigma> \<lparr> tx_window_size := min (2 ^ 64 - 1) w \<rparr>"
    using assms(3) by (auto simp: adjust_window_size_def assertR_def bindR_def split: if_splits)
  have "packet_state s' = packet_state (tx \<sigma>)" unfolding s' by (rule packet_state_cong) simp_all
  then show ?thesis
    using assms(2) session_tx_facts [OF assms(1)] unfolding s'
    by (intro session_tx_same [OF assms(1)]) (auto simp: tx_inv_def sent_count_def)
qed

lemma session_cancel_sent:
  assumes inv: "session_inv W \<sigma> a" and res: "cancel_sent_packet (tx \<sigma>) sn = Inr (r, s')"
  shows "session_inv W (emit (if r = None then [] else [WCancel sn]) \<sigma> \<lparr> tx := s' \<rparr>) a"
  using session_tx_facts(1) [OF inv] res
proof (cases rule: cancel_sent_packet_cases)
  case none
  then show ?thesis using inv by (simp add: emit_def)
next
  case (entry i)
  let ?out = "if r = None then [] else [WCancel sn]"
  have "session_inv W (emit ?out \<sigma> \<lparr> tx := s', tx_counters := tx_counters \<sigma> \<rparr>) a"
  proof (rule session_tx_change [OF inv entry(4) tx_frame_count [OF entry(5)]])
    show "ok_change a j (packet_state (tx \<sigma>) j) (packet_state s' j)" for j
      unfolding entry by (auto simp: ok_change_def cancel_state_def split: pstate.splits)
    show "set ?out \<subseteq> Collect (msg_ok (sent_log \<sigma>) (packet_state s') a)"
      using entry session_tx_facts(5) [OF inv]
      by (auto simp: acked_packet_def cancel_state_def split: pstate.splits)
  qed (use entry session_tx_facts [OF inv] in \<open>auto simp: tx_frame_def\<close>)
  then show ?thesis by (simp add: emit_def)
qed

lemma session_forget:
  assumes inv: "session_inv W \<sigma> a" and res: "forget_canceled_packet (tx \<sigma>) sn = Inr s'"
  shows "session_inv W (\<sigma> \<lparr> tx := s' \<rparr>) a"
  using session_tx_facts(1) [OF inv] res
proof (cases rule: forget_canceled_packet_cases)
  case none
  then show ?thesis using inv by simp
next
  case (entry i)
  have sub: "cancels a \<subseteq> accepted a" using inv by (auto simp: session_inv_def rx_ok_def rx_rel_def Let_def)
  have "session_inv W (emit [] \<sigma> \<lparr> tx := s', tx_counters := tx_counters \<sigma> \<rparr>) a"
  proof (rule session_tx_change [OF inv entry(3) tx_frame_count [OF entry(4)]])
    show "ok_change a j (packet_state (tx \<sigma>) j) (packet_state s' j)" for j
      using session_state(3) [OF inv entry(2)] sub unfolding entry
      by (auto simp: ok_change_def forget_state_def split: pstate.splits)
  qed (use entry session_tx_facts [OF inv] in \<open>auto simp: tx_frame_def\<close>)
  then show ?thesis by (simp add: emit_def)
qed

section \<open>The receiver's steps\<close>

lemma count_zdpr_receiver_stats_eq:
  "count_zdpr_receiver_stats c r = (c', r') \<Longrightarrow>
     r' = r \<lparr> rx_stats := (\<lambda>_. 0) \<rparr> \<and>
     c' M_DroppedTooNew = c M_DroppedTooNew + rx_stats r TooNew"
proof -
  assume "count_zdpr_receiver_stats c r = (c', r')"
  moreover have "(rx_stats r) (TooOld := 0, Duplicate := 0, TooNew := 0, OutOfOrder := 0) = (\<lambda>_. 0)"
  proof
    fix st
    show "((rx_stats r) (TooOld := 0, Duplicate := 0, TooNew := 0, OutOfOrder := 0)) st = 0"
      by (cases st) simp_all
  qed
  ultimately show ?thesis
    by (auto simp: count_zdpr_receiver_stats_def Receiver_fetch_reset_stat_def
        zdpr_receiver_stat_to_counter_def)
qed

lemma session_rx_facts:
  assumes "session_inv W \<sigma> a"
  shows "rx_rel (rx \<sigma>) a" "rx_window_size (rx \<sigma>) = W" "cancels a \<subseteq> accepted a"
    "accepted a \<subseteq> {..<2 ^ 63 - 1}" "sent_count (tx \<sigma>) < 2 ^ 63 - 1"
  using assms by (auto simp: session_inv_def rx_ok_def tx_ok_def rx_rel_def Let_def)

text \<open>
  The window of the sender lies inside the window of the receiver: no packet
  that was sent is too new for the receiver.
\<close>

lemma session_in_window:
  assumes inv: "session_inv W \<sigma> a" and "i < sent_count (tx \<sigma>)"
  shows "i < oldest_missing (accepted a) + W"
proof -
  let ?s = "tx \<sigma>" let ?m = "oldest_missing (accepted a)"
  have fin: "finite (accepted a)" using rxw.fin [OF session_rx_facts(1) [OF inv]] by simp
  have "window_base ?s \<le> ?m"
  proof (rule ccontr)
    assume lt: "\<not> window_base ?s \<le> ?m"
    then have "?m < sent_count ?s" by (simp add: window_base_def)
    moreover from this have "packet_state ?s ?m = PDone"
      using lt by (simp add: packet_state_out)
    ultimately have "?m \<in> accepted a" using session_state(4) [OF inv] by blast
    then show False using oldest_missing_notin [OF fin] by blast
  qed
  moreover have "sent_count ?s \<le> window_base ?s + W"
    using session_tx_facts(2) [OF inv] by (simp add: window_base_def)
  ultimately show ?thesis using assms(2) by linarith
qed


text \<open>
  An arrival at the receiver: the answer of the contract, the message it puts on
  the wire, and the receiver after its statistics were collected.
\<close>

lemma session_arrival:
  assumes inv: "session_inv W \<sigma> a" and i: "i < sent_count (tx \<sigma>)"
    and pr: "process_packet_or_cancel (rx \<sigma>) (of_nat i) c = (d, r1)"
    and cn: "count_zdpr_receiver_stats (rx_counters \<sigma>) r1 = (c', r')"
  obtains a' where "spec_receive W a i c = (d, a')" "rx_rel r' a'" "rx_window_size r' = W"
    "rx_stats r' TooNew = 0" "c' M_DroppedTooNew = 0"
proof -
  note f = session_rx_facts [OF inv]
  have near: "near (accepted a) i"
    using rxw.near_bounded [OF f(1,4)] i f(5) by simp
  obtain a' where a': "spec_receive W a i c = (d, a')" "rx_rel r1 a'"
    using rx_sim [OF f(1) near pr] f(2) by auto
  have "i < oldest_missing (accepted a) + rx_window_size (rx \<sigma>)"
    using session_in_window [OF inv i] f(2) by simp
  then have "rx_stats r1 TooNew = 0"
    using rx_too_new_stat [OF f(1) near, of c] pr inv by (auto simp: session_inv_def rx_ok_def)
  moreover have "rx_window_size r1 = W"
    using rx_window_const [of "rx \<sigma>" "of_nat i" c] pr f(2) by simp
  ultimately show thesis
    using that [OF a'(1)] a'(2) count_zdpr_receiver_stats_eq [OF cn] inv
    by (auto simp: session_inv_def)
qed

text \<open>The new receiver state, the reply and the logs fit together.\<close>

lemma session_rx_change:
  assumes inv: "session_inv W \<sigma> a" and i: "i < sent_count (tx \<sigma>)"
    and sp: "spec_receive W a i c = (d, a')"
    and canc: "c \<Longrightarrow> \<forall>p. packet_state (tx \<sigma>) i \<noteq> PUnacked p"
    and r': "rx_rel r' a'" "rx_window_size r' = W" "rx_stats r' TooNew = 0" "c' M_DroppedTooNew = 0"
    and q': "q' = (if d = AckAndProcess then queue \<sigma> @ [sent_log \<sigma> ! i] else queue \<sigma>)"
    and ns: "ns = (if d = AckAndProcess then numbers \<sigma> @ [i] else numbers \<sigma>)"
  shows "session_inv W (emit (ack_reply d (of_nat i)) \<sigma>
    \<lparr> rx := r', queue := q', rx_counters := c', numbers := ns \<rparr>) a'"
proof -
  note f = session_rx_facts [OF inv]
  have rx: "rx_ok W \<sigma> a" and tx: "tx_ok W (sent_log \<sigma>) a (tx \<sigma>)"
    and net: "\<And>m. m \<in> net \<sigma> \<Longrightarrow> msg_ok (sent_log \<sigma>) (packet_state (tx \<sigma>)) a m"
    and len: "length (sent_log \<sigma>) = sent_count (tx \<sigma>)"
    using inv by (auto simp: session_inv_def tx_ok_def)
  note defs = session_inv_def rx_ok_def tx_ok_def emit_def ack_reply_def should_ack_def
    ack_is_canceled_def
  have mono: "msg_ok (sent_log \<sigma>) (packet_state (tx \<sigma>)) a' m" if "m \<in> net \<sigma>"
    "accepted a - cancels a \<subseteq> accepted a' - cancels a'" "cancels a \<subseteq> cancels a'" for m
    using that by (intro msg_ok_mono [OF net]) auto
  show ?thesis
  proof (cases rule: spec_receive_cases [of i a c W])
    case new
    then have a': "d = AckAndProcess" "a' = \<lparr> accepted = insert i (accepted a), cancels = cancels a \<rparr>"
      using sp by auto
    have "i \<notin> set (numbers \<sigma>)" "i \<notin> cancels a" using rx new f(3) by (auto simp: rx_ok_def)
    then show ?thesis
      using rx tx mono r' q' ns inv i len new unfolding a'
      by (auto simp: defs split: pstate.splits)
  next
    case cancel
    then have a': "d = AckCancelDoNotProcess"
      "a' = \<lparr> accepted = insert i (accepted a), cancels = insert i (cancels a) \<rparr>"
      using sp by auto
    have "\<forall>p. packet_state (tx \<sigma>) i \<noteq> PUnacked p" using canc cancel by blast
    moreover have "accepted a - cancels a \<subseteq> accepted a' - cancels a'"
      using a' cancel(1) by auto
    ultimately show ?thesis
      using rx tx mono r' q' ns inv i len cancel unfolding a'
      by (auto simp: defs split: pstate.splits)
  next
    case dup
    then have a': "d = AckDoNotProcess" "a' = a" using sp by auto
    then show ?thesis
      using rx tx net r' q' ns inv dup by (auto simp: defs)
  next
    case dup_cancel
    then have a': "d = AckCancelDoNotProcess" "a' = a" using sp by auto
    then show ?thesis
      using rx tx net r' q' ns inv dup_cancel by (auto simp: defs)
  next
    case ignored
    then have a': "d = Ignore" "a' = a" using sp by auto
    then show ?thesis
      using rx tx net r' q' ns inv by (auto simp: defs)
  qed
qed


lemma session_recv_data:
  assumes inv: "session_inv W \<sigma> a" and m: "WData sn p \<in> net \<sigma>"
    and res: "receive_packet cap (rx \<sigma>) (queue \<sigma>) (rx_counters \<sigma>) sn p = (out, r', q', c')"
  shows "\<exists>a'. session_inv W (emit out \<sigma> \<lparr> rx := r', queue := q', rx_counters := c',
    numbers := (if q' = queue \<sigma> then numbers \<sigma> else numbers \<sigma> @ [unat sn]) \<rparr>) a'"
proof -
  obtain i where i: "i < sent_count (tx \<sigma>)" "sn = of_nat i" "sent_log \<sigma> ! i = p"
    using inv m session_tx_facts(5) [OF inv] by (force simp: session_inv_def)
  have u: "unat sn = i"
    using i session_rx_facts(5) [OF inv] by (simp add: unat_of_nat64)
  show ?thesis
  proof (cases "should_process_packet (rx \<sigma>) sn \<and> \<not> length (queue \<sigma>) < cap")
    case True
    then have "out = []" "r' = rx \<sigma>" "q' = queue \<sigma>"
      "c' = count_event (rx_counters \<sigma>) M_QueueBackpressure"
      using res by (auto simp: receive_packet_def)
    then have "session_inv W (emit out \<sigma> \<lparr> rx := r', queue := q', rx_counters := c',
        numbers := (if q' = queue \<sigma> then numbers \<sigma> else numbers \<sigma> @ [unat sn]) \<rparr>) a"
      using inv by (simp add: session_inv_def rx_ok_def emit_def)
    then show ?thesis by blast
  next
    case False
    obtain d r1 where pr: "process_packet_or_cancel (rx \<sigma>) (of_nat i) False = (d, r1)"
      by (cases "process_packet_or_cancel (rx \<sigma>) (of_nat i) False")
    obtain c1 r2 where cn: "count_zdpr_receiver_stats (rx_counters \<sigma>) r1 = (c1, r2)"
      by (cases "count_zdpr_receiver_stats (rx_counters \<sigma>) r1")
    have eq: "out = ack_reply d (of_nat i)" "r' = r2" "c' = c1"
      "q' = (if d = AckAndProcess then queue \<sigma> @ [sent_log \<sigma> ! i] else queue \<sigma>)"
      using res False pr cn i
      by (auto simp: receive_packet_def process_packet_def should_process_packet_iff Let_def)
    obtain a' where "spec_receive W a i False = (d, a')" "rx_rel r2 a'" "rx_window_size r2 = W"
      "rx_stats r2 TooNew = 0" "c1 M_DroppedTooNew = 0"
      using session_arrival [OF inv i(1) pr cn] by blast
    then have "session_inv W (emit out \<sigma> \<lparr> rx := r', queue := q', rx_counters := c',
        numbers := (if d = AckAndProcess then numbers \<sigma> @ [i] else numbers \<sigma>) \<rparr>) a'"
      unfolding eq(1-3) using eq(4) by (intro session_rx_change [where c = False, OF inv i(1)]) simp_all
    moreover have "(if q' = queue \<sigma> then numbers \<sigma> else numbers \<sigma> @ [unat sn]) =
        (if d = AckAndProcess then numbers \<sigma> @ [i] else numbers \<sigma>)"
      using eq(4) u by auto
    ultimately show ?thesis by auto
  qed
qed

lemma session_recv_cancel:
  assumes inv: "session_inv W \<sigma> a" and m: "WCancel sn \<in> net \<sigma>"
    and res: "receive_cancel (rx \<sigma>) (rx_counters \<sigma>) sn = (out, r', c')"
  shows "\<exists>a'. session_inv W (emit out \<sigma> \<lparr> rx := r', rx_counters := c' \<rparr>) a'"
proof -
  obtain i where i: "i < sent_count (tx \<sigma>)" "sn = of_nat i"
    "\<forall>p. packet_state (tx \<sigma>) i \<noteq> PUnacked p"
    using inv m session_tx_facts(5) [OF inv] by (force simp: session_inv_def)
  obtain d r1 where pr: "process_packet_or_cancel (rx \<sigma>) (of_nat i) True = (d, r1)"
    by (cases "process_packet_or_cancel (rx \<sigma>) (of_nat i) True")
  obtain c1 r2 where cn: "count_zdpr_receiver_stats (rx_counters \<sigma>) r1 = (c1, r2)"
    by (cases "count_zdpr_receiver_stats (rx_counters \<sigma>) r1")
  have eq: "out = ack_reply d (of_nat i)" "r' = r2" "c' = c1"
    using res pr cn i by (auto simp: receive_cancel_def process_cancel_def)
  obtain a' where a': "spec_receive W a i True = (d, a')" "rx_rel r2 a'" "rx_window_size r2 = W"
    "rx_stats r2 TooNew = 0" "c1 M_DroppedTooNew = 0"
    using session_arrival [OF inv i(1) pr cn] by blast
  have "d \<noteq> AckAndProcess" using a'(1) by (auto simp: spec_receive_def split: if_splits)
  then have "session_inv W (emit out \<sigma> \<lparr> rx := r', queue := queue \<sigma>, rx_counters := c',
      numbers := numbers \<sigma> \<rparr>) a'"
    unfolding eq using a' i by (intro session_rx_change [where c = True, OF inv i(1)]) simp_all
  moreover have "emit out \<sigma> \<lparr> rx := r', queue := queue \<sigma>, rx_counters := c', numbers := numbers \<sigma> \<rparr>
      = emit out \<sigma> \<lparr> rx := r', rx_counters := c' \<rparr>"
    by (simp add: emit_def)
  ultimately show ?thesis by (intro exI [of _ a']) (simp only:)
qed

section \<open>Acknowledgements at the sender\<close>

lemma count_zdpr_sender_stats_eq:
  assumes "count_zdpr_sender_stats c s = (c', s')"
  shows "s' = s \<lparr> tx_stats := (\<lambda>_. 0) \<rparr>"
    "c' M_DroppedTooNew = c M_DroppedTooNew + tx_stats s TooNewAck"
proof -
  have "(tx_stats s) (InvalidAck := 0, TooOldAck := 0, DuplicateAck := 0, TooNewAck := 0) = (\<lambda>_. 0)"
  proof
    fix st
    show "((tx_stats s) (InvalidAck := 0, TooOldAck := 0, DuplicateAck := 0, TooNewAck := 0)) st = 0"
      by (cases st) simp_all
  qed
  then show "s' = s \<lparr> tx_stats := (\<lambda>_. 0) \<rparr>"
    "c' M_DroppedTooNew = c M_DroppedTooNew + tx_stats s TooNewAck"
    using assms by (auto simp: count_zdpr_sender_stats_def Sender_fetch_reset_stat_def
        zdpr_sender_stat_to_counter_def)
qed

text \<open>What both kinds of acknowledgement do once the entry is settled.\<close>

lemma session_settled:
  assumes inv: "session_inv W \<sigma> a" and room: "room \<sigma>"
    and s1: "tx_inv s1" "tx_frame (tx \<sigma>) s1" "tx_stats s1 TooNewAck = tx_stats (tx \<sigma>) TooNewAck"
    and ch: "\<And>i. ok_change a i (packet_state (tx \<sigma>) i) (packet_state s1 i)"
    and cn: "count_zdpr_sender_stats (tx_counters \<sigma>) s1 = (c1, s2)"
  shows "\<exists>out ws s3. unblock_all s2 = Inr (out, ws, s3) \<and>
    session_inv W (transmit out s3 \<sigma> \<lparr> tx_counters := c1 \<rparr>) a"
proof -
  note f = session_tx_facts [OF inv] and c = count_zdpr_sender_stats_eq [OF cn]
  have st: "packet_state s2 = packet_state s1" unfolding c by (rule packet_state_cong) simp_all
  let ?\<sigma> = "emit [] \<sigma> \<lparr> tx := s2, tx_counters := c1 \<rparr>"
  have "session_inv W ?\<sigma> a"
  proof (rule session_tx_change [OF inv])
    show "tx_inv s2" using s1(1) unfolding c by (simp add: tx_inv_def sent_count_def)
    show "sent_count s2 = sent_count (tx \<sigma>)" using s1(2) unfolding c by (simp add: tx_frame_def sent_count_def)
    show "ok_change a i (packet_state (tx \<sigma>) i) (packet_state s2 i)" for i using ch st by simp
  qed (use f s1 c in \<open>auto simp: tx_frame_def\<close>)
  moreover have "sent_count (tx ?\<sigma>) + length (blocked (tx ?\<sigma>)) < 2 ^ 63 - 2"
    using room s1(2) unfolding c room_def by (simp add: tx_frame_def sent_count_def)
  ultimately obtain out ws s3 where "unblock_all s2 = Inr (out, ws, s3)"
    "session_inv W (transmit out s3 ?\<sigma>) a"
    using session_unblock [of W ?\<sigma> a] by auto
  moreover have "transmit out s3 ?\<sigma> = transmit out s3 \<sigma> \<lparr> tx_counters := c1 \<rparr>" for out s3
    by (rule session.equality) (simp_all add: transmit_def emit_def)
  ultimately show ?thesis by auto
qed

lemma session_recv_ack:
  assumes inv: "session_inv W \<sigma> a" and room: "room \<sigma>"
    and m: "(if is_c then WCanceled sn else WAck sn) \<in> net \<sigma>"
  shows "\<exists>out ws nf s' c'. receive_ack (tx \<sigma>) (tx_counters \<sigma>) sn is_c = Inr (out, ws, nf, s', c') \<and>
    session_inv W (transmit out s' \<sigma> \<lparr> tx_counters := c' \<rparr>) a"
proof -
  note f = session_tx_facts [OF inv]
  have "msg_ok (sent_log \<sigma>) (packet_state (tx \<sigma>)) a (if is_c then WCanceled sn else WAck sn)"
    using inv m by (simp add: session_inv_def)
  then obtain i where i: "sn = of_nat i" "i \<in> accepted a"
    and c: "is_c \<Longrightarrow> i \<in> cancels a" and na: "\<not> is_c \<Longrightarrow> i \<notin> cancels a"
    using session_rx_facts(3) [OF inv] by (cases is_c) auto
  have N: "i < sent_count (tx \<sigma>)" using inv i(2) f(5) by (auto simp: session_inv_def rx_ok_def)
  obtain ws s1 where s1: "(if is_c then process_canceled (tx \<sigma>) sn
      else bindR (process_ack (tx \<sigma>) sn) (\<lambda>(_, ws, s1). Inr (ws, s1))) = Inr (ws, s1)"
    "tx_inv s1" "tx_frame (tx \<sigma>) s1" "tx_stats s1 TooNewAck = tx_stats (tx \<sigma>) TooNewAck"
    and ch: "\<And>j. ok_change a j (packet_state (tx \<sigma>) j) (packet_state s1 j)"
  proof (cases is_c)
    case True
    obtain fl ws s1 where "process_canceled (tx \<sigma>) sn = Inr (ws, s1)" "tx_inv s1"
      "tx_frame (tx \<sigma>) s1" "tx_stats s1 TooNewAck = tx_stats (tx \<sigma>) TooNewAck"
      "packet_state s1 = (packet_state (tx \<sigma>)) (i := canceled_state (packet_state (tx \<sigma>) i) fl)"
      unfolding i(1) by (rule process_canceled_ok [OF f(1) N]) auto
    then show thesis
      using that [of ws s1] True c i(2)
      by (auto simp: ok_change_def canceled_state_def split: pstate.splits)
  next
    case False
    obtain ws s1 where "process_ack (tx \<sigma>) sn = Inr (acked_packet (packet_state (tx \<sigma>) i), ws, s1)"
      "tx_inv s1" "tx_frame (tx \<sigma>) s1" "tx_stats s1 TooNewAck = tx_stats (tx \<sigma>) TooNewAck"
      "packet_state s1 = (packet_state (tx \<sigma>)) (i := acked_state (packet_state (tx \<sigma>) i))"
      unfolding i(1) by (rule process_ack_ok [OF f(1) N]) auto
    then show thesis
      using that [of ws s1] False i(2)
      by (auto simp: ok_change_def acked_state_def split: pstate.splits)
  qed
  obtain c1 s2 where cn: "count_zdpr_sender_stats (tx_counters \<sigma>) s1 = (c1, s2)"
    by (cases "count_zdpr_sender_stats (tx_counters \<sigma>) s1")
  obtain out ws' s3 where "unblock_all s2 = Inr (out, ws', s3)"
    "session_inv W (transmit out s3 \<sigma> \<lparr> tx_counters := c1 \<rparr>) a"
    using session_settled [OF inv room s1(2-4) ch cn] by blast
  then show ?thesis
    unfolding receive_ack_def s1(1) by (auto simp: cn)
qed


section \<open>Reachable sessions\<close>

lemma session_step_inv:
  assumes "session_step cap W \<sigma> \<sigma>'" and inv: "session_inv W \<sigma> a"
  shows "\<exists>a'. session_inv W \<sigma>' a'"
  using assms(1)
proof cases
  case (send p res out nf s')
  then show ?thesis using session_send [OF inv] by blast
next
  case (tick out s' c')
  then show ?thesis using session_tick [OF inv] by blast
next
  case (cancel_sent sn r s')
  then show ?thesis using session_cancel_sent [OF inv] by blast
next
  case (cancel_queued pid r ws s')
  then show ?thesis
    using session_quiet [OF inv] cancel_queued_quiet [OF session_tx_facts(1) [OF inv]] by blast
next
  case (limit_seq sn l s')
  then show ?thesis
    using session_quiet [OF inv] limit_seq_quiet [OF session_tx_facts(1) [OF inv]] by blast
next
  case (limit_id pid l s')
  then show ?thesis
    using session_quiet [OF inv] limit_id_quiet [OF session_tx_facts(1) [OF inv]] by blast
next
  case (forget sn s')
  then show ?thesis using session_forget [OF inv] by blast
next
  case (window w s')
  then show ?thesis using session_window [OF inv] by blast
next
  case (poll cx pid r s')
  then show ?thesis
    using session_quiet [OF inv] poll_send_and_ack_quiet [OF session_tx_facts(1) [OF inv]] by blast
next
  case (recv_data sn p out r' q' c')
  then show ?thesis using session_recv_data [OF inv] by blast
next
  case (recv_cancel sn out r' c')
  then show ?thesis using session_recv_cancel [OF inv] by blast
next
  case (recv_ack sn out ws nf s' c')
  then show ?thesis using session_recv_ack [OF inv, of False sn] by auto
next
  case (recv_canceled sn out ws nf s' c')
  then show ?thesis using session_recv_ack [OF inv, of True sn] by auto
next
  case (handle p q)
  then have "session_inv W \<sigma>' a" using inv by (simp add: session_inv_def rx_ok_def)
  then show ?thesis by blast
qed

lemma Sender_new_facts:
  "tx_inv Sender_new" "sent_count Sender_new = 0" "packet_state Sender_new i = PNotSent"
  by (simp_all add: Sender_new_def tx_inv_def sent_count_def packet_state_def)

lemma session_new_inv:
  assumes "session_new W = Inr \<sigma>" and "W \<le> 63"
  shows "session_inv W \<sigma> \<lparr> accepted = {}, cancels = {} \<rparr>"
proof -
  obtain r where r: "Receiver_new W = Inr r"
    and \<sigma>: "\<sigma> = \<lparr> tx = Sender_new, rx = r, queue = [], net = {}, tx_counters = (\<lambda>_. 0),
      rx_counters = (\<lambda>_. 0), sent_log = [], numbers = [], handled = [] \<rparr>"
    using assms(1) by (auto simp: session_new_def res_simps)
  have "rx_window_size r = W" "rx_stats r TooNew = 0" "1 \<le> W"
    using r by (auto simp: Receiver_new_def assertR_def split: if_splits)
  then show ?thesis
    using rx_rel_new [OF r assms(2)] Sender_new_facts unfolding \<sigma>
    by (auto simp: session_inv_def tx_ok_def rx_ok_def Sender_new_def)
qed

lemma session_reach_inv:
  assumes "session_reach cap W \<sigma>" and "W \<le> 63"
  shows "\<exists>a. session_inv W \<sigma> a"
  using assms(1)
proof induction
  case (init \<sigma>)
  then show ?case using session_new_inv assms(2) by blast
next
  case (step \<sigma> \<sigma>')
  then show ?case using session_step_inv by blast
qed


section \<open>Properties\<close>

text \<open>C1 (exactly once).  In every reachable session over an unreliable substrate: the
  packets that reach the processor of the receiving link are packets that were
  sent, each at most once; a packet whose acknowledgement is on the wire did reach
  it; a packet acknowledged as canceled never does; and a packet the sender is
  done with either reached it or was acknowledged as canceled.\<close>

theorem session_exactly_once:
  assumes "session_reach cap W \<sigma>" and "W \<le> 63"
  shows "distinct (numbers \<sigma>) \<and>
    handled \<sigma> @ queue \<sigma> = map (\<lambda>i. sent_log \<sigma> ! i) (numbers \<sigma>) \<and>
    (\<forall>i < length (sent_log \<sigma>).
       (WAck (of_nat i) \<in> net \<sigma> \<longrightarrow> i \<in> set (numbers \<sigma>)) \<and>
       (WCanceled (of_nat i) \<in> net \<sigma> \<or> packet_state (tx \<sigma>) i = PCancelAcked \<longrightarrow>
          i \<notin> set (numbers \<sigma>)) \<and>
       (packet_state (tx \<sigma>) i = PDone \<longrightarrow>
          i \<in> set (numbers \<sigma>) \<or> WCanceled (of_nat i) \<in> net \<sigma>))"
proof -
  obtain a where inv: "session_inv W \<sigma> a" using session_reach_inv [OF assms] by blast
  note f = session_tx_facts [OF inv] and st = session_state [OF inv]
  have num: "set (numbers \<sigma>) = accepted a - cancels a" and C: "\<And>i. i \<in> cancels a \<Longrightarrow> WCanceled (of_nat i) \<in> net \<sigma>"
    and A: "accepted a \<subseteq> {..<length (sent_log \<sigma>)}" "cancels a \<subseteq> accepted a"
    and d: "distinct (numbers \<sigma>)" "handled \<sigma> @ queue \<sigma> = map (\<lambda>i. sent_log \<sigma> ! i) (numbers \<sigma>)"
    using inv by (auto simp: session_inv_def rx_ok_def rx_rel_def Let_def)
  have inj: "i = j" if "i < length (sent_log \<sigma>)" "j < length (sent_log \<sigma>)" "(of_nat i :: u64) = of_nat j"
    for i j
    using that(1,2) f(5) session_rx_facts(5) [OF inv] by (intro of_nat64_inj [OF that(3)]) simp_all
  have msg: "msg_ok (sent_log \<sigma>) (packet_state (tx \<sigma>)) a m" if "m \<in> net \<sigma>" for m
    using inv that by (simp add: session_inv_def)
  have "i \<in> set (numbers \<sigma>)" if i: "i < length (sent_log \<sigma>)" "WAck (of_nat i) \<in> net \<sigma>" for i
    using msg [OF i(2)] inj [OF i(1)] A num by auto
  moreover have "i \<in> cancels a" if i: "i < length (sent_log \<sigma>)" "WCanceled (of_nat i) \<in> net \<sigma>" for i
    using msg [OF i(2)] inj [OF i(1)] A by auto
  ultimately show ?thesis using num d st C f(5) by auto
qed

text \<open>C13 (no protocol errors).  In a session of this implementation with itself, with a
  sender window within the receiver's, no packet and no acknowledgement is ever
  counted as too new, which would indicate a protocol error of the peer.\<close>

theorem session_no_too_new:
  assumes "session_reach cap W \<sigma>" and "W \<le> 63"
  shows "tx_counters \<sigma> M_DroppedTooNew = 0 \<and> rx_counters \<sigma> M_DroppedTooNew = 0"
  using session_reach_inv [OF assms] by (auto simp: session_inv_def)

text \<open>C14 (acknowledgements are always digested).  Whatever acknowledgement or cancellation
  acknowledgement arrives in a reachable session, in any order and any number of
  times, the sender handles it without a panic, including the loop that sends the
  packets which were waiting.\<close>

theorem session_acks_digested:
  assumes "session_reach cap W \<sigma>" and "W \<le> 63" and "room \<sigma>"
    and "(if is_canceled then WCanceled sn else WAck sn) \<in> net \<sigma>"
  shows "\<exists>out ws nf s' c'.
    receive_ack (tx \<sigma>) (tx_counters \<sigma>) sn is_canceled = Inr (out, ws, nf, s', c')"
proof -
  obtain a where inv: "session_inv W \<sigma> a" using session_reach_inv [OF assms(1,2)] by blast
  show ?thesis using session_recv_ack [OF inv assms(3,4)] by blast
qed

text \<open>A concrete session: one packet is sent, arrives and is acknowledged.\<close>

definition demo_rx :: Receiver where
  "demo_rx = \<lparr> rx_window_size = 32, highest_seen = - 1, recvd = - 1, canceled = - 1,
               rx_stats = (\<lambda>_. 0) \<rparr>"

definition demo_start :: "nat session" where
  "demo_start = \<lparr> tx = Sender_new, rx = demo_rx, queue = [], net = {}, tx_counters = (\<lambda>_. 0),
     rx_counters = (\<lambda>_. 0), sent_log = [], numbers = [], handled = [] \<rparr>"

definition demo_sent :: "nat session" where
  "demo_sent = (case send_packet Sender_new 7 of (_, out, _, s') \<Rightarrow> transmit out s' demo_start)"

definition demo_received :: "nat session" where
  "demo_received =
     (case receive_packet 8 demo_rx [] (\<lambda>_. 0) 0 7 of (out, r', q', c') \<Rightarrow>
        emit out demo_sent \<lparr> rx := r', queue := q', rx_counters := c', numbers := [0] \<rparr>)"

lemma demo_reach: "session_reach 8 32 demo_start" "session_reach 8 32 demo_sent"
proof -
  have "session_new 32 = Inr demo_start"
    by (simp add: session_new_def Receiver_new_def assertR_def Receiver_MAX_WINDOW_SIZE_def
        demo_start_def demo_rx_def)
  then show r: "session_reach 8 32 demo_start" by (rule session_reach.init)
  obtain res out nf s' where e: "send_packet Sender_new (7::nat) = (res, out, nf, s')"
    by (cases "send_packet Sender_new (7::nat)")
  have "room demo_start" by (simp add: room_def demo_start_def Sender_new_facts) (simp add: Sender_new_def)
  then have "session_step 8 32 demo_start (transmit out s' demo_start)"
    by (rule session_step.send) (use e in \<open>simp add: demo_start_def\<close>)
  then show "session_reach 8 32 demo_sent"
    using session_reach.step [OF r] e by (simp add: demo_sent_def)
qed

lemma demo_sent_eq:
  "net demo_sent = {WData 0 7}" "rx demo_sent = demo_rx" "queue demo_sent = []"
  "rx_counters demo_sent = (\<lambda>_. 0)" "numbers demo_sent = []" "sent_log demo_sent = [7]"
  by (simp_all add: demo_sent_def demo_start_def send_packet_def enqueue_packet_def is_blocked_def
      has_blocked_packets_def Sender_new_def transmit_def Let_def)

lemma demo_receive_packet:
  "\<exists>r' c'. receive_packet 8 demo_rx [] (\<lambda>_. 0) 0 (7::nat) = ([WAck 0], r', [7], c')"
  by (simp add: receive_packet_def demo_rx_def should_process_packet_def process_packet_def
      process_packet_or_cancel_def oldest_unrecvd_offset_def ack_reply_def should_ack_def
      ack_is_canceled_def Let_def case_prod_unfold)

lemma demo_received_reach: "session_reach 8 32 demo_received" "WAck 0 \<in> net demo_received"
  "numbers demo_received = [0]" "room demo_received"
proof -
  obtain r' c' where e: "receive_packet 8 demo_rx [] (\<lambda>_. 0) 0 (7::nat) = ([WAck 0], r', [7], c')"
    using demo_receive_packet by blast
  have "session_step 8 32 demo_sent (emit [WAck 0] demo_sent \<lparr> rx := r', queue := [7], rx_counters := c',
      numbers := (if [7] = queue demo_sent then numbers demo_sent else numbers demo_sent @ [unat (0::u64)]) \<rparr>)"
    by (rule session_step.recv_data [of 0 7]) (simp_all add: demo_sent_eq e)
  then show "session_reach 8 32 demo_received"
    using session_reach.step [OF demo_reach(2)] by (simp add: demo_received_def e demo_sent_eq)
  show "WAck 0 \<in> net demo_received" "numbers demo_received = [0]"
    by (simp_all add: demo_received_def e emit_def)
  show "room demo_received"
    by (simp add: demo_received_def e emit_def room_def demo_sent_def demo_start_def send_packet_def
        enqueue_packet_def is_blocked_def has_blocked_packets_def Sender_new_def transmit_def
        sent_count_def Let_def)
qed

theorem session_exactly_once_witness:
  "session_reach 8 32 demo_received \<and> distinct (numbers demo_received) \<and>
   handled demo_received @ queue demo_received =
     map (\<lambda>i. sent_log demo_received ! i) (numbers demo_received)"
  using session_exactly_once [OF demo_received_reach(1)] demo_received_reach(1) by simp

theorem session_no_too_new_witness:
  "session_reach 8 32 demo_received \<and> rx_counters demo_received M_DroppedTooNew = 0"
  using session_no_too_new [OF demo_received_reach(1)] demo_received_reach(1) by simp

theorem session_acks_digested_witness:
  "\<exists>out ws nf s' c'.
     receive_ack (tx demo_received) (tx_counters demo_received) 0 False = Inr (out, ws, nf, s', c')"
  using session_acks_digested [OF demo_received_reach(1) _ demo_received_reach(4), of False 0]
    demo_received_reach(2) by simp

end
