(* ===== verification/Mgmt_Core.thy ===== *)
theory Mgmt_Core
  imports Zdpr_Session
begin

text \<open>
  The futures by which the rest of the program follows a management packet,
  \<open>adapter/ph/src/mgmt/core.rs\<close>: \<open>Sent\<close>, \<open>Acked\<close> and \<open>AckedOrCanceled\<close>.  A future is its
  \<open>PacketId\<close>; the sender of its link is \<open>None\<close> once the link was removed from the
  peer table.  Operations return the updated packet ID with the updated sender.
\<close>

datatype PacketId =
    PidQueued u64
  | PidSent u64
  | PidAcked
  | PidCanceled

datatype MgmtSendError = LinkClosed

datatype PacketStatus = StatusAcked | StatusCanceled

definition update_sent_packet_id :: "u64 option \<Rightarrow> PacketId" where
  "update_sent_packet_id seq_num = (case seq_num of Some sn \<Rightarrow> PidSent sn | None \<Rightarrow> PidAcked)"

definition future_is_sent :: "'p Sender option \<Rightarrow> PacketId \<Rightarrow> bool" where
  "future_is_sent peer fut =
     (case fut of
        PidQueued packet_id \<Rightarrow> (case peer of None \<Rightarrow> True | Some s \<Rightarrow> is_sent s packet_id)
      | _ \<Rightarrow> True)"

definition try_cancel_internal ::
  "'p Sender option \<Rightarrow> PacketId \<Rightarrow> ('p option \<times> nat list \<times> PacketId \<times> 'p Sender option) res" where
  "try_cancel_internal peer fut =
     (case fut of
        PidQueued packet_id \<Rightarrow>
          (case peer of
             None \<Rightarrow> Inr (None, [], fut, peer)
           | Some s \<Rightarrow>
               bindR (cancel_queued_packet s packet_id) (\<lambda>(r, ws, s1).
                 case r of
                   Some pkt \<Rightarrow> Inr (Some pkt, ws, fut, Some s1)
                 | None \<Rightarrow> bindR (lookup_seq_num s1 packet_id) (\<lambda>sn.
                     Inr (None, ws, update_sent_packet_id sn, Some s1))))
      | _ \<Rightarrow> Inr (None, [], fut, peer))"

definition request_cancel_internal ::
  "'p Sender option \<Rightarrow> PacketId \<Rightarrow> ('p wire list \<times> nat list \<times> PacketId \<times> 'p Sender option) res" where
  "request_cancel_internal peer fut =
     (if fut = PidAcked \<or> fut = PidCanceled then Inr ([], [], fut, peer)
      else case peer of
        None \<Rightarrow> Inr ([], [], fut, peer)
      | Some _ \<Rightarrow>
          bindR (case fut of
                   PidQueued _ \<Rightarrow> bindR (try_cancel_internal peer fut) (\<lambda>(r, ws, fut1, peer1).
                     Inr (r \<noteq> None, ws, fut1, peer1))
                 | _ \<Rightarrow> Inr (False, [], fut, peer)) (\<lambda>(canceled, ws, fut1, peer1).
          if canceled then Inr ([], ws, PidCanceled, peer1)
          else case (fut1, peer1) of
            (PidSent seq_num, Some s) \<Rightarrow>
              bindR (cancel_sent_packet s seq_num) (\<lambda>(r, s1).
                Inr ((if r = None then [] else [WCancel seq_num]), ws, fut1, Some s1))
          | _ \<Rightarrow> Inl Unreachable))"

definition limit_retries_internal ::
  "'p Sender option \<Rightarrow> PacketId \<Rightarrow> u8 \<Rightarrow> 'p Sender option res" where
  "limit_retries_internal peer fut retry_limit =
     (if fut = PidAcked \<or> fut = PidCanceled then Inr peer
      else case peer of
        None \<Rightarrow> Inr None
      | Some s \<Rightarrow>
          (case fut of
             PidQueued packet_id \<Rightarrow>
               bindR (limit_retries_by_id s packet_id retry_limit) (\<lambda>s1. Inr (Some s1))
           | PidSent seq_num \<Rightarrow>
               bindR (limit_retries_by_seq_num s seq_num retry_limit) (\<lambda>s1. Inr (Some s1))
           | _ \<Rightarrow> Inl Unreachable))"

definition forget_internal :: "'p Sender option \<Rightarrow> PacketId \<Rightarrow> 'p Sender option res" where
  "forget_internal peer fut =
     (case fut of
        PidSent seq_num \<Rightarrow>
          (case peer of
             None \<Rightarrow> Inr None
           | Some s \<Rightarrow> bindR (forget_canceled_packet s seq_num) (\<lambda>s1. Inr (Some s1)))
      | _ \<Rightarrow> Inr peer)"

definition Sent_poll ::
  "'p Sender option \<Rightarrow> waker \<Rightarrow> PacketId
     \<Rightarrow> ((MgmtSendError + PacketId) Poll \<times> PacketId \<times> 'p Sender option) res" where
  "Sent_poll peer cx fut =
     (case fut of
        PidQueued packet_id \<Rightarrow>
          (case peer of
             None \<Rightarrow> Inr (Ready (Inl LinkClosed), fut, peer)
           | Some s \<Rightarrow>
               bindR (poll_send s cx packet_id) (\<lambda>(p, s1).
                 case p of
                   Pending \<Rightarrow> Inr (Pending, fut, Some s1)
                 | Ready seq_num \<Rightarrow>
                     let fut1 = update_sent_packet_id seq_num in
                     Inr (Ready (Inr fut1), fut1, Some s1)))
      | _ \<Rightarrow> Inr (Ready (Inr fut), fut, peer))"

definition Acked_poll ::
  "'p Sender option \<Rightarrow> waker \<Rightarrow> PacketId
     \<Rightarrow> ((MgmtSendError + unit) Poll \<times> PacketId \<times> 'p Sender option) res" where
  "Acked_poll peer cx fut =
     (if fut = PidAcked then Inr (Ready (Inr ()), fut, peer)
      else case peer of
        None \<Rightarrow> Inr (Ready (Inl LinkClosed), fut, peer)
      | Some s \<Rightarrow>
          let finish = (\<lambda>s seq_num. bindR (poll_ack s cx seq_num) (\<lambda>(p, s1).
                Inr (case p of Pending \<Rightarrow> Pending | Ready _ \<Rightarrow> Ready (Inr ()), PidSent seq_num, Some s1)))
          in (case fut of
                PidQueued packet_id \<Rightarrow>
                  bindR (poll_send s cx packet_id) (\<lambda>(p, s1).
                    case p of
                      Pending \<Rightarrow> Inr (Pending, fut, Some s1)
                    | Ready None \<Rightarrow> Inr (Ready (Inr ()), fut, Some s1)
                    | Ready (Some sn) \<Rightarrow> finish s1 sn)
              | PidSent sn \<Rightarrow> finish s sn
              | _ \<Rightarrow> Inl Unreachable))"

definition AckedOrCanceled_poll ::
  "'p Sender option \<Rightarrow> waker \<Rightarrow> PacketId
     \<Rightarrow> ((MgmtSendError + PacketStatus) Poll \<times> PacketId \<times> 'p Sender option) res" where
  "AckedOrCanceled_poll peer cx fut =
     (if fut = PidAcked then Inr (Ready (Inr StatusAcked), fut, peer)
      else if fut = PidCanceled then Inr (Ready (Inr StatusCanceled), fut, peer)
      else case peer of
        None \<Rightarrow> Inr (Ready (Inl LinkClosed), fut, peer)
      | Some s \<Rightarrow>
          let finish = (\<lambda>s seq_num. bindR (poll_ack s cx seq_num) (\<lambda>(p, s1).
                case p of
                  Pending \<Rightarrow> Inr (Pending, PidSent seq_num, Some s1)
                | Ready _ \<Rightarrow> bindR (is_cancel_acked s1 seq_num) (\<lambda>b.
                    Inr (Ready (Inr (if b then StatusCanceled else StatusAcked)),
                         PidSent seq_num, Some s1))))
          in (case fut of
                PidQueued packet_id \<Rightarrow>
                  bindR (poll_send s cx packet_id) (\<lambda>(p, s1).
                    case p of
                      Pending \<Rightarrow> Inr (Pending, fut, Some s1)
                    | Ready None \<Rightarrow> Inr (Ready (Inr StatusAcked), fut, Some s1)
                    | Ready (Some sn) \<Rightarrow> finish s1 sn)
              | PidSent sn \<Rightarrow> finish s sn
              | _ \<Rightarrow> Inl Unreachable))"

text \<open>Dropping a future: \<open>Sent\<close> cancels a waiting packet, \<open>AckedOrCanceled\<close> also forgets.\<close>

definition Sent_drop :: "'p Sender option \<Rightarrow> PacketId \<Rightarrow> (nat list \<times> 'p Sender option) res" where
  "Sent_drop peer fut = bindR (try_cancel_internal peer fut) (\<lambda>(_, ws, _, peer1). Inr (ws, peer1))"

definition AckedOrCanceled_drop ::
  "'p Sender option \<Rightarrow> PacketId \<Rightarrow> (nat list \<times> 'p Sender option) res" where
  "AckedOrCanceled_drop peer fut = bindR (forget_internal peer fut) (\<lambda>peer1. Sent_drop peer1 fut)"

text \<open>\<open>AckedOrCanceled::enqueue\<close>: forget, and skip the destructor of \<open>Sent\<close>.\<close>

definition AckedOrCanceled_enqueue :: "'p Sender option \<Rightarrow> PacketId \<Rightarrow> 'p Sender option res" where
  "AckedOrCanceled_enqueue peer fut = forget_internal peer fut"

section \<open>What a future reports\<close>



section \<open>Properties\<close>




text \<open>
  The scenario of the next properties: with a window of one packet, packet A (1)
  is sent and B (2) waits with packet ID 0.
\<close>

definition waiting :: "nat Sender" where
  "waiting = snd (enqueue_packet (snd (enqueue_packet Sender_new 1)) 2)"

text \<open>B waits for A, is
  sent when A is acknowledged, and is acknowledged itself; requesting its
  cancellation through the future that still holds its packet ID panics.\<close>

theorem request_cancel_panics:
  "returns_with (\<lambda>(_, _, _, s, c).
     returns_with (\<lambda>(_, _, _, s', _).
       panics_with Unreachable (request_cancel_internal (Some s') (PidQueued 0)))
     (receive_ack s c 1 False))
   (receive_ack waiting (\<lambda>_. 0) 0 False)"
  by code_simp


text \<open>B waits with a retry limit, is
  sent once A is acknowledged, exceeds its limit, and the peer acknowledges its
  cancellation; if its future is polled only now, it reports that B was
  acknowledged, and dropping the future leaves the entry in the window, so that
  the sender stays blocked with nothing to retry.\<close>

theorem canceled_reported_as_acked:
  "returns_with (\<lambda>p.
     returns_with (\<lambda>(_, _, _, s, c).
       case retry_tick s c of (_, s1, c1) \<Rightarrow>
       returns_with (\<lambda>(_, _, _, s2, _).
         packet_state s2 1 = PCancelAcked \<and>
         returns_with (\<lambda>(r, fut, peer). r = Ready (Inr StatusAcked) \<and>
           returns_with (\<lambda>(_, peer'). case peer' of None \<Rightarrow> False
             | Some s3 \<Rightarrow> is_blocked s3 \<and> \<not> retry_needed s3)
           (AckedOrCanceled_drop peer fut))
         (AckedOrCanceled_poll (Some s2) None (PidQueued 0)))
       (receive_ack s1 c1 1 True))
     (receive_ack (the p) (\<lambda>_. 0) 0 False))
   (limit_retries_internal (Some waiting) (PidQueued 0) 0)"
  by code_simp

text \<open>C36 (error). A stalled sender.  When the only packet in the window was canceled and the peer has acknowledged
the cancellation, the caller drops the future of that packet: the window becomes free, but none of the
packets that wait is sent.  Unblocking is needed, no retry is due, nothing is on its way to the peer, and every
further packet queues behind the others.\<close>

theorem dropped_future_stalls_sender:
  assumes "tx_inv s" and "unacked s = [CancelAcked]" and "blocked s \<noteq> []" and "0 < tx_window_size s"
  shows "\<exists>s'. AckedOrCanceled_drop (Some s) (PidSent (last_sent s)) = Inr ([], Some s')
    \<and> unacked s' = [] \<and> blocked s' = blocked s \<and> unblock_needed s' \<and> \<not> retry_needed s'
    \<and> (\<exists>i s''. enqueue_packet s' pkt = (Queued i, s'') \<and> unacked s'' = [] \<and> unblock_needed s'')"
proof -
  let ?s1 = "s \<lparr> unacked := [] \<rparr>"
  have "tx_inv ?s1" using assms(1) by (simp add: tx_inv_def sent_count_def)
  then obtain k where "clean_sent_queue ?s1 = Inr (?s1 \<lparr> sent := drop k (sent ?s1) \<rparr>)" by (rule clean_sent_queue_ok)
  then have "forget_canceled_packet s (last_sent s) = Inr (?s1 \<lparr> sent := drop k (sent s) \<rparr>)"
    using assms(2) by (simp add: forget_canceled_packet_def past_front_def queue_idx_def clean_unacked_queue_def Unacked_forget_def)
  then show ?thesis
    using assms(3,4)
    by (auto simp: AckedOrCanceled_drop_def forget_internal_def Sent_drop_def try_cancel_internal_def unblock_needed_def
        is_blocked_def has_blocked_packets_def retry_needed_def enqueue_packet_def Let_def)
qed

text \<open>The state arises when A is canceled while B waits, and the peer acknowledges the cancellation.\<close>

definition canceled :: "nat Sender" where
  "canceled = (case request_cancel_internal (Some waiting) (PidSent 0) of
     Inr (_, _, _, Some s) \<Rightarrow>
       (case receive_ack s (\<lambda>_. 0) 0 True of Inr (_, _, _, s', _) \<Rightarrow> s' | Inl _ \<Rightarrow> s)
   | _ \<Rightarrow> waiting)"

theorem dropped_future_stalls_sender_witness:
  "\<exists>s'. AckedOrCanceled_drop (Some canceled) (PidSent (last_sent canceled)) = Inr ([], Some s')
    \<and> unacked s' = [] \<and> unblock_needed s' \<and> \<not> retry_needed s'"
proof -
  have "unacked canceled = [CancelAcked]" "blocked canceled \<noteq> []" "0 < tx_window_size canceled"
    "sent_count canceled = 1" "sent canceled = []" "hd (blocked canceled) \<noteq> Canceled"
    by code_simp+
  moreover from this have "tx_inv canceled" by (simp add: tx_inv_def)
  ultimately show ?thesis using dropped_future_stalls_sender [of canceled 3] by blast
qed

end
