(* ===== verification/Bytes.thy ===== *)
theory Bytes
  imports Prelude
begin

text \<open>
  Network byte order and the cursor operations of the \<open>bytes\<close> interface the
  parsers use: reading past the end of a buffer panics.
\<close>

section \<open>Big-endian integers\<close>

fun be_enc :: "nat \<Rightarrow> nat \<Rightarrow> bytes" where
  "be_enc 0 v = []"
| "be_enc (Suc n) v = be_enc n (v div 256) @ [of_nat (v mod 256)]"

definition be_dec :: "bytes \<Rightarrow> nat" where
  "be_dec bs = foldl (\<lambda>a b. a * 256 + unat b) 0 bs"

definition put_word :: "nat \<Rightarrow> 'a::len word \<Rightarrow> bytes" where
  "put_word n w = be_enc n (unat w)"

definition get_word :: "bytes \<Rightarrow> 'a::len word" where
  "get_word bs = of_nat (be_dec bs)"

text \<open>A cursor read of n bytes.\<close>

definition takeR :: "nat \<Rightarrow> bytes \<Rightarrow> (bytes \<times> bytes) res" where
  "takeR n buf = (if length buf < n then Inl Index_out_of_bounds else Inr (take n buf, drop n buf))"

definition get_wordR :: "nat \<Rightarrow> bytes \<Rightarrow> ('a::len word \<times> bytes) res" where
  "get_wordR n buf = bindR (takeR n buf) (\<lambda>(bs, rest). Inr (get_word bs, rest))"

lemma length_be_enc [simp]: "length (be_enc n v) = n"
  by (induction n arbitrary: v) simp_all

lemma be_dec_Nil [simp]: "be_dec [] = 0"
  by (simp add: be_dec_def)

lemma be_dec_snoc [simp]: "be_dec (bs @ [b]) = be_dec bs * 256 + unat b"
  by (simp add: be_dec_def)

lemma be_dec_enc: "v < 256 ^ n \<Longrightarrow> be_dec (be_enc n v) = v"
proof (induction n arbitrary: v)
  case (Suc n)
  have "v div 256 < 256 ^ n" using Suc.prems by (simp add: less_mult_imp_div_less mult.commute)
  moreover have "unat (of_nat (v mod 256) :: u8) = v mod 256"
    by (simp add: unat_of_nat take_bit_eq_mod)
  ultimately show ?case using Suc.IH by simp
qed simp

lemma be_enc_dec: "be_enc (length bs) (be_dec bs) = bs"
proof (induction bs rule: rev_induct)
  case (snoc b bs)
  have "unat b < 256" using unsigned_less [of b] by simp
  then have "(be_dec bs * 256 + unat b) div 256 = be_dec bs"
    "(be_dec bs * 256 + unat b) mod 256 = unat b" by auto
  then show ?case using snoc.IH by simp
qed simp

lemma be_dec_less: "be_dec bs < 256 ^ length bs"
proof (induction bs rule: rev_induct)
  case (snoc b bs)
  have "unat b < 256" using unsigned_less [of b] by simp
  then have "be_dec bs * 256 + unat b < (be_dec bs + 1) * 256" by simp
  also have "\<dots> \<le> 256 ^ length bs * 256" using snoc.IH by (intro mult_right_mono) simp_all
  finally show ?case by simp
qed simp

lemma length_put_word [simp]: "length (put_word n w) = n"
  by (simp add: put_word_def)

lemma get_put_word:
  assumes "LENGTH('a) \<le> 8 * n"
  shows "get_word (put_word n (w :: 'a::len word)) = w"
proof -
  have "unat w < 2 ^ LENGTH('a)" by (rule unsigned_less)
  also have "(2::nat) ^ LENGTH('a) \<le> 2 ^ (8 * n)" using assms by (intro power_increasing) simp_all
  also have "(2::nat) ^ (8 * n) = 256 ^ n" by (simp add: power_mult)
  finally show ?thesis by (simp add: get_word_def put_word_def be_dec_enc)
qed

lemma put_get_word:
  assumes "8 * length bs \<le> LENGTH('a)"
  shows "put_word (length bs) (get_word bs :: 'a::len word) = bs"
proof -
  have "be_dec bs < 256 ^ length bs" by (rule be_dec_less)
  also have "(256::nat) ^ length bs = 2 ^ (8 * length bs)" by (simp add: power_mult)
  also have "\<dots> \<le> 2 ^ LENGTH('a)" using assms by (intro power_increasing) simp_all
  finally have "unat (of_nat (be_dec bs) :: 'a word) = be_dec bs"
    by (simp add: unat_of_nat take_bit_nat_eq_self)
  then show ?thesis by (simp add: get_word_def put_word_def be_enc_dec)
qed

lemma takeR_append [simp]: "length xs = n \<Longrightarrow> takeR n (xs @ ys) = Inr (xs, ys)"
  by (simp add: takeR_def)

lemma takeR_ok [simp]: "n \<le> length buf \<Longrightarrow> takeR n buf = Inr (take n buf, drop n buf)"
  by (simp add: takeR_def)

lemma get_wordR_put [simp]:
  "LENGTH('a) \<le> 8 * n \<Longrightarrow> get_wordR n (put_word n (w :: 'a::len word) @ ys) = Inr (w, ys)"
  by (simp add: get_wordR_def get_put_word)

lemma get_wordR_ok: "n \<le> length buf \<Longrightarrow> get_wordR n buf = Inr (get_word (take n buf), drop n buf)"
  by (simp add: get_wordR_def)

section \<open>UTF-8\<close>

text \<open>
  \<open>String::from_utf8_lossy\<close>: each maximal ill-formed prefix of a sequence becomes
  one replacement character U+FFFD.
\<close>

definition cont :: "u8 \<Rightarrow> bool" where
  "cont b \<longleftrightarrow> 0x80 \<le> b \<and> b \<le> 0xBF"

definition second3 :: "u8 \<Rightarrow> u8 \<Rightarrow> bool" where
  "second3 a b \<longleftrightarrow>
     (if a = 0xE0 then 0xA0 \<le> b \<and> b \<le> 0xBF
      else if a = 0xED then 0x80 \<le> b \<and> b \<le> 0x9F else cont b)"

definition second4 :: "u8 \<Rightarrow> u8 \<Rightarrow> bool" where
  "second4 a b \<longleftrightarrow>
     (if a = 0xF0 then 0x90 \<le> b \<and> b \<le> 0xBF
      else if a = 0xF4 then 0x80 \<le> b \<and> b \<le> 0x8F else cont b)"

text \<open>The length of the sequence at the front, and whether it is well formed.\<close>

definition utf8_front :: "bytes \<Rightarrow> nat \<times> bool" where
  "utf8_front bs =
     (case bs of
        [] \<Rightarrow> (0, True)
      | a # t \<Rightarrow>
          if a < 0x80 then (1, True)
          else if 0xC2 \<le> a \<and> a \<le> 0xDF then
            (case t of b # _ \<Rightarrow> if cont b then (2, True) else (1, False) | [] \<Rightarrow> (1, False))
          else if 0xE0 \<le> a \<and> a \<le> 0xEF then
            (case t of b # t2 \<Rightarrow>
               if \<not> second3 a b then (1, False)
               else (case t2 of c # _ \<Rightarrow> if cont c then (3, True) else (2, False) | [] \<Rightarrow> (2, False))
             | [] \<Rightarrow> (1, False))
          else if 0xF0 \<le> a \<and> a \<le> 0xF4 then
            (case t of b # t2 \<Rightarrow>
               if \<not> second4 a b then (1, False)
               else (case t2 of c # t3 \<Rightarrow>
                       if \<not> cont c then (2, False)
                       else (case t3 of d # _ \<Rightarrow> if cont d then (4, True) else (3, False)
                             | [] \<Rightarrow> (3, False))
                     | [] \<Rightarrow> (2, False))
             | [] \<Rightarrow> (1, False))
          else (1, False))"

lemma utf8_front_pos: "bs \<noteq> [] \<Longrightarrow> 0 < fst (utf8_front bs)"
  by (cases bs) (auto simp: utf8_front_def split: list.split)

function from_utf8_lossy :: "bytes \<Rightarrow> bytes" where
  "from_utf8_lossy bs =
     (if bs = [] then []
      else case utf8_front bs of (n, ok) \<Rightarrow>
        (if ok then take n bs else [0xEF, 0xBF, 0xBD]) @ from_utf8_lossy (drop n bs))"
  by auto

termination
proof (relation "measure length")
  fix bs :: bytes and n :: nat and ok :: bool
  assume "bs \<noteq> []" "(n, ok) = utf8_front bs"
  then show "(drop n bs, bs) \<in> measure length"
    using utf8_front_pos [of bs] by (cases "utf8_front bs") auto
qed simp

function is_utf8 :: "bytes \<Rightarrow> bool" where
  "is_utf8 bs =
     (if bs = [] then True
      else case utf8_front bs of (n, ok) \<Rightarrow> ok \<and> is_utf8 (drop n bs))"
  by auto

termination
proof (relation "measure length")
  fix bs :: bytes and n :: nat and ok :: bool
  assume "bs \<noteq> []" "(n, ok) = utf8_front bs"
  then show "(drop n bs, bs) \<in> measure length"
    using utf8_front_pos [of bs] by (cases "utf8_front bs") auto
qed simp

declare from_utf8_lossy.simps [simp del] is_utf8.simps [simp del]

lemma from_utf8_lossy_valid: "is_utf8 bs \<Longrightarrow> from_utf8_lossy bs = bs"
proof (induction bs rule: is_utf8.induct)
  case (1 bs)
  show ?case
  proof (cases "bs = []")
    case False
    obtain n ok where f: "utf8_front bs = (n, ok)" by (cases "utf8_front bs")
    then have "ok" "is_utf8 (drop n bs)"
      using "1.prems" False by (auto simp: is_utf8.simps [of bs])
    then show ?thesis
      using "1.IH" [OF False f [symmetric]] f False by (simp add: from_utf8_lossy.simps [of bs])
  qed (simp add: from_utf8_lossy.simps)
qed

end
