(* ===== verification/Tlv.thy ===== *)
theory Tlv
  imports Bytes
begin

text \<open>
  The type-length-value lists of the hello and configuration messages,
  \<open>adapter/ph/src/tlv.rs\<close>.  A \<open>String\<close> is its UTF-8 encoding, addresses are words in
  network order.  Reading past the end of the buffer panics in the source; that
  it never happens is one of the properties.

  The encoding of visas is that of Cap'n Proto and of the \<open>zpr\<close> crate: a pair of
  parameters \<open>enc_visa\<close>, \<open>dec_visa\<close>.
\<close>

section \<open>The model\<close>

datatype TlvError = BadStructure

datatype SocketAddr =
    SockV4 "32 word" u16
  | SockV6 "128 word" u16 u32 u32

datatype 'v TlvValue =
    TV_U16 u16
  | TV_I64 u64
  | TV_Str bytes
  | TV_Ipv6Addr "128 word"
  | TV_Ipv4Addr "32 word"
  | TV_SocketAddr SocketAddr
  | TV_X25519PubKey bytes
  | TV_Visa 'v

datatype 'v TlvEncoding = TlvEncoding (tlv_type: u8) (tlv_value: "'v TlvValue")

definition DT_NULL :: u8 where "DT_NULL = 0"
definition DT_POLICY_ID :: u8 where "DT_POLICY_ID = 1"
definition DT_VERSION :: u8 where "DT_VERSION = 2"
definition DT_AAA :: u8 where "DT_AAA = 3"
definition DT_ASA :: u8 where "DT_ASA = 4"
definition DT_STATIC_ADDR :: u8 where "DT_STATIC_ADDR = 5"
definition DT_WINDOW_SIZE :: u8 where "DT_WINDOW_SIZE = 6"
definition DT_A2A_DH_PUBKEY :: u8 where "DT_A2A_DH_PUBKEY = 7"
definition DT_BOOTSTRAP_VISA :: u8 where "DT_BOOTSTRAP_VISA = 8"
definition DT_ACTOR_AUTH_PROTOCOL :: u8 where "DT_ACTOR_AUTH_PROTOCOL = 9"
definition DT_VS_BOOTSTRAP_LINK :: u8 where "DT_VS_BOOTSTRAP_LINK = 10"

lemmas DataType_defs = DT_NULL_def DT_POLICY_ID_def DT_VERSION_def DT_AAA_def DT_ASA_def
  DT_STATIC_ADDR_def DT_WINDOW_SIZE_def DT_A2A_DH_PUBKEY_def DT_BOOTSTRAP_VISA_def
  DT_ACTOR_AUTH_PROTOCOL_def DT_VS_BOOTSTRAP_LINK_def

definition SOCKADDR_LEN_V4 :: u8 where "SOCKADDR_LEN_V4 = 6"
definition SOCKADDR_LEN_V6 :: u8 where "SOCKADDR_LEN_V6 = 18"
definition X25519_KEY_LEN :: u8 where "X25519_KEY_LEN = 32"
definition ACTOR_AUTH_PROTOCOL_VERSION :: u16 where "ACTOR_AUTH_PROTOCOL_VERSION = 1"

datatype IpAddr = IpV4 "32 word" | IpV6 "128 word"

definition new_actor_auth_protocol :: "'v TlvEncoding" where
  "new_actor_auth_protocol = TlvEncoding DT_ACTOR_AUTH_PROTOCOL (TV_U16 ACTOR_AUTH_PROTOCOL_VERSION)"

definition new_vs_bootstrap_link :: "'v TlvEncoding" where
  "new_vs_bootstrap_link = TlvEncoding DT_VS_BOOTSTRAP_LINK (TV_U16 1)"

definition new_policy_id :: "u64 \<Rightarrow> 'v TlvEncoding" where
  "new_policy_id policy_id = TlvEncoding DT_POLICY_ID (TV_I64 policy_id)"

definition new_version :: "bytes \<Rightarrow> 'v TlvEncoding" where
  "new_version version = TlvEncoding DT_VERSION (TV_Str version)"

definition new_aaa :: "('ip \<Rightarrow> IpAddr) \<Rightarrow> 'ip \<Rightarrow> 'v TlvEncoding" where
  "new_aaa to_std addr =
     (case to_std addr of IpV4 ipa \<Rightarrow> TlvEncoding DT_AAA (TV_Ipv4Addr ipa)
      | IpV6 ipa \<Rightarrow> TlvEncoding DT_AAA (TV_Ipv6Addr ipa))"

definition new_static_addr_std :: "IpAddr \<Rightarrow> 'v TlvEncoding" where
  "new_static_addr_std addr =
     (case addr of IpV4 ipa \<Rightarrow> TlvEncoding DT_STATIC_ADDR (TV_Ipv4Addr ipa)
      | IpV6 ipa \<Rightarrow> TlvEncoding DT_STATIC_ADDR (TV_Ipv6Addr ipa))"

definition new_static_addr :: "('ip \<Rightarrow> IpAddr) \<Rightarrow> 'ip \<Rightarrow> 'v TlvEncoding" where
  "new_static_addr to_std addr = new_static_addr_std (to_std addr)"

definition new_asa :: "SocketAddr \<Rightarrow> 'v TlvEncoding" where
  "new_asa sock_addr = TlvEncoding DT_ASA (TV_SocketAddr sock_addr)"

definition new_window_size :: "u16 \<Rightarrow> 'v TlvEncoding" where
  "new_window_size window_size = TlvEncoding DT_WINDOW_SIZE (TV_U16 window_size)"

definition new_a2a_dh_pubkey :: "bytes \<Rightarrow> 'v TlvEncoding" where
  "new_a2a_dh_pubkey pubkey = TlvEncoding DT_A2A_DH_PUBKEY (TV_X25519PubKey pubkey)"

definition new_bootstrap_visa :: "'v \<Rightarrow> 'v TlvEncoding" where
  "new_bootstrap_visa visa = TlvEncoding DT_BOOTSTRAP_VISA (TV_Visa visa)"

definition put_u16 :: "u8 \<Rightarrow> u16 \<Rightarrow> bytes" where
  "put_u16 t value = [t, 2] @ put_word 2 value"

definition put_i64 :: "u8 \<Rightarrow> u64 \<Rightarrow> bytes" where
  "put_i64 t value = [t, 8] @ put_word 8 value"

definition put_str :: "u8 \<Rightarrow> bytes \<Rightarrow> bytes" where
  "put_str t value =
     (let strlen = (if length value > 255 then 255 else length value) in
      [t, of_nat strlen] @ take strlen value)"

definition put_ipv6addr :: "u8 \<Rightarrow> 128 word \<Rightarrow> bytes" where
  "put_ipv6addr t value = [t, 16] @ put_word 16 value"

definition put_ipv4addr :: "u8 \<Rightarrow> 32 word \<Rightarrow> bytes" where
  "put_ipv4addr t value = [t, 4] @ put_word 4 value"

definition put_x25519_pubkey :: "u8 \<Rightarrow> bytes \<Rightarrow> bytes" where
  "put_x25519_pubkey t value = [t, X25519_KEY_LEN] @ value"

definition put_socketaddr :: "u8 \<Rightarrow> SocketAddr \<Rightarrow> bytes" where
  "put_socketaddr t sock_addr =
     (case sock_addr of
        SockV4 ip port \<Rightarrow> [t, SOCKADDR_LEN_V4] @ put_word 4 ip @ put_word 2 port
      | SockV6 ip port _ _ \<Rightarrow> [t, SOCKADDR_LEN_V6] @ put_word 16 ip @ put_word 2 port)"

definition put_visa :: "('v \<Rightarrow> bytes) \<Rightarrow> u8 \<Rightarrow> 'v \<Rightarrow> bytes res" where
  "put_visa enc_visa t visa =
     (let msg_buf = enc_visa visa in
      bindR (assertR ''msg_buf.len() <= u8::MAX'' (length msg_buf \<le> 255)) (\<lambda>_.
      Inr ([t, of_nat (length msg_buf)] @ msg_buf)))"

definition put :: "('v \<Rightarrow> bytes) \<Rightarrow> 'v TlvEncoding \<Rightarrow> bytes res" where
  "put enc_visa e =
     (let t = tlv_type e in
      case tlv_value e of
        TV_U16 v \<Rightarrow> Inr (put_u16 t v)
      | TV_I64 v \<Rightarrow> Inr (put_i64 t v)
      | TV_Str v \<Rightarrow> Inr (put_str t v)
      | TV_Ipv6Addr v \<Rightarrow> Inr (put_ipv6addr t v)
      | TV_Ipv4Addr v \<Rightarrow> Inr (put_ipv4addr t v)
      | TV_SocketAddr v \<Rightarrow> Inr (put_socketaddr t v)
      | TV_X25519PubKey v \<Rightarrow> Inr (put_x25519_pubkey t v)
      | TV_Visa v \<Rightarrow> put_visa enc_visa t v)"

fun put_all :: "('v \<Rightarrow> bytes) \<Rightarrow> 'v TlvEncoding list \<Rightarrow> bytes res" where
  "put_all enc_visa [] = Inr []"
| "put_all enc_visa (e # es) =
     bindR (put enc_visa e) (\<lambda>bs. bindR (put_all enc_visa es) (\<lambda>rest. Inr (bs @ rest)))"

type_synonym 'v tlv_map = "u8 \<Rightarrow> 'v TlvValue list option"

text \<open>\<open>tlv_map.entry(t).or_insert_with(Vec::new).push(v)\<close>\<close>

definition push_value :: "u8 \<Rightarrow> 'v TlvValue \<Rightarrow> 'v tlv_map \<Rightarrow> 'v tlv_map" where
  "push_value t v m = m (t \<mapsto> (case m t of None \<Rightarrow> [] | Some vs \<Rightarrow> vs) @ [v])"

definition parse_address_value :: "bytes \<Rightarrow> u8 \<Rightarrow> (TlvError + ('v TlvValue \<times> bytes)) res" where
  "parse_address_value buf tlv_length =
     (if length buf < unat tlv_length then Inr (Inl BadStructure)
      else if tlv_length = 4 then
        bindR (get_wordR 4 buf) (\<lambda>(v, rest). Inr (Inr (TV_Ipv4Addr v, rest)))
      else if tlv_length = 16 then
        bindR (get_wordR 16 buf) (\<lambda>(v, rest). Inr (Inr (TV_Ipv6Addr v, rest)))
      else Inr (Inl BadStructure))"

text \<open>
  The value of one entry after its type and length were read; \<open>None\<close> for a type
  that is skipped.
\<close>

definition parse_value ::
  "(bytes \<Rightarrow> 'v option) \<Rightarrow> u8 \<Rightarrow> u8 \<Rightarrow> bytes \<Rightarrow> (TlvError + ('v TlvValue option \<times> bytes)) res" where
  "parse_value dec_visa t tlv_length buf =
     (if t = DT_POLICY_ID then
        (if tlv_length \<noteq> 8 then Inr (Inl BadStructure)
         else bindR (get_wordR 8 buf) (\<lambda>(v, rest). Inr (Inr (Some (TV_I64 v), rest))))
      else if t = DT_VERSION then
        bindR (takeR (unat tlv_length) buf) (\<lambda>(strbuf, rest).
          Inr (Inr (Some (TV_Str (from_utf8_lossy strbuf)), rest)))
      else if t = DT_AAA \<or> t = DT_STATIC_ADDR then
        bindR (parse_address_value buf tlv_length) (\<lambda>r.
          Inr (case r of Inl e \<Rightarrow> Inl e | Inr (v, rest) \<Rightarrow> Inr (Some v, rest)))
      else if t = DT_ASA then
        (if tlv_length = 6 then
           bindR (get_wordR 4 buf) (\<lambda>(ip, buf1). bindR (get_wordR 2 buf1) (\<lambda>(port, rest).
             Inr (Inr (Some (TV_SocketAddr (SockV4 ip port)), rest))))
         else if tlv_length = 18 then
           bindR (get_wordR 16 buf) (\<lambda>(ip, buf1). bindR (get_wordR 2 buf1) (\<lambda>(port, rest).
             Inr (Inr (Some (TV_SocketAddr (SockV6 ip port 0 0)), rest))))
         else Inr (Inl BadStructure))
      else if t = DT_A2A_DH_PUBKEY then
        (if tlv_length \<noteq> X25519_KEY_LEN then Inr (Inl BadStructure)
         else bindR (takeR (unat X25519_KEY_LEN) buf) (\<lambda>(key, rest).
           Inr (Inr (Some (TV_X25519PubKey key), rest))))
      else if t = DT_WINDOW_SIZE \<or> t = DT_ACTOR_AUTH_PROTOCOL \<or> t = DT_VS_BOOTSTRAP_LINK then
        (if tlv_length \<noteq> 2 then Inr (Inl BadStructure)
         else bindR (get_wordR 2 buf) (\<lambda>(v, rest). Inr (Inr (Some (TV_U16 v), rest))))
      else if t = DT_BOOTSTRAP_VISA then
        bindR (takeR (unat tlv_length) buf) (\<lambda>(msg_buf, rest).
          Inr (case dec_visa msg_buf of None \<Rightarrow> Inl BadStructure
               | Some v \<Rightarrow> Inr (Some (TV_Visa v), rest)))
      else bindR (takeR (unat tlv_length) buf) (\<lambda>(_, rest). Inr (Inr (None, rest))))"

lemma parse_value_shrinks:
  assumes "parse_value dec_visa t l buf = Inr (Inr (v, rest))"
  shows "length rest \<le> length buf"
  using assms
  by (auto simp: parse_value_def parse_address_value_def get_wordR_def takeR_def bindR_def
      split: if_splits sum.splits prod.splits option.splits)

function parse_from_buf ::
  "(bytes \<Rightarrow> 'v option) \<Rightarrow> 'v tlv_map \<Rightarrow> bytes \<Rightarrow> (TlvError + 'v tlv_map) res" where
  "parse_from_buf dec_visa tlv_map buf =
     (case buf of
        [] \<Rightarrow> Inr (Inr tlv_map)
      | t # buf1 \<Rightarrow>
          if t = DT_NULL then parse_from_buf dec_visa tlv_map buf1
          else (case buf1 of
             [] \<Rightarrow> Inr (Inl BadStructure)
           | tlv_length # buf2 \<Rightarrow>
               if length buf2 < unat tlv_length then Inr (Inl BadStructure)
               else (case parse_value dec_visa t tlv_length buf2 of
                  Inl e \<Rightarrow> Inl e
                | Inr (Inl e) \<Rightarrow> Inr (Inl e)
                | Inr (Inr (v, rest)) \<Rightarrow>
                    parse_from_buf dec_visa
                      (case v of None \<Rightarrow> tlv_map | Some w \<Rightarrow> push_value t w tlv_map) rest)))"
  by pat_completeness auto

termination
  by (relation "measure (\<lambda>(_, _, buf). length buf)")
    (auto dest: parse_value_shrinks)

declare parse_from_buf.simps [simp del]


section \<open>Safety of the parser\<close>

lemma parse_value_returns:
  assumes "unat l \<le> length buf"
  shows "\<exists>r. parse_value dec_visa t l buf = Inr r"
proof -
  have len: "l = 8 \<Longrightarrow> 8 \<le> length buf" "l = 6 \<Longrightarrow> 6 \<le> length buf" "l = 18 \<Longrightarrow> 18 \<le> length buf"
    "l = 32 \<Longrightarrow> 32 \<le> length buf" "l = 2 \<Longrightarrow> 2 \<le> length buf" "l = 4 \<Longrightarrow> 4 \<le> length buf"
    "l = 16 \<Longrightarrow> 16 \<le> length buf"
    using assms by auto
  show ?thesis
    using assms len
    by (auto simp: parse_value_def parse_address_value_def get_wordR_def X25519_KEY_LEN_def)
qed

lemma parse_from_buf_eqs:
  "parse_from_buf dec_visa m [] = Inr (Inr m)"
  "parse_from_buf dec_visa m (DT_NULL # buf) = parse_from_buf dec_visa m buf"
  "t \<noteq> DT_NULL \<Longrightarrow> parse_from_buf dec_visa m [t] = Inr (Inl BadStructure)"
  "t \<noteq> DT_NULL \<Longrightarrow> length buf < unat l \<Longrightarrow>
     parse_from_buf dec_visa m (t # l # buf) = Inr (Inl BadStructure)"
  "t \<noteq> DT_NULL \<Longrightarrow> unat l \<le> length buf \<Longrightarrow>
     parse_from_buf dec_visa m (t # l # buf) =
       bindR (parse_value dec_visa t l buf) (\<lambda>r. case r of Inl e \<Rightarrow> Inr (Inl e)
         | Inr (v, rest) \<Rightarrow> parse_from_buf dec_visa
             (case v of None \<Rightarrow> m | Some w \<Rightarrow> push_value t w m) rest)"
  by (simp_all add: parse_from_buf.simps bindR_def split: sum.split)

lemma parse_from_buf_returns: "\<exists>r. parse_from_buf dec_visa m buf = Inr r"
proof (induction "length buf" arbitrary: m buf rule: less_induct)
  case less
  consider "buf = []" | buf1 where "buf = DT_NULL # buf1" | t where "buf = [t]" "t \<noteq> DT_NULL"
    | t l buf2 where "buf = t # l # buf2" "t \<noteq> DT_NULL"
    by (metis neq_Nil_conv)
  then show ?case
  proof cases
    case (4 t l buf2)
    show ?thesis
    proof (cases "length buf2 < unat l")
      case False
      then obtain r where r: "parse_value dec_visa t l buf2 = Inr r"
        using parse_value_returns [of l buf2 dec_visa t] by auto
      show ?thesis
      proof (cases r)
        case (Inr p)
        obtain v rest where p: "p = (v, rest)" by (cases p)
        have "length rest < length buf"
          using parse_value_shrinks [of dec_visa t l buf2 v rest] r Inr p 4 by simp
        then show ?thesis using less 4 False r Inr p by (simp add: parse_from_buf_eqs)
      qed (use 4 False r in \<open>simp add: parse_from_buf_eqs\<close>)
    qed (use 4 in \<open>simp add: parse_from_buf_eqs\<close>)
  qed (use less in \<open>simp_all add: parse_from_buf_eqs\<close>)
qed

section \<open>Round trip\<close>

text \<open>
  The encodings the program can build: the type fits the value, a string fits
  its length byte, and the visa codec of the environment works for the visa.
\<close>

definition wf_tlv :: "('v \<Rightarrow> bytes) \<Rightarrow> (bytes \<Rightarrow> 'v option) \<Rightarrow> 'v TlvEncoding \<Rightarrow> bool" where
  "wf_tlv enc_visa dec_visa e \<longleftrightarrow>
     (case tlv_value e of
        TV_U16 _ \<Rightarrow> tlv_type e \<in> {DT_WINDOW_SIZE, DT_ACTOR_AUTH_PROTOCOL, DT_VS_BOOTSTRAP_LINK}
      | TV_I64 _ \<Rightarrow> tlv_type e = DT_POLICY_ID
      | TV_Str s \<Rightarrow> tlv_type e = DT_VERSION \<and> is_utf8 s \<and> length s \<le> 255
      | TV_Ipv6Addr _ \<Rightarrow> tlv_type e \<in> {DT_AAA, DT_STATIC_ADDR}
      | TV_Ipv4Addr _ \<Rightarrow> tlv_type e \<in> {DT_AAA, DT_STATIC_ADDR}
      | TV_SocketAddr sa \<Rightarrow> tlv_type e = DT_ASA \<and>
          (case sa of SockV4 _ _ \<Rightarrow> True | SockV6 _ _ flow scope \<Rightarrow> flow = 0 \<and> scope = 0)
      | TV_X25519PubKey k \<Rightarrow> tlv_type e = DT_A2A_DH_PUBKEY \<and> length k = 32
      | TV_Visa v \<Rightarrow> tlv_type e = DT_BOOTSTRAP_VISA \<and> length (enc_visa v) \<le> 255 \<and>
          dec_visa (enc_visa v) = Some v)"

lemma unat_of_nat8: "n \<le> 255 \<Longrightarrow> unat (of_nat n :: u8) = n"
  by (simp add: unat_of_nat take_bit_nat_eq_self)

lemma put_entry:
  assumes "wf_tlv enc_visa dec_visa e"
  obtains l bs where "put enc_visa e = Inr ([tlv_type e, l] @ bs)" "length bs = unat l"
    "tlv_type e \<noteq> DT_NULL"
    "\<And>rest. parse_value dec_visa (tlv_type e) l (bs @ rest) = Inr (Inr (Some (tlv_value e), rest))"
proof (cases "tlv_value e")
  case (TV_U16 v)
  then show thesis
    using assms that [of 2 "put_word 2 v"]
    by (auto simp: wf_tlv_def put_def put_u16_def parse_value_def DataType_defs)
next
  case (TV_I64 v)
  then show thesis
    using assms that [of 8 "put_word 8 v"]
    by (auto simp: wf_tlv_def put_def put_i64_def parse_value_def DataType_defs)
next
  case (TV_Str s)
  then have "is_utf8 s" "length s \<le> 255" "tlv_type e = DT_VERSION"
    using assms by (simp_all add: wf_tlv_def)
  then show thesis
    using TV_Str that [of "of_nat (length s)" s]
    by (simp add: put_def put_str_def parse_value_def DataType_defs unat_of_nat8
        from_utf8_lossy_valid)
next
  case (TV_Ipv6Addr v)
  then show thesis
    using assms that [of 16 "put_word 16 v"]
    by (auto simp: wf_tlv_def put_def put_ipv6addr_def parse_value_def parse_address_value_def
        DataType_defs)
next
  case (TV_Ipv4Addr v)
  then show thesis
    using assms that [of 4 "put_word 4 v"]
    by (auto simp: wf_tlv_def put_def put_ipv4addr_def parse_value_def parse_address_value_def
        DataType_defs)
next
  case (TV_SocketAddr sa)
  then show thesis
  proof (cases sa)
    case (SockV4 ip port)
    then show thesis
      using assms TV_SocketAddr that [of 6 "put_word 4 ip @ put_word 2 port"]
      by (simp add: wf_tlv_def put_def put_socketaddr_def parse_value_def SOCKADDR_LEN_V4_def
          DataType_defs)
  next
    case (SockV6 ip port fl sc)
    then show thesis
      using assms TV_SocketAddr that [of 18 "put_word 16 ip @ put_word 2 port"]
      by (simp add: wf_tlv_def put_def put_socketaddr_def parse_value_def SOCKADDR_LEN_V6_def
          DataType_defs)
  qed
next
  case (TV_X25519PubKey k)
  then show thesis
    using assms that [of 32 k]
    by (simp add: wf_tlv_def put_def put_x25519_pubkey_def parse_value_def X25519_KEY_LEN_def
        DataType_defs)
next
  case (TV_Visa v)
  then show thesis
    using assms that [of "of_nat (length (enc_visa v))" "enc_visa v"]
    by (simp add: wf_tlv_def put_def put_visa_def parse_value_def Let_def DataType_defs unat_of_nat8)
qed

lemma parse_put:
  assumes "wf_tlv enc_visa dec_visa e" and "put enc_visa e = Inr bs"
  shows "parse_from_buf dec_visa m (bs @ rest) =
    parse_from_buf dec_visa (push_value (tlv_type e) (tlv_value e) m) rest"
proof -
  obtain l vs where p: "put enc_visa e = Inr ([tlv_type e, l] @ vs)" "length vs = unat l"
    "tlv_type e \<noteq> DT_NULL"
    "\<And>rest. parse_value dec_visa (tlv_type e) l (vs @ rest) = Inr (Inr (Some (tlv_value e), rest))"
    using put_entry [OF assms(1)] by blast
  then show ?thesis
    using assms(2) by (auto simp: parse_from_buf_eqs)
qed

lemma parse_put_all:
  assumes "\<forall>e \<in> set es. wf_tlv enc_visa dec_visa e"
  shows "\<exists>bs. put_all enc_visa es = Inr bs \<and>
    parse_from_buf dec_visa m bs =
      Inr (Inr (fold (\<lambda>e. push_value (tlv_type e) (tlv_value e)) es m))"
  using assms
proof (induction es arbitrary: m)
  case Nil
  then show ?case by (simp add: parse_from_buf_eqs)
next
  case (Cons e es)
  have wf: "wf_tlv enc_visa dec_visa e" using Cons.prems by simp
  obtain bs1 where bs1: "put enc_visa e = Inr bs1" using put_entry [OF wf] by blast
  obtain bs where "put_all enc_visa es = Inr bs"
    "parse_from_buf dec_visa (push_value (tlv_type e) (tlv_value e) m) bs =
      Inr (Inr (fold (\<lambda>e. push_value (tlv_type e) (tlv_value e)) es
        (push_value (tlv_type e) (tlv_value e) m)))"
    using Cons.IH [of "push_value (tlv_type e) (tlv_value e) m"] Cons.prems by auto
  then show ?case using bs1 parse_put [OF wf bs1] by simp
qed

section \<open>Properties\<close>

text \<open>C11 (TLV round trip).  What the program encodes, it parses back: for every list of
  encodings it can build, encoding succeeds and parsing the result yields, for
  each type, the values of that type in their order.\<close>

theorem tlv_round_trip:
  assumes "\<forall>e \<in> set es. wf_tlv enc_visa dec_visa e"
  shows "\<exists>bs. put_all enc_visa es = Inr bs \<and>
    parse_from_buf dec_visa Map.empty bs =
      Inr (Inr (\<lambda>t. case map tlv_value (filter (\<lambda>e. tlv_type e = t) es) of
                     [] \<Rightarrow> None | vs \<Rightarrow> Some vs))"
proof -
  have "fold (\<lambda>e. push_value (tlv_type e) (tlv_value e)) es m t =
      (case map tlv_value (filter (\<lambda>e. tlv_type e = t) es) of [] \<Rightarrow> m t
       | vs \<Rightarrow> Some ((case m t of None \<Rightarrow> [] | Some ws \<Rightarrow> ws) @ vs))" for m t
    by (induction es arbitrary: m) (auto simp: push_value_def split: list.split)
  then have "fold (\<lambda>e. push_value (tlv_type e) (tlv_value e)) es Map.empty =
      (\<lambda>t. case map tlv_value (filter (\<lambda>e. tlv_type e = t) es) of [] \<Rightarrow> None | vs \<Rightarrow> Some vs)"
    by (auto simp: fun_eq_iff split: list.split)
  then show ?thesis using parse_put_all [OF assms, of Map.empty] by simp
qed

theorem tlv_round_trip_witness:
  "\<exists>bs. put_all (\<lambda>v. v) [new_window_size 32, new_policy_id (- 5), new_bootstrap_visa [1, 2]] = Inr bs \<and>
    parse_from_buf Some Map.empty bs =
      Inr (Inr (\<lambda>t. case map tlv_value (filter (\<lambda>e. tlv_type e = t)
          [new_window_size 32, new_policy_id (- 5), new_bootstrap_visa [1, 2]]) of
        [] \<Rightarrow> None | vs \<Rightarrow> Some vs))"
  by (rule tlv_round_trip [of _ "\<lambda>v. v" Some])
    (simp add: wf_tlv_def new_window_size_def new_policy_id_def new_bootstrap_visa_def)

text \<open>C27 (the TLV parser is total).  No input makes the parser panic or run forever: on
  every buffer it returns the map or a structure error.\<close>

theorem tlv_parser_total: "\<exists>r. parse_from_buf dec_visa m buf = Inr r"
  by (rule parse_from_buf_returns)

end
