(* ===== verification/Txn_Mgr.thy ===== *)
theory Txn_Mgr
  imports Prelude "HOL-Library.Multiset"
begin

text \<open>
  The transaction manager, \<open>adapter/ph/src/mgmt/txn_mgr.rs\<close>: transaction IDs are
  handed out in sequence and stay reserved while a handle to them lives.  The
  lock makes each operation atomic, so concurrent users are interleavings of
  these operations.  A handle is its transaction ID; the manager outlives its
  handles in the system below (a handle of a dropped manager does nothing).
\<close>

section \<open>The model\<close>

record TxnMgr =
  next_free :: u16
  txn_open :: "u16 \<Rightarrow> nat option"

definition TxnMgr_new :: TxnMgr where
  "TxnMgr_new = \<lparr> next_free = 0, txn_open = Map.empty \<rparr>"

definition try_open_raw :: "TxnMgr \<Rightarrow> u16 option \<times> TxnMgr" where
  "try_open_raw m =
     (case txn_open m (next_free m) of
        None \<Rightarrow> (Some (next_free m),
          m \<lparr> txn_open := (txn_open m) (next_free m \<mapsto> 0), next_free := next_free m + 1 \<rparr>)
      | Some _ \<Rightarrow> (None, m))"

definition txn_get :: "TxnMgr \<Rightarrow> u16 \<Rightarrow> u16 option \<times> TxnMgr" where
  "txn_get m i =
     (case txn_open m i of
        None \<Rightarrow> (None, m)
      | Some refcnt \<Rightarrow> (Some i, m \<lparr> txn_open := (txn_open m) (i \<mapsto> refcnt + 1) \<rparr>))"

definition ref_txn :: "TxnMgr \<Rightarrow> u16 \<Rightarrow> TxnMgr res" where
  "ref_txn m i =
     (case txn_open m i of
        None \<Rightarrow> Inl (Assert_failed ''reference of closed transaction'')
      | Some refcnt \<Rightarrow> Inr (m \<lparr> txn_open := (txn_open m) (i \<mapsto> refcnt + 1) \<rparr>))"

text \<open>The flag of \<open>deref_txn\<close> tells whether waiting calls of \<open>open\<close> are notified.\<close>

definition deref_txn :: "TxnMgr \<Rightarrow> u16 \<Rightarrow> (bool \<times> TxnMgr) res" where
  "deref_txn m i =
     (case txn_open m i of
        None \<Rightarrow> Inl (Assert_failed ''dereference of closed transaction'')
      | Some refcnt \<Rightarrow>
          if refcnt > 0 then Inr (False, m \<lparr> txn_open := (txn_open m) (i \<mapsto> refcnt - 1) \<rparr>)
          else let m1 = m \<lparr> txn_open := (txn_open m) (i := None) \<rparr> in
            Inr (next_free m1 = i, m1))"

section \<open>The handles of a manager\<close>

text \<open>
  The system of a manager and the multiset of live handles: opening or getting a
  handle adds one, cloning adds one of the same ID, dropping removes one.
\<close>

inductive txn_step :: "TxnMgr \<times> u16 multiset \<Rightarrow> TxnMgr \<times> u16 multiset \<Rightarrow> bool" where
  opened: "try_open_raw m = (Some i, m') \<Longrightarrow> txn_step (m, hs) (m', add_mset i hs)"
| full: "try_open_raw m = (None, m') \<Longrightarrow> txn_step (m, hs) (m', hs)"
| got: "txn_get m i = (Some i, m') \<Longrightarrow> txn_step (m, hs) (m', add_mset i hs)"
| got_none: "txn_get m i = (None, m') \<Longrightarrow> txn_step (m, hs) (m', hs)"
| cloned: "i \<in># hs \<Longrightarrow> ref_txn m i = Inr m' \<Longrightarrow> txn_step (m, hs) (m', add_mset i hs)"
| dropped: "i \<in># hs \<Longrightarrow> deref_txn m i = Inr (b, m') \<Longrightarrow> txn_step (m, hs) (m', hs - {#i#})"

inductive txn_reach :: "TxnMgr \<times> u16 multiset \<Rightarrow> bool" where
  init: "txn_reach (TxnMgr_new, {#})"
| step: "txn_reach s \<Longrightarrow> txn_step s s' \<Longrightarrow> txn_reach s'"

text \<open>The reference count of an ID is the number of its handles, the first not counted.\<close>

definition txn_inv :: "TxnMgr \<Rightarrow> u16 multiset \<Rightarrow> bool" where
  "txn_inv m hs \<longleftrightarrow>
     (\<forall>i. count hs i = (case txn_open m i of None \<Rightarrow> 0 | Some refcnt \<Rightarrow> Suc refcnt))"

lemma txn_inv_open:
  "txn_inv m hs \<Longrightarrow> txn_open m i = None \<longleftrightarrow> count hs i = 0"
  "txn_inv m hs \<Longrightarrow> txn_open m i = Some n \<Longrightarrow> count hs i = Suc n"
  by (auto simp: txn_inv_def split: option.splits)

lemma txn_inv_add:
  assumes "txn_inv m hs" and "txn_open m' = (txn_open m) (i \<mapsto> count hs i)"
  shows "txn_inv m' (add_mset i hs)"
  using assms by (auto simp: txn_inv_def)

lemma txn_step_inv:
  assumes "txn_step s s'" and "txn_inv (fst s) (snd s)"
  shows "txn_inv (fst s') (snd s')"
  using assms(1)
proof cases
  case (opened m i m' hs)
  then have "txn_open m' = (txn_open m) (i \<mapsto> count hs i)"
    using txn_inv_open(1) [of m hs i] assms(2)
    by (auto simp: try_open_raw_def split: option.splits)
  then show ?thesis using opened assms(2) txn_inv_add by simp
next
  case (full m m' hs)
  then show ?thesis using assms(2) by (auto simp: try_open_raw_def split: option.splits)
next
  case (got m i m' hs)
  then have "txn_open m' = (txn_open m) (i \<mapsto> count hs i)"
    using txn_inv_open(2) [of m hs i] assms(2)
    by (auto simp: txn_get_def split: option.splits)
  then show ?thesis using got assms(2) txn_inv_add by simp
next
  case (got_none m i m' hs)
  then show ?thesis using assms(2) by (auto simp: txn_get_def split: option.splits)
next
  case (cloned i hs m m')
  then have "txn_open m' = (txn_open m) (i \<mapsto> count hs i)"
    using txn_inv_open(2) [of m hs i] assms(2)
    by (auto simp: ref_txn_def split: option.splits)
  then show ?thesis using cloned assms(2) txn_inv_add by simp
next
  case (dropped i hs m b m')
  then show ?thesis
    using assms(2)
    by (auto simp: txn_inv_def deref_txn_def Let_def split: option.splits if_splits)
qed

lemma txn_reach_inv: "txn_reach s \<Longrightarrow> txn_inv (fst s) (snd s)"
proof (induction rule: txn_reach.induct)
  case init
  then show ?case by (simp add: txn_inv_def TxnMgr_new_def)
qed (rule txn_step_inv)

section \<open>The contract for the users of transactions\<close>

text \<open>
  What the tables keyed by handles rely on, for a manager in the state \<open>m\<close> with the
  live handles \<open>hs\<close>: a new transaction differs from all live ones, a live one can
  be looked up and cloned, and every live handle can be dropped.
\<close>

fun drop_handles :: "('m \<Rightarrow> 'h \<Rightarrow> (bool \<times> 'm) res) \<Rightarrow> 'm \<Rightarrow> 'h list \<Rightarrow> 'm res" where
  "drop_handles deref m [] = Inr m"
| "drop_handles deref m (i # is) = bindR (deref m i) (\<lambda>(_, m'). drop_handles deref m' is)"

locale handle_registry =
  fixes inv :: "'m \<Rightarrow> 'h multiset \<Rightarrow> bool"
    and opn :: "'m \<Rightarrow> 'h option \<times> 'm"
    and get :: "'m \<Rightarrow> 'h \<Rightarrow> 'h option \<times> 'm"
    and ref :: "'m \<Rightarrow> 'h \<Rightarrow> 'm res"
    and deref :: "'m \<Rightarrow> 'h \<Rightarrow> (bool \<times> 'm) res"
  assumes open_law: "inv m hs \<Longrightarrow> opn m = (Some i, m') \<Longrightarrow> i \<notin># hs \<and> inv m' (add_mset i hs)"
    and open_full: "inv m hs \<Longrightarrow> opn m = (None, m') \<Longrightarrow> inv m' hs"
    and get_law: "inv m hs \<Longrightarrow> i \<in># hs \<Longrightarrow> \<exists>m'. get m i = (Some i, m') \<and> inv m' (add_mset i hs)"
    and get_closed: "inv m hs \<Longrightarrow> i \<notin># hs \<Longrightarrow> get m i = (None, m)"
    and ref_law: "inv m hs \<Longrightarrow> i \<in># hs \<Longrightarrow> \<exists>m'. ref m i = Inr m' \<and> inv m' (add_mset i hs)"
    and deref_law: "inv m hs \<Longrightarrow> i \<in># hs \<Longrightarrow> \<exists>b m'. deref m i = Inr (b, m') \<and> inv m' (hs - {#i#})"
begin

lemma deref_one:
  assumes "inv m (add_mset i hs)"
  obtains b m' where "deref m i = Inr (b, m')" and "inv m' hs"
  using deref_law [OF assms, of i] by auto

lemma drop_list:
  assumes "inv m (mset is + hs)"
  shows "\<exists>m'. drop_handles deref m is = Inr m' \<and> inv m' hs"
  using assms
proof (induction "is" arbitrary: m)
  case (Cons i "is")
  then obtain b m' where "deref m i = Inr (b, m')" and "inv m' (mset is + hs)"
    using deref_one [of m i "mset is + hs"] by auto
  then show ?case using Cons.IH [of m'] by simp
qed simp

lemma open_twice:
  assumes "inv m hs" and "opn m = (Some i, m1)"
  obtains m2 where "ref m1 i = Inr m2" and "inv m2 (add_mset i (add_mset i hs))"
  using open_law [OF assms] ref_law [of m1 "add_mset i hs" i] by auto

end

interpretation txns: handle_registry txn_inv try_open_raw txn_get ref_txn deref_txn
proof
  fix m hs i m'
  assume inv: "txn_inv m hs"
  have open_iff: "txn_open m j = None \<longleftrightarrow> j \<notin># hs" for j
    using txn_inv_open(1) [OF inv, of j] by (simp add: count_eq_zero_iff)
  have live: "\<exists>n. txn_open m j = Some n" if "j \<in># hs" for j
    using open_iff [of j] that by blast
  have kept: "txn_step (m, hs) (m1, hs1) \<Longrightarrow> txn_inv m1 hs1" for m1 hs1
    using txn_step_inv [of "(m, hs)" "(m1, hs1)"] inv by simp
  show "i \<notin># hs \<and> txn_inv m' (add_mset i hs)" if o: "try_open_raw m = (Some i, m')"
  proof
    show "i \<notin># hs" using o open_iff [of i] by (auto simp: try_open_raw_def split: option.splits)
    show "txn_inv m' (add_mset i hs)" by (rule kept) (rule txn_step.opened [OF o])
  qed
  show "txn_inv m' hs" if "try_open_raw m = (None, m')"
    by (rule kept) (rule txn_step.full [OF that])
  show "txn_get m i = (None, m)" if "i \<notin># hs"
    using that open_iff [of i] by (simp add: txn_get_def)
  show "\<exists>m'. txn_get m i = (Some i, m') \<and> txn_inv m' (add_mset i hs)" if i: "i \<in># hs"
  proof -
    obtain m1 where g: "txn_get m i = (Some i, m1)"
      using live [OF i] by (auto simp: txn_get_def)
    then show ?thesis using kept [OF txn_step.got [OF g]] by simp
  qed
  show "\<exists>m'. ref_txn m i = Inr m' \<and> txn_inv m' (add_mset i hs)" if i: "i \<in># hs"
  proof -
    obtain m1 where g: "ref_txn m i = Inr m1"
      using live [OF i] by (auto simp: ref_txn_def)
    then show ?thesis using kept [OF txn_step.cloned [OF i g]] by simp
  qed
  show "\<exists>b m'. deref_txn m i = Inr (b, m') \<and> txn_inv m' (hs - {#i#})" if i: "i \<in># hs"
  proof -
    obtain n where "txn_open m i = Some n" using live [OF i] by blast
    then have "\<exists>b m1. deref_txn m i = Inr (b, m1)"
      by (cases n) (auto simp: deref_txn_def Let_def)
    then obtain b m1 where g: "deref_txn m i = Inr (b, m1)" by blast
    then show ?thesis using kept [OF txn_step.dropped [OF i g]] by blast
  qed
qed

section \<open>Properties\<close>

text \<open>C24 (transaction IDs are exclusive).  However handles are opened, looked up, cloned and
  dropped: an ID is marked open exactly while a handle to it lives, a newly opened
  transaction gets an ID no live handle has, and looking up an ID succeeds
  exactly while it is live.\<close>

theorem txn_ids_exclusive:
  assumes "txn_reach (m, hs)"
  shows "(txn_open m i \<noteq> None \<longleftrightarrow> i \<in># hs) \<and>
    (try_open_raw m = (Some j, m') \<longrightarrow> j \<notin># hs) \<and>
    (fst (txn_get m i) \<noteq> None \<longleftrightarrow> i \<in># hs)"
proof -
  have inv: "txn_inv m hs" using txn_reach_inv [OF assms] by simp
  have o: "txn_open m i \<noteq> None \<longleftrightarrow> i \<in># hs" for i
    using txn_inv_open(1) [OF inv, of i] by (simp add: count_eq_zero_iff)
  show ?thesis
    using o [of i] o [of "next_free m"]
    by (cases "txn_open m i"; cases "txn_open m (next_free m)")
      (auto simp: try_open_raw_def txn_get_def)
qed

definition txn_one :: TxnMgr where
  "txn_one = snd (try_open_raw TxnMgr_new)"

lemma txn_one_reach: "txn_reach (txn_one, {#0#})"
proof -
  have "txn_step (TxnMgr_new, {#}) (txn_one, {#0#})"
    by (rule txn_step.opened) (simp add: txn_one_def try_open_raw_def TxnMgr_new_def)
  then show ?thesis by (rule txn_reach.step [OF txn_reach.init])
qed

theorem txn_ids_exclusive_witness:
  "(txn_open txn_one 0 \<noteq> None \<longleftrightarrow> (0::u16) \<in># {#0#}) \<and> fst (try_open_raw txn_one) = Some 1"
  using txn_ids_exclusive [OF txn_one_reach, of 0 0 txn_one]
  by (simp add: try_open_raw_def txn_one_def TxnMgr_new_def)

text \<open>Cloning or dropping a live handle never panics, and
  dropping the last handle of an ID, and only the last, frees the ID.\<close>

theorem txn_handles_safe:
  assumes "txn_reach (m, hs)" and "i \<in># hs"
  shows "(\<exists>m'. ref_txn m i = Inr m') \<and>
    (\<exists>b m'. deref_txn m i = Inr (b, m') \<and> (txn_open m' i = None \<longleftrightarrow> count hs i = 1))"
proof -
  have inv: "txn_inv m hs" using txn_reach_inv [OF assms(1)] by simp
  obtain n where n: "txn_open m i = Some n" "count hs i = Suc n"
    using txn_inv_open [OF inv, of i] assms(2) by (cases "txn_open m i") (auto simp: count_eq_zero_iff)
  then show ?thesis by (cases n) (auto simp: ref_txn_def deref_txn_def Let_def)
qed

theorem txn_handles_safe_witness: "\<exists>m'. ref_txn txn_one 0 = Inr m'"
  using txn_handles_safe [OF txn_one_reach, of 0] by simp

text \<open>C25 (no lost wake-up).  Whenever dropping a handle turns a situation in which no
  transaction can be opened into one in which one can, the waiting calls of
  \<open>open\<close> are notified.\<close>

theorem txn_no_lost_wakeup:
  assumes "deref_txn m i = Inr (notified, m')"
    and "fst (try_open_raw m) = None" and "fst (try_open_raw m') \<noteq> None"
  shows "notified"
  using assms
  by (auto simp: deref_txn_def try_open_raw_def Let_def split: option.splits if_splits)

definition txn_full :: TxnMgr where
  "txn_full = \<lparr> next_free = 5, txn_open = [5 \<mapsto> 0] \<rparr>"

theorem txn_no_lost_wakeup_witness:
  "\<exists>notified m'. deref_txn txn_full 5 = Inr (notified, m') \<and> notified"
proof -
  obtain notified m' where d: "deref_txn txn_full 5 = Inr (notified, m')"
    by (simp add: deref_txn_def txn_full_def)
  have "fst (try_open_raw txn_full) = None" "fst (try_open_raw m') \<noteq> None"
    using d by (auto simp: deref_txn_def try_open_raw_def txn_full_def Let_def)
  then show ?thesis using d txn_no_lost_wakeup [OF d] by blast
qed

end
