(* ===== verification/Address_Pool.thy ===== *)
theory Address_Pool
  imports Bytes
begin

text \<open>
  The pool of temporary authentication addresses, \<open>adapter/ph/src/address_pool.rs\<close>.
  A network is its eight segments and its prefix length; the random start of the
  search is an argument.  \<open>IpAddress\<close> belongs to the \<open>zpr-utils\<close> crate: \<open>to_ip\<close> and
  \<open>ip_v6\<close> stand for \<open>new_from_std_v6\<close> and the field \<open>v6\<close>, of which the code relies on
  \<open>ip_v6 (to_ip octets) = octets\<close>.
\<close>

definition MAX_AAA_ID :: u64 where
  "MAX_AAA_ID = 0xffffffffff"

datatype AddressPoolError = InvalidAddress | InvalidPrefixLength

record Ipv6Net =
  net_segments :: "u16 list"
  net_prefix_len :: nat

record AddressPool =
  ipnet :: Ipv6Net
  active :: "u64 set"

definition AddressPool_new :: "Ipv6Net \<Rightarrow> AddressPoolError + AddressPool" where
  "AddressPool_new aaa_net =
     (if net_prefix_len aaa_net > 88 then Inl InvalidPrefixLength
      else Inr \<lparr> ipnet = aaa_net, active = {} \<rparr>)"

text \<open>The loop that looks for an unused ID.\<close>

partial_function (option) find_id :: "u64 set \<Rightarrow> u64 \<Rightarrow> u64 option" where
  "find_id used this_id =
     (if this_id \<notin> used then Some this_id
      else find_id used ((this_id + 1) mod MAX_AAA_ID))"

declare find_id.simps [code]

definition aaa_segments :: "u16 list \<Rightarrow> u64 \<Rightarrow> u16 list" where
  "aaa_segments base this_id =
     take 5 base @
     [(base ! 5 AND 0xFF00) OR ucast (drop_bit 32 this_id AND 0xff),
      ucast (drop_bit 16 this_id), ucast (this_id AND 0xFFFF)]"

definition octets :: "u16 list \<Rightarrow> bytes" where
  "octets segs = concat (map (put_word 2) segs)"

definition get_aaa_address ::
  "(bytes \<Rightarrow> 'ip) \<Rightarrow> AddressPool \<Rightarrow> u64 \<Rightarrow> ('ip \<times> AddressPool) option" where
  "get_aaa_address to_ip pool random =
     (case find_id (active pool) (random AND MAX_AAA_ID) of
        None \<Rightarrow> None
      | Some this_id \<Rightarrow>
          Some (to_ip (octets (aaa_segments (net_segments (ipnet pool)) this_id)),
                pool \<lparr> active := insert this_id (active pool) \<rparr>))"

definition release_address ::
  "('ip \<Rightarrow> bytes) \<Rightarrow> AddressPool \<Rightarrow> 'ip \<Rightarrow> AddressPoolError + AddressPool" where
  "release_address ip_v6 pool address =
     (let v6 = ip_v6 address in
      if v6 ! 6 \<noteq> 0x0a \<or> v6 ! 7 \<noteq> 0xaa then Inl InvalidAddress
      else let i = get_word [0, 0, 0, v6 ! 11, v6 ! 12, v6 ! 13, v6 ! 14, v6 ! 15] in
        Inr (pool \<lparr> active := active pool - {i} \<rparr>))"

section \<open>The search ends\<close>

lemma MAX_AAA_ID_unat [simp]: "unat MAX_AAA_ID = 2 ^ 40 - 1"
  by (simp add: MAX_AAA_ID_def)

lemma next_id_unat:
  assumes "unat i \<le> 2 ^ 40 - 1"
  shows "unat ((i + 1) mod MAX_AAA_ID) = Suc (unat i) mod (2 ^ 40 - 1)"
proof -
  have "unat (i + 1) = Suc (unat i)"
  proof -
    have "i + 1 = of_nat (Suc (unat i))" by simp
    moreover have "Suc (unat i) < 2 ^ 64" using assms by simp
    ultimately show ?thesis by (metis unat_of_nat64)
  qed
  then show ?thesis by (simp add: unat_mod)
qed

lemma find_id_reaches:
  assumes "unat i < 2 ^ 40 - 1" and "(unat i + d) mod (2 ^ 40 - 1) = unat f" and "f \<notin> used"
  shows "\<exists>k. find_id used i = Some k \<and> k \<notin> used \<and> k \<le> MAX_AAA_ID"
  using assms
proof (induction d arbitrary: i)
  case 0
  then have "unat i = unat f" by simp
  then have "i = f" by (simp only: word_unat_eq_iff)
  moreover have "i \<le> MAX_AAA_ID" using "0.prems"(1) by (simp add: word_le_nat_alt)
  ultimately show ?case using "0.prems"(3) by (simp add: find_id.simps [of used f])
next
  case (Suc d)
  show ?case
  proof (cases "i \<in> used")
    case True
    let ?n = "(i + 1) mod MAX_AAA_ID"
    have n: "unat ?n = Suc (unat i) mod (2 ^ 40 - 1)"
      using Suc.prems(1) by (intro next_id_unat) linarith
    have "(unat ?n + d) mod (2 ^ 40 - 1) = (unat i + Suc d) mod (2 ^ 40 - 1)"
      unfolding n by (simp add: mod_add_left_eq)
    then show ?thesis
      using Suc.IH [of ?n] Suc.prems n True by (simp add: find_id.simps [of used i])
  next
    case False
    moreover have "i \<le> MAX_AAA_ID" using Suc.prems(1) by (simp add: word_le_nat_alt)
    ultimately show ?thesis by (simp add: find_id.simps [of used i])
  qed
qed

lemma find_id_ends:
  assumes "i \<le> MAX_AAA_ID" and "f < MAX_AAA_ID" and "f \<notin> used"
  shows "\<exists>k. find_id used i = Some k \<and> k \<notin> used \<and> k \<le> MAX_AAA_ID"
proof -
  have f: "unat f < 2 ^ 40 - 1" using assms(2) by (simp add: word_less_nat_alt)
  have reach: "\<exists>k. find_id used j = Some k \<and> k \<notin> used \<and> k \<le> MAX_AAA_ID"
    if j: "unat j < 2 ^ 40 - 1" for j
  proof (rule find_id_reaches [OF j _ assms(3)])
    show "(unat j + (unat f + (2 ^ 40 - 1) - unat j)) mod (2 ^ 40 - 1) = unat f"
      using f j by simp
  qed
  show ?thesis
  proof (cases "i \<in> used")
    case True
    have "unat i \<le> 2 ^ 40 - 1" using assms(1) by (simp add: word_le_nat_alt)
    then have "unat ((i + 1) mod MAX_AAA_ID) < 2 ^ 40 - 1" by (simp add: next_id_unat)
    then show ?thesis using reach True by (simp add: find_id.simps [of used i])
  next
    case False
    then show ?thesis using assms(1) by (simp add: find_id.simps [of used i])
  qed
qed

section \<open>Addresses and identifiers\<close>

lemma masks: "(0xFF00 :: u16) = NOT (mask 8)" "(0xff :: u64) = mask 8" "(0xFFFF :: u64) = mask 16"
  by (simp_all add: mask_eq_exp_minus_1)

lemma put_word_2: "put_word 2 (w :: u16) = [ucast (drop_bit 8 w), ucast w]"
proof -
  have "unat w < 65536" using unsigned_less [of w] by simp
  then have "(of_nat (unat w div 256 mod 256) :: u8) = ucast (drop_bit 8 w)"
    and "(of_nat (unat w mod 256) :: u8) = ucast w"
    by (simp_all add: word_unat_eq_iff unat_of_nat unsigned_ucast_eq
        take_bit_eq_mod drop_bit_eq_div unat_div)
  then show ?thesis by (simp add: put_word_def numeral_2_eq_2)
qed

lemma seg5_bytes:
  fixes b :: u16 and i :: u64
  defines "s \<equiv> (b AND 0xFF00) OR ucast (drop_bit 32 i AND 0xff)"
  shows "(ucast (drop_bit 8 s) :: u8) = ucast (drop_bit 8 b)"
    and "(ucast s :: u8) = ucast (drop_bit 32 i)"
  unfolding s_def masks
  by (auto intro!: bit_eqI simp: bit_simps)

lemma aaa_octets:
  assumes "length base = 8"
  shows "octets (aaa_segments base i) = take 11 (octets base) @
    [ucast (drop_bit 32 i), ucast (drop_bit 24 i), ucast (drop_bit 16 i),
     ucast (drop_bit 8 i), ucast i]"
proof -
  obtain b0 b1 b2 b3 b4 b5 b6 b7 where b: "base = [b0, b1, b2, b3, b4, b5, b6, b7]"
    using assms by (auto simp: length_Suc_conv numeral_eq_Suc)
  have "(ucast (drop_bit 8 (ucast (drop_bit 16 i) :: u16)) :: u8) = ucast (drop_bit 24 i)"
    "(ucast (ucast (drop_bit 16 i) :: u16) :: u8) = ucast (drop_bit 16 i)"
    "(ucast (drop_bit 8 (ucast (i AND 0xFFFF) :: u16)) :: u8) = ucast (drop_bit 8 i)"
    "(ucast (ucast (i AND 0xFFFF) :: u16) :: u8) = ucast i"
    unfolding masks by (auto intro!: bit_eqI simp: bit_simps add.commute)
  then show ?thesis
    using seg5_bytes [of b5 i] by (simp add: b octets_def aaa_segments_def put_word_2)
qed

definition aaa_id :: "bytes \<Rightarrow> u64" where
  "aaa_id v6 = get_word [0, 0, 0, v6 ! 11, v6 ! 12, v6 ! 13, v6 ! 14, v6 ! 15]"

lemma byte_of_nat: "(of_nat (unat (i :: u64) div 2 ^ k mod 256) :: u8) = ucast (drop_bit k i)"
  by (simp add: word_unat_eq_iff unat_of_nat unsigned_ucast_eq take_bit_eq_mod unat_drop_bit_eq
      drop_bit_eq_div [where 'a = nat])

lemma length_octets [simp]: "length (octets base) = 2 * length base"
  by (induction base) (simp_all add: octets_def)

lemma be_enc_5:
  "be_enc 5 (unat (i :: u64)) = [ucast (drop_bit 32 i), ucast (drop_bit 24 i),
     ucast (drop_bit 16 i), ucast (drop_bit 8 i), ucast i]"
proof -
  have five: "(5 :: nat) = Suc (Suc (Suc (Suc (Suc 0))))" by simp
  have "be_enc 5 v =
      [of_nat (v div 2 ^ 32 mod 256), of_nat (v div 2 ^ 24 mod 256), of_nat (v div 2 ^ 16 mod 256),
       of_nat (v div 2 ^ 8 mod 256), of_nat (v div 2 ^ 0 mod 256)]" for v
    unfolding five by (simp add: div_mult2_eq [symmetric])
  then have "be_enc 5 (unat i) = [ucast (drop_bit 32 i), ucast (drop_bit 24 i),
     ucast (drop_bit 16 i), ucast (drop_bit 8 i), ucast (drop_bit 0 i)]"
    unfolding byte_of_nat [symmetric] .
  then show ?thesis by simp
qed

lemma be_dec_zeros: "be_dec (0 # bs) = be_dec bs"
  by (simp add: be_dec_def)

lemma aaa_id_of_octets:
  assumes "length base = 8" and "i \<le> MAX_AAA_ID"
  shows "aaa_id (octets (aaa_segments base i)) = i"
proof -
  have "aaa_id (octets (aaa_segments base i)) = get_word (0 # 0 # 0 # be_enc 5 (unat i))"
    unfolding aaa_id_def be_enc_5 aaa_octets [OF assms(1)]
    using assms(1) by (simp add: nth_append)
  moreover have "be_dec (be_enc 5 (unat i)) = unat i"
    using assms(2) by (intro be_dec_enc) (simp add: word_le_nat_alt)
  ultimately show ?thesis by (simp add: get_word_def be_dec_zeros)
qed

lemma prefix_octets:
  assumes "length base = 8"
  shows "octets (aaa_segments base i) ! 6 = ucast (drop_bit 8 (base ! 3))"
    and "octets (aaa_segments base i) ! 7 = ucast (base ! 3)"
proof -
  obtain b0 b1 b2 b3 b4 b5 b6 b7 where b: "base = [b0, b1, b2, b3, b4, b5, b6, b7]"
    using assms by (auto simp: length_Suc_conv numeral_eq_Suc)
  show "octets (aaa_segments base i) ! 6 = ucast (drop_bit 8 (base ! 3))"
    and "octets (aaa_segments base i) ! 7 = ucast (base ! 3)"
    by (simp_all add: b octets_def aaa_segments_def put_word_2)
qed

lemma get_aaa_address_result:
  assumes "f < MAX_AAA_ID" and "f \<notin> active pool"
  obtains k where "k \<notin> active pool" and "k \<le> MAX_AAA_ID"
    and "get_aaa_address to_ip pool r =
      Some (to_ip (octets (aaa_segments (net_segments (ipnet pool)) k)),
            pool \<lparr> active := insert k (active pool) \<rparr>)"
proof -
  have "r AND MAX_AAA_ID \<le> MAX_AAA_ID" by (simp add: word_and_le1)
  from find_id_ends [OF this assms] show ?thesis
    using that by (auto simp: get_aaa_address_def)
qed

section \<open>The properties\<close>

text \<open>C30 (fresh addresses): as long as one of the IDs below \<open>MAX_AAA_ID\<close> is free the
  search of \<open>get_aaa_address\<close> returns, for every random start, with an address of the
  pool's network whose 40-bit ID no active address has, and the pool then records
  exactly that ID in addition.\<close>

theorem aaa_address_fresh:
  assumes "length (net_segments (ipnet pool)) = 8"
    and "f < MAX_AAA_ID" and "f \<notin> active pool"
    and ip: "\<And>o'. length o' = 16 \<Longrightarrow> ip_v6 (to_ip o') = o'"
  shows "\<exists>a pool'. get_aaa_address to_ip pool r = Some (a, pool')
    \<and> take 11 (ip_v6 a) = take 11 (octets (net_segments (ipnet pool)))
    \<and> aaa_id (ip_v6 a) \<notin> active pool
    \<and> pool' = pool \<lparr> active := insert (aaa_id (ip_v6 a)) (active pool) \<rparr>"
proof -
  let ?base = "net_segments (ipnet pool)"
  obtain k where k: "k \<notin> active pool" "k \<le> MAX_AAA_ID"
    and get: "get_aaa_address to_ip pool r =
      Some (to_ip (octets (aaa_segments ?base k)), pool \<lparr> active := insert k (active pool) \<rparr>)"
    using get_aaa_address_result [OF assms(2,3)] .
  have len: "length (octets (aaa_segments ?base k)) = 16"
    by (simp add: aaa_segments_def assms(1))
  have "take 11 (octets (aaa_segments ?base k)) = take 11 (octets ?base)"
    by (simp add: aaa_octets [OF assms(1)] assms(1))
  moreover have "aaa_id (octets (aaa_segments ?base k)) = k"
    by (rule aaa_id_of_octets [OF assms(1) k(2)])
  ultimately show ?thesis using k get ip [OF len] by auto
qed

definition demo_net :: Ipv6Net where
  "demo_net = \<lparr> net_segments = [0xfd5a, 0x5052, 0, 0x0aaa, 0x1234, 0x5600, 0, 0], net_prefix_len = 88 \<rparr>"

theorem aaa_address_fresh_witness:
  "\<exists>a pool'. get_aaa_address id \<lparr> ipnet = demo_net, active = {5} \<rparr> 5 = Some (a, pool')
    \<and> take 11 (id a) = take 11 (octets (net_segments demo_net)) \<and> aaa_id (id a) \<noteq> 5
    \<and> pool' = \<lparr> ipnet = demo_net, active = {aaa_id (id a), 5} \<rparr>"
  using aaa_address_fresh [of "\<lparr> ipnet = demo_net, active = {5} \<rparr>" 3 id id 5]
  by (simp add: demo_net_def MAX_AAA_ID_def)

text \<open>C31 (addresses come back): in a network with the AAA segment \<open>0aaa\<close>, releasing the
  address the pool has just handed out succeeds and restores the pool.\<close>

theorem aaa_address_released:
  assumes "length (net_segments (ipnet pool)) = 8" and "net_segments (ipnet pool) ! 3 = 0x0aaa"
    and "f < MAX_AAA_ID" and "f \<notin> active pool"
    and ip: "\<And>o'. length o' = 16 \<Longrightarrow> ip_v6 (to_ip o') = o'"
  shows "\<exists>a pool'. get_aaa_address to_ip pool r = Some (a, pool')
    \<and> release_address ip_v6 pool' a = Inr pool"
proof -
  let ?base = "net_segments (ipnet pool)"
  obtain k where k: "k \<notin> active pool" "k \<le> MAX_AAA_ID"
    and get: "get_aaa_address to_ip pool r =
      Some (to_ip (octets (aaa_segments ?base k)), pool \<lparr> active := insert k (active pool) \<rparr>)"
    using get_aaa_address_result [OF assms(3,4)] .
  let ?o = "octets (aaa_segments ?base k)"
  have "ip_v6 (to_ip ?o) = ?o"
    by (rule ip) (simp add: aaa_segments_def assms(1))
  moreover have "?o ! 6 = 0x0a" and "?o ! 7 = 0xaa"
    by (simp_all add: prefix_octets [OF assms(1)] assms(2))
  moreover have "aaa_id ?o = k" by (rule aaa_id_of_octets [OF assms(1) k(2)])
  ultimately have "release_address ip_v6 (pool \<lparr> active := insert k (active pool) \<rparr>) (to_ip ?o)
      = Inr pool"
    using k(1) by (simp add: release_address_def aaa_id_def [symmetric])
  then show ?thesis using get by blast
qed

theorem aaa_address_released_witness:
  "\<exists>a pool'. get_aaa_address id \<lparr> ipnet = demo_net, active = {5} \<rparr> 5 = Some (a, pool')
    \<and> release_address id pool' a = Inr \<lparr> ipnet = demo_net, active = {5} \<rparr>"
  using aaa_address_released [of "\<lparr> ipnet = demo_net, active = {5} \<rparr>" 3 id id 5]
  by (simp add: demo_net_def MAX_AAA_ID_def)

text \<open>Addresses that never come back: the pool accepts every network of at most 88
  prefix bits, but in one whose fourth segment is not \<open>0aaa\<close> the release of each address
  it hands out is refused, so that its ID stays active.\<close>

theorem aaa_address_stuck:
  assumes "AddressPool_new net = Inr pool0" and "length (net_segments net) = 8"
    and "net_segments net ! 3 \<noteq> 0x0aaa" and "ipnet pool = net"
    and ip: "\<And>o'. length o' = 16 \<Longrightarrow> ip_v6 (to_ip o') = o'"
    and "get_aaa_address to_ip pool r = Some (a, pool')"
  shows "release_address ip_v6 pool' a = Inl InvalidAddress"
proof -
  let ?base = "net_segments (ipnet pool)"
  have base: "length ?base = 8" using assms(2,4) by simp
  obtain k where a: "a = to_ip (octets (aaa_segments ?base k))"
    using assms(6) by (auto simp: get_aaa_address_def split: option.splits)
  have "ip_v6 a = octets (aaa_segments ?base k)"
    unfolding a by (rule ip) (simp add: aaa_segments_def base)
  moreover have "w = 0x0aaa" if hi: "(ucast (drop_bit 8 w) :: u8) = 0x0a" and lo: "(ucast w :: u8) = 0xaa"
    for w :: u16
  proof -
    have "put_word 2 w = put_word 2 (0x0aaa :: u16)" unfolding put_word_2 hi lo by simp
    then have "(get_word (put_word 2 w) :: u16) = get_word (put_word 2 (0x0aaa :: u16))" by simp
    then show ?thesis by (simp add: get_put_word)
  qed
  ultimately show ?thesis
    using assms(3,4) unfolding release_address_def Let_def
    by (metis prefix_octets [OF base])
qed

definition plain_net :: Ipv6Net where
  "plain_net = \<lparr> net_segments = [0xfd5a, 0x5052, 0, 0, 0, 0, 0, 0], net_prefix_len = 64 \<rparr>"

theorem aaa_address_stuck_witness:
  "release_address id \<lparr> ipnet = plain_net, active = {7} \<rparr> (octets (aaa_segments (net_segments plain_net) 7))
     = Inl InvalidAddress"
  by (rule aaa_address_stuck [of plain_net "\<lparr> ipnet = plain_net, active = {} \<rparr>"
        "\<lparr> ipnet = plain_net, active = {} \<rparr>" id id 7])
    (simp_all add: AddressPool_new_def plain_net_def get_aaa_address_def find_id.simps MAX_AAA_ID_def)

end
