(* ===== verification/Tc.thy ===== *)
theory Tc
  imports Bytes
begin

unbundle bit_operations_syntax

text \<open>
  Five-tuples (\<open>adapter/ph/src/defs.rs\<close>) and the IP 5-tuple traffic classifier
  (\<open>adapter/ph/src/tc.rs\<close>) with its wire format.  Addresses are the \<open>IpAddress\<close> of the
  \<open>zpr-utils\<close> crate, given by the operations the code uses of them.
\<close>

section \<open>Five-tuples\<close>

datatype L3Type = Ipv4 | Ipv6 | L3_other u8

record 'ip FiveTuple =
  src_address :: 'ip
  dst_address :: 'ip
  l3_type :: L3Type
  l4_protocol :: u8
  src_port :: u16
  dst_port :: u16

definition reverse :: "'ip FiveTuple \<Rightarrow> 'ip FiveTuple" where
  "reverse ft = \<lparr> src_address = dst_address ft, dst_address = src_address ft, l3_type = l3_type ft,
     l4_protocol = l4_protocol ft, src_port = dst_port ft, dst_port = src_port ft \<rparr>"

record 'ip ip_ops =
  read_as_v4 :: "'ip \<Rightarrow> bytes"
  v6 :: "'ip \<Rightarrow> bytes"
  from_v4 :: "bytes \<Rightarrow> 'ip"
  from_v6 :: "bytes \<Rightarrow> 'ip"

section \<open>The classifier\<close>

type_synonym 'ip Ip5TupleTc = "'ip FiveTuple"

definition TCF_DESTINATION_PORT_PRESENT :: u8 where "TCF_DESTINATION_PORT_PRESENT = 0x01"
definition TCF_SOURCE_PORT_PRESENT :: u8 where "TCF_SOURCE_PORT_PRESENT = 0x02"
definition TCF_IPV4 :: u8 where "TCF_IPV4 = 0x04"

text \<open>The two flags of the compression mode are constants of the \<open>zpr\<close> crate.\<close>

definition compression_mode :: "u8 \<Rightarrow> u8 \<Rightarrow> 'ip Ip5TupleTc \<Rightarrow> u8" where
  "compression_mode src_present dst_present tc =
     (let mode = 0;
          mode = (if src_port tc \<noteq> 0 then mode OR src_present else mode)
      in if dst_port tc \<noteq> 0 then mode OR dst_present else mode)"

definition serialize :: "'ip ip_ops \<Rightarrow> 'ip Ip5TupleTc \<Rightarrow> bytes res" where
  "serialize ops tc =
     bindR (case l3_type tc of
              Ipv4 \<Rightarrow> Inr TCF_IPV4
            | Ipv6 \<Rightarrow> Inr 0
            | L3_other _ \<Rightarrow> Inl (Assert_failed ''must be IPv4 or IPv6''))
       (\<lambda>flags0.
        let flags1 = (if src_port tc \<noteq> 0 then flags0 OR TCF_SOURCE_PORT_PRESENT else flags0);
            flags = (if dst_port tc \<noteq> 0 then flags1 OR TCF_DESTINATION_PORT_PRESENT else flags1)
        in bindR (case l3_type tc of
                    Ipv4 \<Rightarrow> Inr (read_as_v4 ops (src_address tc) @ read_as_v4 ops (dst_address tc))
                  | Ipv6 \<Rightarrow> Inr (v6 ops (src_address tc) @ v6 ops (dst_address tc))
                  | L3_other _ \<Rightarrow> Inl (Assert_failed ''must be IPv4 or IPv6''))
             (\<lambda>addrs. Inr ([flags, l4_protocol tc] @ addrs
                @ (if src_port tc \<noteq> 0 then put_word 2 (src_port tc) else [])
                @ (if dst_port tc \<noteq> 0 then put_word 2 (dst_port tc) else []))))"

definition buf_get_ipv4 :: "'ip ip_ops \<Rightarrow> bytes \<Rightarrow> ('ip \<times> bytes) res" where
  "buf_get_ipv4 ops buf = bindR (takeR 4 buf) (\<lambda>(bs, rest). Inr (from_v4 ops bs, rest))"

definition buf_get_ipv6 :: "'ip ip_ops \<Rightarrow> bytes \<Rightarrow> ('ip \<times> bytes) res" where
  "buf_get_ipv6 ops buf = bindR (takeR 16 buf) (\<lambda>(bs, rest). Inr (from_v6 ops bs, rest))"

text \<open>\<open>try_get_u16\<close> on a port that the flags announce; an absent port is the wildcard 0.\<close>

definition get_port :: "bool \<Rightarrow> bytes \<Rightarrow> (u16 \<times> bytes) option" where
  "get_port present buf =
     (if \<not> present then Some (0, buf)
      else if length buf < 2 then None
      else Some (get_word (take 2 buf), drop 2 buf))"

definition deserialize :: "'ip ip_ops \<Rightarrow> bytes \<Rightarrow> ('ip Ip5TupleTc \<times> bytes) option res" where
  "deserialize ops buf =
     (if length buf < 2 then Inr None
      else
        let flags = buf ! 0; ip_protocol = buf ! 1; rest = drop 2 buf;
            is_v4 = (flags AND TCF_IPV4 \<noteq> 0);
            get = (if is_v4 then buf_get_ipv4 ops else buf_get_ipv6 ops)
        in if length rest < 2 * (if is_v4 then 4 else 16) then Inr None
           else bindR (get rest) (\<lambda>(src, rest1).
             bindR (get rest1) (\<lambda>(dst, rest2).
               Inr (case get_port (flags AND TCF_SOURCE_PORT_PRESENT \<noteq> 0) rest2 of
                      None \<Rightarrow> None
                    | Some (sp, rest3) \<Rightarrow>
                        (case get_port (flags AND TCF_DESTINATION_PORT_PRESENT \<noteq> 0) rest3 of
                           None \<Rightarrow> None
                         | Some (dp, rest4) \<Rightarrow>
                             Some (\<lparr> src_address = src, dst_address = dst,
                                     l3_type = (if is_v4 then Ipv4 else Ipv6),
                                     l4_protocol = ip_protocol, src_port = sp, dst_port = dp \<rparr>,
                                   rest4))))))"

definition classify_5t :: "'ip Ip5TupleTc \<Rightarrow> 'ip FiveTuple \<Rightarrow> bool" where
  "classify_5t tc five_tuple \<longleftrightarrow>
     (if l3_type five_tuple \<noteq> l3_type tc then False
      else if src_address five_tuple \<noteq> src_address tc \<or> dst_address five_tuple \<noteq> dst_address tc
      then False
      else if l4_protocol five_tuple \<noteq> l4_protocol tc then False
      else if src_port tc \<noteq> 0 \<and> src_port five_tuple \<noteq> src_port tc then False
      else if dst_port tc \<noteq> 0 \<and> dst_port five_tuple \<noteq> dst_port tc then False
      else True)"

section \<open>Self-delimiting encodings\<close>

text \<open>
  The contract of a message part that carries its own length: decoding an encoded
  value returns it and the bytes after it.
\<close>

locale prefix_codec =
  fixes wf :: "'a \<Rightarrow> bool"
    and enc :: "'a \<Rightarrow> bytes"
    and dec :: "bytes \<Rightarrow> ('a \<times> bytes) option"
  assumes dec_enc: "wf x \<Longrightarrow> dec (enc x @ rest) = Some (x, rest)"
begin

lemma enc_prefix_free:
  assumes "wf x" "wf y" "enc x @ r = enc y @ s"
  shows "x = y \<and> r = s"
proof -
  have "Some (x, r) = dec (enc x @ r)" by (rule dec_enc [OF assms(1), symmetric])
  also have "\<dots> = Some (y, s)" unfolding assms(3) by (rule dec_enc [OF assms(2)])
  finally show ?thesis by simp
qed

lemma enc_inj_on: "inj_on enc {x. wf x}"
proof (rule inj_onI)
  fix x y
  assume "x \<in> {x. wf x}" "y \<in> {x. wf x}" "enc x = enc y"
  then show "x = y" using enc_prefix_free [of x y "[]" "[]"] by simp
qed

end

section \<open>The wire format\<close>

text \<open>
  What an address must be for the classifier to carry it: an IPv4 classifier has
  addresses that their four bytes determine, an IPv6 one by their sixteen.
\<close>

definition v4_ok :: "'ip ip_ops \<Rightarrow> 'ip \<Rightarrow> bool" where
  "v4_ok ops a \<longleftrightarrow> length (read_as_v4 ops a) = 4 \<and> from_v4 ops (read_as_v4 ops a) = a"

definition v6_ok :: "'ip ip_ops \<Rightarrow> 'ip \<Rightarrow> bool" where
  "v6_ok ops a \<longleftrightarrow> length (v6 ops a) = 16 \<and> from_v6 ops (v6 ops a) = a"

definition wf_tc :: "'ip ip_ops \<Rightarrow> 'ip Ip5TupleTc \<Rightarrow> bool" where
  "wf_tc ops tc \<longleftrightarrow>
     (case l3_type tc of
        Ipv4 \<Rightarrow> v4_ok ops (src_address tc) \<and> v4_ok ops (dst_address tc)
      | Ipv6 \<Rightarrow> v6_ok ops (src_address tc) \<and> v6_ok ops (dst_address tc)
      | L3_other _ \<Rightarrow> False)"

definition tc_bytes :: "'ip ip_ops \<Rightarrow> 'ip Ip5TupleTc \<Rightarrow> bytes" where
  "tc_bytes ops tc = projr (serialize ops tc)"

definition tc_of_bytes :: "'ip ip_ops \<Rightarrow> bytes \<Rightarrow> ('ip Ip5TupleTc \<times> bytes) option" where
  "tc_of_bytes ops buf = projr (deserialize ops buf)"

lemmas tcf_defs = TCF_DESTINATION_PORT_PRESENT_def TCF_SOURCE_PORT_PRESENT_def TCF_IPV4_def

lemma get_port_put:
  "get_port (p \<noteq> 0) ((if p \<noteq> 0 then put_word 2 p else []) @ rest) = Some (p, rest)"
  by (simp add: get_port_def get_put_word)

lemma serialize_wf:
  assumes "wf_tc ops tc"
  obtains bs where "serialize ops tc = Inr bs" and "\<forall>rest. deserialize ops (bs @ rest) = Inr (Some (tc, rest))"
proof -
  define sp where "sp = (if src_port tc \<noteq> 0 then put_word 2 (src_port tc) else [])"
  define dp where "dp = (if dst_port tc \<noteq> 0 then put_word 2 (dst_port tc) else [])"
  define fl where "fl f0 = (if dst_port tc \<noteq> 0
      then (if src_port tc \<noteq> 0 then f0 OR TCF_SOURCE_PORT_PRESENT else f0) OR TCF_DESTINATION_PORT_PRESENT
      else (if src_port tc \<noteq> 0 then f0 OR TCF_SOURCE_PORT_PRESENT else f0))" for f0 :: u8
  have flags: "(fl TCF_IPV4 AND TCF_IPV4 \<noteq> 0)" "fl 0 AND TCF_IPV4 = 0"
    "f0 = 0 \<or> f0 = TCF_IPV4 \<Longrightarrow> (fl f0 AND TCF_SOURCE_PORT_PRESENT \<noteq> 0) = (src_port tc \<noteq> 0)"
    "f0 = 0 \<or> f0 = TCF_IPV4 \<Longrightarrow> (fl f0 AND TCF_DESTINATION_PORT_PRESENT \<noteq> 0) = (dst_port tc \<noteq> 0)"
    for f0
    by (cases "src_port tc = 0"; cases "dst_port tc = 0";
        (elim disjE)?; simp add: fl_def tcf_defs)+
  note ports = get_port_put [of "src_port tc", folded sp_def] get_port_put [of "dst_port tc", folded dp_def]
  show ?thesis
  proof (cases "l3_type tc")
    case Ipv4
    let ?bs = "[fl TCF_IPV4, l4_protocol tc] @ (read_as_v4 ops (src_address tc) @ read_as_v4 ops (dst_address tc)) @ sp @ dp"
    have "serialize ops tc = Inr ?bs"
      using Ipv4 by (simp add: serialize_def Let_def sp_def dp_def fl_def res_simps)
    moreover have "deserialize ops (?bs @ rest) = Inr (Some (tc, rest))" for rest
      using assms Ipv4 flags ports
      by (simp add: deserialize_def wf_tc_def v4_ok_def buf_get_ipv4_def Let_def res_simps)
    ultimately show ?thesis using that by blast
  next
    case Ipv6
    let ?bs = "[fl 0, l4_protocol tc] @ (v6 ops (src_address tc) @ v6 ops (dst_address tc)) @ sp @ dp"
    have "serialize ops tc = Inr ?bs"
      using Ipv6 by (simp add: serialize_def Let_def sp_def dp_def fl_def res_simps)
    moreover have "deserialize ops (?bs @ rest) = Inr (Some (tc, rest))" for rest
      using assms Ipv6 flags ports
      by (simp add: deserialize_def wf_tc_def v6_ok_def buf_get_ipv6_def Let_def res_simps)
    ultimately show ?thesis using that by blast
  next
    case (L3_other t)
    then show ?thesis using assms by (simp add: wf_tc_def)
  qed
qed

interpretation tcw: prefix_codec "wf_tc ops" "tc_bytes ops" "tc_of_bytes ops" for ops
proof
  fix tc :: "'a Ip5TupleTc" and rest
  assume "wf_tc ops tc"
  then obtain bs where "serialize ops tc = Inr bs" "\<And>r. deserialize ops (bs @ r) = Inr (Some (tc, r))"
    using serialize_wf by blast
  then show "tc_of_bytes ops (tc_bytes ops tc @ rest) = Some (tc, rest)"
    by (simp add: tc_bytes_def tc_of_bytes_def)
qed

lemma deserialize_ok: "\<exists>r. deserialize ops buf = Inr r"
proof (cases "length buf < 2 \<or> length (drop 2 buf) < 2 * (if buf ! 0 AND TCF_IPV4 \<noteq> 0 then 4 else 16)")
  case True
  then show ?thesis by (elim disjE) (simp_all add: deserialize_def Let_def)
next
  case False
  then show ?thesis
    by (cases "buf ! 0 AND TCF_IPV4 = 0")
      (auto simp: deserialize_def buf_get_ipv4_def buf_get_ipv6_def Let_def res_simps takeR_def)
qed

lemma tc_unambiguous:
  assumes "wf_tc ops x" "wf_tc ops y" and "serialize ops x = Inr bx" "serialize ops y = Inr bz"
    and "bx @ r = bz @ s"
  shows "x = y \<and> r = s"
  using tcw.enc_prefix_free [of ops x y r s] assms by (simp add: tc_bytes_def)

section \<open>The properties\<close>

text \<open>C29 (classifier round trip): a classifier with representable addresses is written
  without a panic, and reading it back from any longer buffer gives the same
  classifier and leaves exactly the bytes that follow it.\<close>

theorem tc_round_trip:
  assumes "wf_tc ops tc"
  shows "\<exists>bs. serialize ops tc = Inr bs \<and> (\<forall>rest. deserialize ops (bs @ rest) = Inr (Some (tc, rest)))"
  using serialize_wf [OF assms] by blast

definition demo_ops :: "bytes ip_ops" where
  "demo_ops = \<lparr> read_as_v4 = \<lambda>a. a, v6 = \<lambda>a. a, from_v4 = \<lambda>b. b, from_v6 = \<lambda>b. b \<rparr>"

definition demo_tc :: "bytes Ip5TupleTc" where
  "demo_tc = \<lparr> src_address = [10, 0, 0, 1], dst_address = [10, 0, 0, 2], l3_type = Ipv4,
     l4_protocol = 6, src_port = 0, dst_port = 443 \<rparr>"

theorem tc_round_trip_witness:
  "\<exists>bs. serialize demo_ops demo_tc = Inr bs
     \<and> (\<forall>rest. deserialize demo_ops (bs @ rest) = Inr (Some (demo_tc, rest)))"
  by (rule tc_round_trip) (simp add: wf_tc_def v4_ok_def demo_ops_def demo_tc_def)

end
