(* ===== verification/Classifier.thy ===== *)
theory Classifier
  imports Tc
begin

unbundle bit_operations_syntax

text \<open>
  The packet classifier, \<open>adapter/ph/src/classifier.rs\<close>, over the bytes of an IP packet.
  A result carries the five-tuple as far as it was filled in, also on an error, and a
  slice out of range is a panic.  The checksums, the test for IPv4-mapped addresses and
  the address type belong to other crates: they are the record \<open>cls_env\<close>.  Protocol
  numbers are those of the IANA registry.
\<close>

section \<open>The model\<close>

datatype ClassifierResult =
  CR_OK | CR_NonIP | CR_UnclassifiedL4 | CR_FirstFragment | CR_SubsequentFragment

record ClassifierOptions =
  ignore_truncated_packets :: bool
  ignore_bad_checksums :: bool

definition ClassifierOptions_default :: ClassifierOptions where
  "ClassifierOptions_default = \<lparr> ignore_truncated_packets = False, ignore_bad_checksums = False \<rparr>"

record 'ip cls_env =
  cls_ip :: "'ip ip_ops"
  cls_is_v4 :: "'ip \<Rightarrow> bool"
  cls_checksum :: "bytes \<Rightarrow> u16"
  cls_validate_l4 :: "L3Type \<Rightarrow> 'ip \<Rightarrow> 'ip \<Rightarrow> u8 \<Rightarrow> bytes \<Rightarrow> bool"

type_synonym 'ip classified = "((string + ClassifierResult) \<times> 'ip FiveTuple) res"

definition IP_VERSION_MASK :: u8 where "IP_VERSION_MASK = 0xF0"
definition IPV4_HEADER_LENGTH_MASK :: u8 where "IPV4_HEADER_LENGTH_MASK = 0x0F"
definition NO_NEXT_HEADER :: u8 where "NO_NEXT_HEADER = 59"

definition HOPOPT :: u8 where "HOPOPT = 0"
definition ICMP :: u8 where "ICMP = 1"
definition IPINIP :: u8 where "IPINIP = 4"
definition TCP :: u8 where "TCP = 6"
definition UDP :: u8 where "UDP = 17"
definition IPV6_ROUTE :: u8 where "IPV6_ROUTE = 43"
definition IPV6_FRAG :: u8 where "IPV6_FRAG = 44"
definition AH :: u8 where "AH = 51"
definition IPV6_ICMP :: u8 where "IPV6_ICMP = 58"
definition IPV6_OPTS :: u8 where "IPV6_OPTS = 60"

lemmas ip_numbers = HOPOPT_def ICMP_def IPINIP_def TCP_def UDP_def IPV6_ROUTE_def IPV6_FRAG_def
  AH_def IPV6_ICMP_def IPV6_OPTS_def

definition length_error :: "'ip FiveTuple \<Rightarrow> 'ip classified" where
  "length_error ft = Inr (Inl ''Packet length error'', ft)"

definition get_ip_version :: "bytes \<Rightarrow> u8 res" where
  "get_ip_version body = bindR (nthR body 0) (\<lambda>b. Inr (drop_bit 4 (b AND IP_VERSION_MASK)))"

definition checksums_on :: "ClassifierOptions \<Rightarrow> bool" where
  "checksums_on options \<longleftrightarrow> \<not> ignore_bad_checksums options \<and> \<not> ignore_truncated_packets options"

definition validate_inet_l4_checksum_with_5t :: "'ip cls_env \<Rightarrow> 'ip FiveTuple \<Rightarrow> bytes \<Rightarrow> bool" where
  "validate_inet_l4_checksum_with_5t env ft data =
     cls_validate_l4 env (l3_type ft) (src_address ft) (dst_address ft) (l4_protocol ft) data"

definition classify_unclassified :: "'ip FiveTuple \<Rightarrow> 'ip classified" where
  "classify_unclassified ft = Inr (Inr CR_UnclassifiedL4, ft \<lparr> src_port := 0, dst_port := 0 \<rparr>)"

definition classify_udp ::
  "'ip cls_env \<Rightarrow> ClassifierOptions \<Rightarrow> 'ip FiveTuple \<Rightarrow> bytes \<Rightarrow> 'ip classified" where
  "classify_udp env options ft body =
     (if length body < 8 then length_error ft
      else if checksums_on options \<and> take 2 (drop 6 body) \<noteq> [0, 0]
        \<and> \<not> validate_inet_l4_checksum_with_5t env ft body
      then Inr (Inl ''Bad L4 checksum'', ft)
      else
        let ft1 = ft \<lparr> src_port := get_word (take 2 body), dst_port := get_word (take 2 (drop 2 body)) \<rparr>;
            len = unat (get_word (take 2 (drop 4 body)) :: u16)
        in if (\<not> ignore_truncated_packets options \<and> length body < len) \<or> length body > len
           then length_error ft1
           else Inr (Inr CR_OK, ft1))"

definition classify_tcp ::
  "'ip cls_env \<Rightarrow> ClassifierOptions \<Rightarrow> 'ip FiveTuple \<Rightarrow> bytes \<Rightarrow> 'ip classified" where
  "classify_tcp env options ft body =
     (if length body < 20 then length_error ft
      else if checksums_on options \<and> \<not> validate_inet_l4_checksum_with_5t env ft body
      then Inr (Inl ''Bad L4 checksum'', ft)
      else
        let ft1 = ft \<lparr> src_port := get_word (take 2 body), dst_port := get_word (take 2 (drop 2 body)) \<rparr>;
            data_offset = drop_bit 4 (body ! 12) * 4
        in if data_offset < 20 \<or> unat data_offset > length body then length_error ft1
           else Inr (Inr CR_OK, ft1))"

definition classify_icmp ::
  "'ip cls_env \<Rightarrow> ClassifierOptions \<Rightarrow> 'ip FiveTuple \<Rightarrow> bytes \<Rightarrow> 'ip classified" where
  "classify_icmp env options ft body =
     bindR (takeR 4 body) (\<lambda>(icmp, _).
       let ft1 = ft \<lparr> src_port := ucast (icmp ! 0), dst_port := ucast (icmp ! 1) \<rparr> in
       if checksums_on options \<and> cls_checksum env body \<noteq> 0 then Inr (Inl ''Bad L4 checksum'', ft1)
       else Inr (Inr CR_OK, ft1))"

definition classify_icmpv6 ::
  "'ip cls_env \<Rightarrow> ClassifierOptions \<Rightarrow> 'ip FiveTuple \<Rightarrow> bytes \<Rightarrow> 'ip classified" where
  "classify_icmpv6 env options ft body =
     bindR (takeR 4 body) (\<lambda>(icmp, _).
       let ft1 = ft \<lparr> src_port := ucast (icmp ! 0), dst_port := ucast (icmp ! 1) \<rparr> in
       if checksums_on options \<and> \<not> validate_inet_l4_checksum_with_5t env ft1 body
       then Inr (Inl ''Bad L4 checksum'', ft1)
       else Inr (Inr CR_OK, ft1))"

definition is_option_length_error :: "nat \<Rightarrow> u8 \<Rightarrow> nat \<Rightarrow> bool" where
  "is_option_length_error remaining_len next_header option_length \<longleftrightarrow>
     option_length > remaining_len
     \<or> (next_header \<noteq> NO_NEXT_HEADER \<and> option_length + 8 > remaining_len)"

text \<open>The length of an extension header: of an IPv6 option, of an authentication header.\<close>

definition v6_option_length :: "u8 \<Rightarrow> nat" where "v6_option_length b = (unat b + 1) * 8"
definition auth_header_length :: "u8 \<Rightarrow> nat" where "auth_header_length b = (unat b + 2) * 4"

text \<open>The mutually recursive walk over the headers: \<open>classify_next_header\<close> with
  \<open>skip_v6_option\<close>, \<open>skip_auth_header\<close> and \<open>classify_frag\<close> as its branches.\<close>

function (sequential) classify_next_header ::
  "'ip cls_env \<Rightarrow> ClassifierOptions \<Rightarrow> 'ip FiveTuple \<Rightarrow> bytes \<Rightarrow> u8 \<Rightarrow> 'ip classified"
and skip_v6_option ::
  "'ip cls_env \<Rightarrow> ClassifierOptions \<Rightarrow> 'ip FiveTuple \<Rightarrow> bytes \<Rightarrow> 'ip classified"
and skip_auth_header ::
  "'ip cls_env \<Rightarrow> ClassifierOptions \<Rightarrow> 'ip FiveTuple \<Rightarrow> bytes \<Rightarrow> 'ip classified"
and classify_frag ::
  "'ip cls_env \<Rightarrow> ClassifierOptions \<Rightarrow> 'ip FiveTuple \<Rightarrow> bytes \<Rightarrow> 'ip classified" where
  "classify_next_header env options ft0 body protocol =
     (let ft = ft0 \<lparr> l4_protocol := protocol \<rparr> in
      if protocol = HOPOPT then skip_v6_option env options ft body
      else if protocol = ICMP then classify_icmp env options ft body
      else if protocol = IPINIP then classify_unclassified ft
      else if protocol = TCP then classify_tcp env options ft body
      else if protocol = UDP then classify_udp env options ft body
      else if protocol = IPV6_ROUTE then skip_v6_option env options ft body
      else if protocol = IPV6_FRAG then classify_frag env options ft body
      else if protocol = AH then skip_auth_header env options ft body
      else if protocol = IPV6_ICMP then classify_icmpv6 env options ft body
      else if protocol = IPV6_OPTS then skip_v6_option env options ft body
      else classify_unclassified ft)"
| "skip_v6_option env options ft body =
     (if length body < 2 then Inl Index_out_of_bounds
      else if is_option_length_error (length body) (body ! 0) (v6_option_length (body ! 1))
      then length_error ft
      else classify_next_header env options ft (drop (v6_option_length (body ! 1)) body) (body ! 0))"
| "skip_auth_header env options ft body =
     (if length body < 2 then Inl Index_out_of_bounds
      else if is_option_length_error (length body) (body ! 0) (auth_header_length (body ! 1))
      then length_error ft
      else classify_next_header env options ft (drop (auth_header_length (body ! 1)) body) (body ! 0))"
| "classify_frag env options ft body =
     (if length body < 1 then Inl Index_out_of_bounds
      else if is_option_length_error (length body) (body ! 0) 8 then length_error ft
      else if (get_word (take 2 (drop 2 body)) :: u16) AND 0xFFF8 \<noteq> 0
      then Inr (Inr CR_SubsequentFragment, ft)
      else bindR (classify_next_header env options ft (drop 8 body) (body ! 0))
        (\<lambda>(_, ft1). Inr (Inr CR_FirstFragment, ft1)))"
  by pat_completeness auto

termination
  by (relation "measure (\<lambda>x. case x of
        Inl (Inl (_, _, _, body, _)) \<Rightarrow> 2 * length body + 1
      | Inl (Inr (_, _, _, body)) \<Rightarrow> 2 * length body
      | Inr (Inl (_, _, _, body)) \<Rightarrow> 2 * length body
      | Inr (Inr (_, _, _, body)) \<Rightarrow> 2 * length body)")
    (auto simp: is_option_length_error_def v6_option_length_def auth_header_length_def)

declare classify_next_header.simps [simp del] skip_v6_option.simps [simp del]
  skip_auth_header.simps [simp del] classify_frag.simps [simp del]

definition classify_ipv4 ::
  "'ip cls_env \<Rightarrow> ClassifierOptions \<Rightarrow> 'ip FiveTuple \<Rightarrow> bytes \<Rightarrow> 'ip classified" where
  "classify_ipv4 env options ft0 body =
     (let ft = ft0 \<lparr> l3_type := Ipv4 \<rparr> in
      if length body < 20 then length_error ft
      else
        let header_length = unat (body ! 0 AND IPV4_HEADER_LENGTH_MASK) * 4;
            total_length = unat (get_word (take 2 (drop 2 body)) :: u16);
            frag_offset = (get_word (take 2 (drop 6 body)) :: u16);
            proto = body ! 9
        in if header_length < 20 then length_error ft
        else if checksums_on options \<and> header_length > length body then length_error ft
        else if checksums_on options \<and> cls_checksum env (take header_length body) \<noteq> 0
        then Inr (Inl ''Bad L3 checksum'', ft)
        else
          let ft1 = ft \<lparr> src_address := from_v4 (cls_ip env) (take 4 (drop 12 body)),
                          dst_address := from_v4 (cls_ip env) (take 4 (drop 16 body)) \<rparr>
          in if frag_offset AND 0x1FFF \<noteq> 0
          then Inr (Inr CR_SubsequentFragment, ft1 \<lparr> l4_protocol := proto \<rparr>)
          else if (\<not> ignore_truncated_packets options \<and> length body < total_length)
            \<or> length body > total_length \<or> header_length > length body
          then length_error ft1
          else bindR (classify_next_header env options ft1 (drop header_length body) proto)
            (\<lambda>(ret_code, ft2).
              if frag_offset AND 0x2000 \<noteq> 0 then Inr (Inr CR_FirstFragment, ft2)
              else Inr (ret_code, ft2)))"

definition classify_ipv6 ::
  "'ip cls_env \<Rightarrow> ClassifierOptions \<Rightarrow> 'ip FiveTuple \<Rightarrow> bytes \<Rightarrow> 'ip classified" where
  "classify_ipv6 env options ft0 body =
     (let ft = ft0 \<lparr> l3_type := Ipv6 \<rparr> in
      if length body < 40 then length_error ft
      else
        let src = from_v6 (cls_ip env) (take 16 (drop 8 body));
            dst = from_v6 (cls_ip env) (take 16 (drop 24 body));
            payload_length = unat (get_word (take 2 (drop 4 body)) :: u16);
            next_header = body ! 6
        in if cls_is_v4 env src \<or> cls_is_v4 env dst
        then Inr (Inl ''IPv4-mapped IPv6 addresses not allowed'', ft)
        else
          let ft1 = ft \<lparr> src_address := src, dst_address := dst \<rparr> in
          if payload_length = 0 \<and> next_header = 0
          then Inr (Inl ''IPv6 jumbograms not supported'', ft1)
          else if (\<not> ignore_truncated_packets options \<and> length body - 40 < payload_length)
            \<or> length body - 40 > payload_length
          then length_error ft1
          else classify_next_header env options ft1 (drop 40 body) next_header)"

definition classify_l3 ::
  "'ip cls_env \<Rightarrow> ClassifierOptions \<Rightarrow> 'ip FiveTuple \<Rightarrow> bytes \<Rightarrow> 'ip classified" where
  "classify_l3 env options ft body =
     (if body = [] then length_error ft
      else bindR (get_ip_version body) (\<lambda>ip_version.
        if ip_version = 4 then classify_ipv4 env options ft body
        else if ip_version = 6 then classify_ipv6 env options ft body
        else Inr (Inr CR_NonIP, ft)))"

definition classify_with_options ::
  "'ip cls_env \<Rightarrow> ClassifierOptions \<Rightarrow> 'ip FiveTuple \<Rightarrow> bytes \<Rightarrow> 'ip classified" where
  "classify_with_options env options ft body = classify_l3 env options ft body"

definition classify :: "'ip cls_env \<Rightarrow> 'ip FiveTuple \<Rightarrow> bytes \<Rightarrow> 'ip classified" where
  "classify env ft body = classify_with_options env ClassifierOptions_default ft body"

text \<open>\<open>classify_packet\<close> of \<open>tc.rs\<close>; \<open>dft\<close> is the default five-tuple.\<close>

definition classify_packet ::
  "'ip cls_env \<Rightarrow> 'ip FiveTuple \<Rightarrow> 'ip Ip5TupleTc \<Rightarrow> L3Type \<Rightarrow> bytes \<Rightarrow> bool res" where
  "classify_packet env dft tc l3 body =
     bindR (classify env dft body) (\<lambda>(r, ft).
       Inr (case r of
              Inl _ \<Rightarrow> False
            | Inr cls \<Rightarrow>
                if cls \<noteq> CR_OK \<and> cls \<noteq> CR_UnclassifiedL4 then False
                else if l3_type ft \<noteq> l3 then False
                else classify_5t tc ft))"

section \<open>Which packets panic\<close>

text \<open>The payloads the walk cannot look into: shorter than the first header it reads.\<close>

definition short_header :: "u8 \<Rightarrow> nat \<Rightarrow> bool" where
  "short_header protocol n \<longleftrightarrow>
     (protocol \<in> {HOPOPT, IPV6_ROUTE, IPV6_OPTS, AH} \<and> n < 2)
     \<or> (protocol = IPV6_FRAG \<and> n = 0)
     \<or> (protocol \<in> {ICMP, IPV6_ICMP} \<and> n < 4)"

lemma length_error_ok [simp]: "\<not> isl (length_error ft)"
  by (simp add: length_error_def)

lemma next_header_long:
  "\<not> is_option_length_error n h k \<Longrightarrow> \<not> short_header h (n - k)"
  by (auto simp: is_option_length_error_def short_header_def NO_NEXT_HEADER_def ip_numbers)

lemma l4_panics:
  "\<not> isl (classify_udp env options ft body)" "\<not> isl (classify_tcp env options ft body)"
  "\<not> isl (classify_unclassified ft)"
  "isl (classify_icmp env options ft body) \<longleftrightarrow> length body < 4"
  "isl (classify_icmpv6 env options ft body) \<longleftrightarrow> length body < 4"
  by (simp_all add: classify_udp_def classify_tcp_def classify_unclassified_def Let_def
      classify_icmp_def classify_icmpv6_def takeR_def)

lemma next_header_cases:
  "protocol \<in> {HOPOPT, IPV6_ROUTE, IPV6_OPTS} \<Longrightarrow> classify_next_header env options ft body protocol
     = skip_v6_option env options (ft \<lparr> l4_protocol := protocol \<rparr>) body"
  "classify_next_header env options ft body AH
     = skip_auth_header env options (ft \<lparr> l4_protocol := AH \<rparr>) body"
  "classify_next_header env options ft body IPV6_FRAG
     = classify_frag env options (ft \<lparr> l4_protocol := IPV6_FRAG \<rparr>) body"
  "classify_next_header env options ft body ICMP
     = classify_icmp env options (ft \<lparr> l4_protocol := ICMP \<rparr>) body"
  "classify_next_header env options ft body TCP
     = classify_tcp env options (ft \<lparr> l4_protocol := TCP \<rparr>) body"
  "classify_next_header env options ft body UDP
     = classify_udp env options (ft \<lparr> l4_protocol := UDP \<rparr>) body"
  "classify_next_header env options ft body IPV6_ICMP
     = classify_icmpv6 env options (ft \<lparr> l4_protocol := IPV6_ICMP \<rparr>) body"
  "protocol \<notin> {HOPOPT, IPV6_ROUTE, IPV6_OPTS, AH, IPV6_FRAG, ICMP, TCP, UDP, IPV6_ICMP} \<Longrightarrow>
     classify_next_header env options ft body protocol
       = classify_unclassified (ft \<lparr> l4_protocol := protocol \<rparr>)"
  by (auto simp: classify_next_header.simps [of env options ft body] Let_def ip_numbers)

lemma header_kinds:
  obtains "protocol \<in> {HOPOPT, IPV6_ROUTE, IPV6_OPTS}" | "protocol = AH" | "protocol = IPV6_FRAG"
    | "protocol = ICMP" | "protocol = TCP" | "protocol = UDP" | "protocol = IPV6_ICMP"
    | "protocol \<notin> {HOPOPT, IPV6_ROUTE, IPV6_OPTS, AH, IPV6_FRAG, ICMP, TCP, UDP, IPV6_ICMP}"
  by blast

lemma short_header_cases:
  "protocol \<in> {HOPOPT, IPV6_ROUTE, IPV6_OPTS} \<Longrightarrow> short_header protocol n \<longleftrightarrow> n < 2"
  "short_header AH n \<longleftrightarrow> n < 2" "short_header IPV6_FRAG n \<longleftrightarrow> n = 0"
  "short_header ICMP n \<longleftrightarrow> n < 4" "\<not> short_header TCP n" "\<not> short_header UDP n"
  "short_header IPV6_ICMP n \<longleftrightarrow> n < 4"
  "protocol \<notin> {HOPOPT, IPV6_ROUTE, IPV6_OPTS, AH, IPV6_FRAG, ICMP, TCP, UDP, IPV6_ICMP} \<Longrightarrow>
     \<not> short_header protocol n"
  by (auto simp: short_header_def ip_numbers)

lemma walk_panics:
  "isl (classify_next_header env options ft body protocol) \<longleftrightarrow> short_header protocol (length body)"
  "isl (skip_v6_option env options ft body) \<longleftrightarrow> length body < 2"
  "isl (skip_auth_header env options ft body) \<longleftrightarrow> length body < 2"
  "isl (classify_frag env options ft body) \<longleftrightarrow> length body = 0"
proof (induction env options ft body protocol and env options ft body and env options ft body
    and env options ft body rule: classify_next_header_skip_v6_option_skip_auth_header_classify_frag.induct)
  case (1 env options ft0 body protocol)
  let ?ft = "ft0 \<lparr> l4_protocol := protocol \<rparr>"
  show ?case
  proof (cases protocol rule: header_kinds)
    case 1
    then have "isl (skip_v6_option env options ?ft body) \<longleftrightarrow> length body < 2"
      using "1.IH"(1,2,5) [OF refl] by (auto simp: ip_numbers)
    then show ?thesis using 1 by (simp only: next_header_cases short_header_cases)
  next
    case 2
    then have "isl (skip_auth_header env options ?ft body) \<longleftrightarrow> length body < 2"
      using "1.IH"(4) [OF refl] by (simp add: ip_numbers)
    then show ?thesis using 2 by (simp only: next_header_cases short_header_cases)
  next
    case 3
    then have "isl (classify_frag env options ?ft body) \<longleftrightarrow> length body = 0"
      using "1.IH"(3) [OF refl] by (simp add: ip_numbers)
    then show ?thesis using 3 by (simp only: next_header_cases short_header_cases)
  qed (simp_all only: next_header_cases short_header_cases l4_panics not_False_eq_True simp_thms)
next
  case (2 env options ft body)
  then show ?case
    by (cases "length body < 2"; cases "is_option_length_error (length body) (body ! 0) (v6_option_length (body ! 1))")
      (simp_all only: skip_v6_option.simps [of env options ft body] if_True if_False not_False_eq_True
        simp_thms sum.disc length_error_ok length_drop next_header_long)
next
  case (3 env options ft body)
  then show ?case
    by (cases "length body < 2"; cases "is_option_length_error (length body) (body ! 0) (auth_header_length (body ! 1))")
      (simp_all only: skip_auth_header.simps [of env options ft body] if_True if_False not_False_eq_True
        simp_thms sum.disc length_error_ok length_drop next_header_long)
next
  case (4 env options ft body)
  then show ?case
    by (auto simp: classify_frag.simps [of env options ft body] next_header_long Suc_le_eq)
qed

text \<open>The header after the IP header and its payload.\<close>

definition l3_payload :: "bytes \<Rightarrow> u8 \<times> bytes" where
  "l3_payload body =
     (if drop_bit 4 (body ! 0) = 4
      then (body ! 9, drop (unat (body ! 0 AND IPV4_HEADER_LENGTH_MASK) * 4) body)
      else (body ! 6, drop 40 body))"

lemma version_mask: "drop_bit 4 (b AND IP_VERSION_MASK) = drop_bit 4 (b :: u8)"
proof (rule bit_word_eqI)
  fix n assume "n < LENGTH(8)"
  then have "n \<in> {0, 1, 2, 3, 4, 5, 6, 7}" by auto
  then show "bit (drop_bit 4 (b AND IP_VERSION_MASK)) n = bit (drop_bit 4 b) n"
    by (auto simp: IP_VERSION_MASK_def bit_simps dest: bit_imp_le_length)
qed

lemma get_ip_version_ok:
  "body \<noteq> [] \<Longrightarrow> get_ip_version body = Inr (drop_bit 4 (body ! 0))"
  by (simp add: get_ip_version_def version_mask [simplified drop_bit_and])

lemma classify_ipv4_panics:
  assumes "isl (classify_ipv4 env options ft body)"
  shows "short_header (body ! 9) (length (drop (unat (body ! 0 AND IPV4_HEADER_LENGTH_MASK) * 4) body))"
  using assms unfolding classify_ipv4_def Let_def
  by (simp only: bindR_isl length_error_ok walk_panics sum.disc if_split if_distrib [of isl])
    (fastforce simp: if_distrib [of isl] split: if_splits)

lemma classify_ipv6_panics:
  assumes "isl (classify_ipv6 env options ft body)"
  shows "short_header (body ! 6) (length (drop 40 body))"
  using assms unfolding classify_ipv6_def Let_def
  by (simp only: bindR_isl length_error_ok walk_panics sum.disc if_split if_distrib [of isl]) blast

lemma classify_l3_panics:
  assumes "isl (classify_l3 env options ft body)"
  shows "case l3_payload body of (protocol, payload) \<Rightarrow> short_header protocol (length payload)"
  using assms classify_ipv4_panics [of env options ft body] classify_ipv6_panics [of env options ft body]
  by (simp add: classify_l3_def get_ip_version_ok l3_payload_def split: if_splits)

section \<open>What a classified packet's five-tuple says\<close>

text \<open>A reference walk over extension headers, that knows nothing of the packet's kind.\<close>

function header_chain :: "u8 \<Rightarrow> bytes \<Rightarrow> u8 \<times> bytes" where
  "header_chain protocol body =
     (if length body < 8 then (protocol, body)
      else if protocol \<in> {HOPOPT, IPV6_ROUTE, IPV6_OPTS}
      then header_chain (body ! 0) (drop (8 * Suc (unat (body ! 1))) body)
      else if protocol = AH then header_chain (body ! 0) (drop (4 * (unat (body ! 1) + 2)) body)
      else (protocol, body))"
  by pat_completeness auto
termination
  by (relation "measure (\<lambda>(_, body). length body)") auto

declare header_chain.simps [simp del]

definition ports_of :: "u8 \<times> bytes \<Rightarrow> (u16 \<times> u16) option" where
  "ports_of chain =
     (case chain of (protocol, payload) \<Rightarrow>
        if protocol \<in> {TCP, UDP} then Some (get_word (take 2 payload), get_word (take 2 (drop 2 payload)))
        else if protocol \<in> {ICMP, IPV6_ICMP} then Some (ucast (payload ! 0), ucast (payload ! 1))
        else None)"

definition describes :: "'ip FiveTuple \<Rightarrow> 'ip FiveTuple \<Rightarrow> u8 \<times> bytes \<Rightarrow> bool" where
  "describes ft' ft chain \<longleftrightarrow>
     l3_type ft' = l3_type ft \<and> src_address ft' = src_address ft \<and> dst_address ft' = dst_address ft
     \<and> l4_protocol ft' = fst chain \<and> ports_of chain = Some (src_port ft', dst_port ft')"

lemma header_chain_end:
  "protocol \<notin> {HOPOPT, IPV6_ROUTE, IPV6_OPTS, AH} \<Longrightarrow> header_chain protocol body = (protocol, body)"
  by (simp add: header_chain.simps)

lemma l4_describes:
  "classify_udp env options ft body = Inr (Inr CR_OK, ft') \<Longrightarrow> l4_protocol ft = UDP \<Longrightarrow> describes ft' ft (UDP, body)"
  "classify_tcp env options ft body = Inr (Inr CR_OK, ft') \<Longrightarrow> l4_protocol ft = TCP \<Longrightarrow> describes ft' ft (TCP, body)"
  "classify_icmp env options ft body = Inr (Inr CR_OK, ft') \<Longrightarrow> l4_protocol ft = ICMP \<Longrightarrow> describes ft' ft (ICMP, body)"
  "classify_icmpv6 env options ft body = Inr (Inr CR_OK, ft') \<Longrightarrow> l4_protocol ft = IPV6_ICMP \<Longrightarrow> describes ft' ft (IPV6_ICMP, body)"
  by (auto simp: classify_udp_def classify_tcp_def classify_icmp_def classify_icmpv6_def Let_def
      length_error_def takeR_def describes_def ports_of_def ip_numbers split: if_splits)

lemma describes_l4 [simp]: "describes ft' (ft \<lparr> l4_protocol := p \<rparr>) c = describes ft' ft c"
  by (simp add: describes_def)

lemma walk_describes:
  "classify_next_header env options ft body protocol = Inr (Inr CR_OK, ft')
     \<Longrightarrow> describes ft' ft (header_chain protocol body)"
  "skip_v6_option env options ft body = Inr (Inr CR_OK, ft') \<Longrightarrow> protocol \<in> {HOPOPT, IPV6_ROUTE, IPV6_OPTS}
     \<Longrightarrow> describes ft' ft (header_chain protocol body)"
  "skip_auth_header env options ft body = Inr (Inr CR_OK, ft')
     \<Longrightarrow> describes ft' ft (header_chain AH body)"
  "classify_frag env options ft body \<noteq> Inr (Inr CR_OK, ft')"
proof (induction env options ft body protocol and env options ft body and env options ft body
    and env options ft body arbitrary: ft' and ft' protocol and ft' and ft'
    rule: classify_next_header_skip_v6_option_skip_auth_header_classify_frag.induct)
  case (1 env options ft0 body protocol)
  let ?ft = "ft0 \<lparr> l4_protocol := protocol \<rparr>"
  show ?case
  proof (cases protocol rule: header_kinds)
    case 1
    then have "skip_v6_option env options ?ft body = Inr (Inr CR_OK, ft')"
      using "1.prems" by (simp only: next_header_cases)
    then have "describes ft' ?ft (header_chain protocol body)"
      using 1 "1.IH"(1,2,5) [OF refl] by (auto simp: ip_numbers)
    then show ?thesis by simp
  next
    case 2
    then have "skip_auth_header env options ?ft body = Inr (Inr CR_OK, ft')"
      using "1.prems" by (simp only: next_header_cases)
    then show ?thesis using "1.IH"(4) [OF refl] 2 by (simp add: ip_numbers)
  next
    case 3
    then have "classify_frag env options ?ft body = Inr (Inr CR_OK, ft')"
      using "1.prems" by (simp only: next_header_cases)
    moreover have "classify_frag env options ?ft body \<noteq> Inr (Inr CR_OK, ft')"
      using "1.IH"(3) [OF refl] 3 by (simp add: ip_numbers)
    ultimately show ?thesis by blast
  next
    case 8
    then show ?thesis using "1.prems" by (simp add: next_header_cases classify_unclassified_def)
  qed (use "1.prems" l4_describes [of env options ?ft body ft'] in
      \<open>simp_all add: next_header_cases header_chain_end, simp_all add: ip_numbers header_chain_end\<close>)
next
  case (2 env options ft body)
  then show ?case
    by (auto simp: skip_v6_option.simps [of env options ft body] length_error_def
        header_chain.simps [of protocol body] is_option_length_error_def v6_option_length_def
        mult.commute split: if_splits)
next
  case (3 env options ft body)
  then show ?case
    by (auto simp: skip_auth_header.simps [of env options ft body] length_error_def ip_numbers
        header_chain.simps [of _ body] is_option_length_error_def auth_header_length_def
        mult.commute split: if_splits)
next
  case (4 env options ft body)
  then show ?case
    by (auto simp: classify_frag.simps [of env options ft body] length_error_def res_simps split: if_splits)
qed

lemma classify_ipv4_describes:
  assumes "classify_ipv4 env options ft body = Inr (Inr CR_OK, ft')"
  shows "describes ft' (ft \<lparr> l3_type := Ipv4, src_address := from_v4 (cls_ip env) (take 4 (drop 12 body)),
      dst_address := from_v4 (cls_ip env) (take 4 (drop 16 body)) \<rparr>)
    (header_chain (body ! 9) (drop (unat (body ! 0 AND IPV4_HEADER_LENGTH_MASK) * 4) body))"
  using assms
  by (auto simp: classify_ipv4_def Let_def length_error_def res_simps split: if_splits
      intro!: walk_describes(1))

lemma classify_ipv6_describes:
  assumes "classify_ipv6 env options ft body = Inr (Inr CR_OK, ft')"
  shows "describes ft' (ft \<lparr> l3_type := Ipv6, src_address := from_v6 (cls_ip env) (take 16 (drop 8 body)),
      dst_address := from_v6 (cls_ip env) (take 16 (drop 24 body)) \<rparr>)
    (header_chain (body ! 6) (drop 40 body))"
  using assms
  by (auto simp: classify_ipv6_def Let_def length_error_def split: if_splits intro!: walk_describes(1))

lemma classify_long:
  assumes "4 \<le> length (snd (l3_payload body))"
  shows "\<exists>r ft'. classify_with_options env options ft body = Inr (r, ft')"
proof -
  have "\<not> (case l3_payload body of (protocol, payload) \<Rightarrow> short_header protocol (length payload))"
    using assms by (auto simp: short_header_def split: prod.splits)
  then have "\<not> isl (classify_with_options env options ft body)"
    using classify_l3_panics [of env options ft body] unfolding classify_with_options_def by argo
  then show ?thesis by (cases "classify_with_options env options ft body") auto
qed

text \<open>C26 (functional).  A packet classified as complete has the five-tuple of its IP header and of
  the header its chain of extension headers ends in: the addresses are the header's, the
  protocol is the last header's, the ports are its first two fields (for ICMP, type and code).\<close>

theorem classified_five_tuple:
  assumes "classify_with_options env options ft body = Inr (Inr CR_OK, ft')"
  shows "let chain = case_prod header_chain (l3_payload body) in
      l4_protocol ft' = fst chain \<and> ports_of chain = Some (src_port ft', dst_port ft')
      \<and> (if drop_bit 4 (body ! 0) = 4
         then l3_type ft' = Ipv4 \<and> src_address ft' = from_v4 (cls_ip env) (take 4 (drop 12 body))
            \<and> dst_address ft' = from_v4 (cls_ip env) (take 4 (drop 16 body))
         else l3_type ft' = Ipv6 \<and> src_address ft' = from_v6 (cls_ip env) (take 16 (drop 8 body))
            \<and> dst_address ft' = from_v6 (cls_ip env) (take 16 (drop 24 body)))"
proof (cases "drop_bit 4 (body ! 0) = 4")
  case True
  then have "classify_ipv4 env options ft body = Inr (Inr CR_OK, ft')"
    using assms by (auto simp: classify_with_options_def classify_l3_def get_ip_version_ok
        length_error_def split: if_splits)
  from classify_ipv4_describes [OF this] show ?thesis
    using True by (simp add: l3_payload_def describes_def Let_def)
next
  case False
  then have "classify_ipv6 env options ft body = Inr (Inr CR_OK, ft')"
    using assms by (auto simp: classify_with_options_def classify_l3_def get_ip_version_ok
        length_error_def split: if_splits)
  from classify_ipv6_describes [OF this] show ?thesis
    using False by (simp add: l3_payload_def describes_def Let_def)
qed

text \<open>Classifying a packet with at least four bytes after its IP header never
  panics, whatever the bytes: every slice the walk over the headers takes is in range.\<close>

theorem classifier_total:
  assumes "4 \<le> length (snd (l3_payload body))"
  shows "\<exists>r ft'. classify_with_options env options ft body = Inr (r, ft')"
  by (rule classify_long [OF assms])

text \<open>An IPv4 packet that consists of a header announcing ICMP and nothing else
  makes the classifier panic, also with the options used for the packet of a bind request.\<close>

lemma classifier_empty_icmp_panics:
  "classify_with_options env \<lparr> ignore_truncated_packets = True, ignore_bad_checksums = b \<rparr> ft
     [0x45, 0, 0, 20, 0, 0, 0, 0, 64, 1, 0, 0, 10, 0, 0, 1, 10, 0, 0, 2] = Inl Index_out_of_bounds"
  by (simp add: classify_with_options_def classify_l3_def get_ip_version_def IP_VERSION_MASK_def
      classify_ipv4_def Let_def IPV4_HEADER_LENGTH_MASK_def checksums_on_def get_word_def be_dec_def
      next_header_cases(4) [unfolded ICMP_def] classify_icmp_def takeR_def)

text \<open>The classifier on a UDP packet behind a hop-by-hop header, with addresses as their bytes.\<close>

definition demo_cls :: "bytes cls_env" where
  "demo_cls = \<lparr> cls_ip = demo_ops, cls_is_v4 = (\<lambda>_. False), cls_checksum = (\<lambda>_. 0),
                cls_validate_l4 = (\<lambda>_ _ _ _ _. True) \<rparr>"

definition demo_udp :: bytes where
  "demo_udp = [0x60, 0, 0, 0, 0, 16, 0, 64] @ replicate 15 0 @ [1] @ replicate 15 0 @ [2]
     @ [17, 0, 0, 0, 0, 0, 0, 0] @ [0x04, 0xD2, 0, 53, 0, 8, 0, 0]"

lemma demo_udp_classified:
  "classify_with_options demo_cls ClassifierOptions_default demo_tc demo_udp
     = Inr (Inr CR_OK, \<lparr> src_address = replicate 15 0 @ [1], dst_address = replicate 15 0 @ [2],
         l3_type = Ipv6, l4_protocol = 17, src_port = 1234, dst_port = 53 \<rparr>)"
  by code_simp

theorem classified_five_tuple_witness:
  "let chain = case_prod header_chain (l3_payload demo_udp) in
     fst chain = 17 \<and> ports_of chain = Some (1234, 53)"
  using classified_five_tuple [OF demo_udp_classified] by (simp add: Let_def)

theorem classifier_total_witness:
  "\<exists>r ft'. classify_with_options demo_cls ClassifierOptions_default demo_tc demo_udp = Inr (r, ft')"
proof (rule classifier_total)
  show "4 \<le> length (snd (l3_payload demo_udp))" by code_simp
qed

end
