(* ===== verification/Adapter_Tables.thy ===== *)
theory Adapter_Tables
  imports Tc Txn_Mgr
begin

text \<open>
  The lookup tables of an adapter, \<open>adapter/ph/src/adapter_tables.rs\<close>: the endpoint
  lookup table (ELT) of the outbound tethers and the dock lookup table (DLT) of
  the inbound ones.  A \<open>DashMap\<close> is the map it holds, its entry guards make each
  operation atomic.  The keyed hash of the \<open>blake3\<close> crate is the argument
  \<open>derive_key\<close>.  A slab of the \<open>cslab\<close> crate is the map from its keys to its values;
  the key it would assign next is the argument \<open>vacant_key\<close>, of which the code relies
  on \<open>slab_ok\<close>.
\<close>

section \<open>Slabs\<close>

type_synonym 'v slab = "nat \<Rightarrow> 'v option"

definition slab_ok :: "nat \<Rightarrow> ('v slab \<Rightarrow> nat option) \<Rightarrow> bool" where
  "slab_ok capacity vacant_key \<longleftrightarrow>
     (\<forall>t k. vacant_key t = Some k \<longrightarrow> t k = None \<and> k < capacity)"

text \<open>Stream IDs are slab keys plus one; the ID 0 addresses no entry.\<close>

definition slab_key :: "u32 \<Rightarrow> nat" where
  "slab_key stream_id = unat (ucast stream_id - 1 :: u64)"

definition key_stream :: "nat \<Rightarrow> u32" where
  "key_stream k = of_nat (k + 1)"

lemma slab_key_stream:
  assumes "k < 2 ^ 20"
  shows "slab_key (key_stream k) = k"
proof -
  have "unat (of_nat (k + 1) :: u32) = k + 1"
    using assms by (simp only: unat_of_nat) (simp add: take_bit_nat_eq_self)
  moreover have "ucast (of_nat (k + 1) :: u32) = (of_nat (unat (of_nat (k + 1) :: u32)) :: u64)"
    by (simp only: of_nat_unat)
  ultimately have "ucast (of_nat (k + 1) :: u32) = (of_nat (k + 1) :: u64)" by simp
  then have "ucast (key_stream k) - 1 = (of_nat k :: u64)" by (simp add: key_stream_def)
  then show ?thesis using assms by (simp add: slab_key_def unat_of_nat take_bit_nat_eq_self)
qed

text \<open>What a \<open>ph\<close> process runs as (\<open>assembly.rs\<close>).\<close>

datatype PhMode = PM_Node | PM_Adapter

section \<open>The endpoint lookup table\<close>

record 's EltPep =
  pep_compression_mode :: u8
  pep_tether_id :: u32
  pep_a2a_shared_secret :: "'s option"
  pep_a2a_micv_key :: "bytes option"

definition EltPep_new :: "('s \<Rightarrow> bytes) \<Rightarrow> u8 \<Rightarrow> u32 \<Rightarrow> 's option \<Rightarrow> 's EltPep" where
  "EltPep_new derive_key mode tether_id secret =
     \<lparr> pep_compression_mode = mode, pep_tether_id = tether_id,
       pep_a2a_shared_secret = secret, pep_a2a_micv_key = map_option derive_key secret \<rparr>"

datatype ('pkt, 'h, 's) EltEntry = Pending 'pkt 'h | Active "'s EltPep"

record ('ip, 'pkt, 'h, 's) EndpointLookupTable =
  elt_table :: "'ip FiveTuple \<Rightarrow> ('pkt, 'h, 's) EltEntry option"
  elt_pending :: "'h \<Rightarrow> 'ip FiveTuple option"

datatype 'pkt InsertPendingError = AlreadyPending 'pkt | DuplicateTransaction 'pkt
datatype LookupPendingError = LP_NotFound | LP_NotPending
datatype RemoveError = RE_NotFound
datatype 's SetActiveError = SA_NotFound "'s EltPep" | SA_NotPending "'s EltPep"

definition Elt_new :: "('ip, 'pkt, 'h, 's) EndpointLookupTable" where
  "Elt_new = \<lparr> elt_table = Map.empty, elt_pending = Map.empty \<rparr>"

definition Elt_clear ::
  "('ip, 'pkt, 'h, 's) EndpointLookupTable \<Rightarrow> ('ip, 'pkt, 'h, 's) EndpointLookupTable" where
  "Elt_clear t = t \<lparr> elt_table := Map.empty, elt_pending := Map.empty \<rparr>"

definition insert_pending ::
  "('ip, 'pkt, 'h, 's) EndpointLookupTable \<Rightarrow> 'ip FiveTuple \<Rightarrow> 'pkt \<Rightarrow> 'h
   \<Rightarrow> ('pkt InsertPendingError + unit) \<times> ('ip, 'pkt, 'h, 's) EndpointLookupTable" where
  "insert_pending t five_tuple init_packet txn =
     (case elt_table t five_tuple of
        Some _ \<Rightarrow> (Inl (AlreadyPending init_packet), t)
      | None \<Rightarrow>
          let t1 = t \<lparr> elt_pending := (elt_pending t) (txn \<mapsto> five_tuple) \<rparr> in
          if elt_pending t txn \<noteq> None then (Inl (DuplicateTransaction init_packet), t1)
          else (Inr (), t1 \<lparr> elt_table := (elt_table t) (five_tuple \<mapsto> Pending init_packet txn) \<rparr>))"

definition lookup_pending ::
  "('ip, 'pkt, 'h, 's) EndpointLookupTable \<Rightarrow> 'h \<Rightarrow> LookupPendingError + 'ip FiveTuple" where
  "lookup_pending t txn =
     (case elt_pending t txn of None \<Rightarrow> Inl LP_NotFound | Some ft \<Rightarrow> Inr ft)"

text \<open>The check that both tables agree, shared by the two operations that end a bind.\<close>

definition remove_txn ::
  "('ip, 'pkt, 'h, 's) EndpointLookupTable \<Rightarrow> 'h \<Rightarrow> 'ip FiveTuple
   \<Rightarrow> ('ip, 'pkt, 'h, 's) EndpointLookupTable res" where
  "remove_txn t txn five_tuple =
     bindR (assertR ''ELT consistency error'' (elt_pending t txn = Some five_tuple))
       (\<lambda>_. Inr (t \<lparr> elt_pending := (elt_pending t) (txn := None) \<rparr>))"

definition set_active ::
  "('ip, 'pkt, 'h, 's) EndpointLookupTable \<Rightarrow> 'ip FiveTuple \<Rightarrow> 's EltPep
   \<Rightarrow> (('s SetActiveError + ('pkt \<times> 'h)) \<times> ('ip, 'pkt, 'h, 's) EndpointLookupTable) res" where
  "set_active t five_tuple pep =
     (case elt_table t five_tuple of
        None \<Rightarrow> Inr (Inl (SA_NotFound pep), t)
      | Some (Active _) \<Rightarrow> Inr (Inl (SA_NotPending pep), t)
      | Some (Pending packet txn) \<Rightarrow>
          bindR (remove_txn (t \<lparr> elt_table := (elt_table t) (five_tuple \<mapsto> Active pep) \<rparr>) txn five_tuple)
            (\<lambda>t'. Inr (Inr (packet, txn), t')))"

definition Elt_remove ::
  "('ip, 'pkt, 'h, 's) EndpointLookupTable \<Rightarrow> 'ip FiveTuple
   \<Rightarrow> ((RemoveError + ('pkt, 'h, 's) EltEntry) \<times> ('ip, 'pkt, 'h, 's) EndpointLookupTable) res" where
  "Elt_remove t five_tuple =
     (case elt_table t five_tuple of
        None \<Rightarrow> Inr (Inl RE_NotFound, t)
      | Some entry \<Rightarrow>
          let t1 = t \<lparr> elt_table := (elt_table t) (five_tuple := None) \<rparr> in
          (case entry of
             Pending _ txn \<Rightarrow>
               bindR (remove_txn t1 txn five_tuple) (\<lambda>t'. Inr (Inr entry, t'))
           | Active _ \<Rightarrow> Inr (Inr entry, t1)))"

section \<open>The dock lookup table\<close>

record ('ip, 's) DltPep =
  dlt_tc :: "'ip Ip5TupleTc"
  dlt_a2a_shared_secret :: "'s option"
  dlt_a2a_micv_key :: "bytes option"

definition DltPep_new :: "('s \<Rightarrow> bytes) \<Rightarrow> 'ip Ip5TupleTc \<Rightarrow> 's option \<Rightarrow> ('ip, 's) DltPep" where
  "DltPep_new derive_key tc secret =
     \<lparr> dlt_tc = tc, dlt_a2a_shared_secret = secret, dlt_a2a_micv_key = map_option derive_key secret \<rparr>"

definition DOCK_LOOKUP_TABLE_SIZE :: nat where
  "DOCK_LOOKUP_TABLE_SIZE = 2 ^ 20"

type_synonym ('ip, 's) DockLookupTable = "('ip, 's) DltPep slab"

definition Dlt_get :: "('ip, 's) DockLookupTable \<Rightarrow> u32 \<Rightarrow> ('ip, 's) DltPep option" where
  "Dlt_get t tether_id = t (slab_key tether_id)"

definition Dlt_insert ::
  "(('ip, 's) DockLookupTable \<Rightarrow> nat option) \<Rightarrow> ('ip, 's) DockLookupTable \<Rightarrow> ('ip, 's) DltPep
   \<Rightarrow> (u32 \<times> ('ip, 's) DockLookupTable) option" where
  "Dlt_insert vacant_key t pep =
     (case vacant_key t of None \<Rightarrow> None | Some k \<Rightarrow> Some (key_stream k, t (k \<mapsto> pep)))"

definition Dlt_remove :: "('ip, 's) DockLookupTable \<Rightarrow> u32 \<Rightarrow> ('ip, 's) DockLookupTable" where
  "Dlt_remove t tether_id = t (slab_key tether_id := None)"

definition Dlt_clear :: "('ip, 's) DockLookupTable \<Rightarrow> ('ip, 's) DockLookupTable" where
  "Dlt_clear t = Map.empty"

section \<open>Consistency of the endpoint lookup table\<close>

text \<open>The pending transactions and the pending flows are in bijection.\<close>

definition elt_ok :: "('ip, 'pkt, 'h, 's) EndpointLookupTable \<Rightarrow> bool" where
  "elt_ok t \<longleftrightarrow>
     (\<forall>txn ft. elt_pending t txn = Some ft \<longleftrightarrow> (\<exists>p. elt_table t ft = Some (Pending p txn)))"

lemma elt_okD: "elt_ok t \<Longrightarrow> elt_table t ft = Some (Pending p txn) \<Longrightarrow> elt_pending t txn = Some ft"
  by (auto simp: elt_ok_def)

lemma elt_okE:
  assumes "elt_ok t" and "elt_pending t txn = Some ft"
  obtains p where "elt_table t ft = Some (Pending p txn)"
  using assms by (auto simp: elt_ok_def)

lemma elt_ok_new [simp]: "elt_ok Elt_new"
  by (simp add: elt_ok_def Elt_new_def)

lemma elt_ok_clear [simp]: "elt_ok (Elt_clear t)"
  by (simp add: elt_ok_def Elt_clear_def)

lemma insert_pending_ok:
  assumes "elt_ok t" and "elt_pending t txn = None" and "elt_table t ft = None"
  shows "\<exists>t'. insert_pending t ft p txn = (Inr (), t') \<and> elt_ok t'
    \<and> elt_table t' = (elt_table t) (ft \<mapsto> Pending p txn)
    \<and> elt_pending t' = (elt_pending t) (txn \<mapsto> ft)"
  using assms by (auto simp: insert_pending_def Let_def elt_ok_def) (metis option.distinct(1))

lemma insert_pending_taken:
  "elt_table t ft = Some e \<Longrightarrow> insert_pending t ft p txn = (Inl (AlreadyPending p), t)"
  by (simp add: insert_pending_def)

lemma set_active_ok:
  assumes "elt_ok t" and "elt_table t ft = Some (Pending p txn)"
  shows "\<exists>t'. set_active t ft pep = Inr (Inr (p, txn), t') \<and> elt_ok t'
    \<and> elt_table t' = (elt_table t) (ft \<mapsto> Active pep)
    \<and> elt_pending t' = (elt_pending t) (txn := None)"
  using assms elt_okD [OF assms]
  by (auto simp: set_active_def remove_txn_def assertR_def elt_ok_def) (metis option.inject)

lemma Elt_remove_pending:
  assumes "elt_ok t" and "elt_table t ft = Some (Pending p txn)"
  shows "\<exists>t'. Elt_remove t ft = Inr (Inr (Pending p txn), t') \<and> elt_ok t'
    \<and> elt_table t' = (elt_table t) (ft := None)
    \<and> elt_pending t' = (elt_pending t) (txn := None)"
  using assms elt_okD [OF assms]
  by (auto simp: Elt_remove_def remove_txn_def assertR_def elt_ok_def Let_def) (metis option.inject)

end
