(* ===== verification/Forwarding_Tables.thy ===== *)
theory Forwarding_Tables
  imports Adapter_Tables
begin

text \<open>
  Kinds of links and peers (\<open>link_state.rs\<close>, \<open>peer_table.rs\<close>) and the peer forwarding
  table of a node, \<open>adapter/ph/src/forwarding_tables.rs\<close>, a slab like the dock lookup
  table.  The well-known link IDs are constants of the \<open>zpr\<close> crate and arguments here.
\<close>

datatype LinkType = Internal | NodeToAdapter | AdapterToNode | NodeToNode

datatype PeerType = PT_Node | PT_Adapter | PT_Dock | PT_Unknown

definition peer_type_of :: "u32 \<Rightarrow> u32 \<Rightarrow> LinkType \<Rightarrow> u32 \<Rightarrow> PeerType" where
  "peer_type_of local_actor_link_id dock_link_id link_type link_id =
     (case link_type of
        Internal \<Rightarrow>
          if link_id = local_actor_link_id then PT_Adapter
          else if link_id = dock_link_id then PT_Dock else PT_Unknown
      | NodeToAdapter \<Rightarrow> PT_Adapter
      | AdapterToNode \<Rightarrow> PT_Dock
      | NodeToNode \<Rightarrow> PT_Node)"

text \<open>What adding a peer or starting its link can fail with (\<open>peer_table.rs\<close>).\<close>

datatype PeerInsertError = TableFull | FailedToStart string

datatype ForwardingEntry = ForwardingEntry (fe_link: u32) (fe_stream: u32)

record PftPep =
  next_hop :: ForwardingEntry
  pep_visa_id :: u64

definition PEER_FORWARDING_TABLE_SIZE :: nat where
  "PEER_FORWARDING_TABLE_SIZE = 2 ^ 20"

type_synonym PeerForwardingTable = "PftPep slab"

definition Pft_new :: PeerForwardingTable where
  "Pft_new = Map.empty"

definition Pft_get :: "PeerForwardingTable \<Rightarrow> u32 \<Rightarrow> PftPep option" where
  "Pft_get t tether_id = t (slab_key tether_id)"

text \<open>A vacant entry is the key it will fill; the lock it holds keeps it vacant.\<close>

definition Pft_vacant_entry ::
  "(PeerForwardingTable \<Rightarrow> nat option) \<Rightarrow> PeerForwardingTable \<Rightarrow> nat option" where
  "Pft_vacant_entry vacant_key t = vacant_key t"

definition Vacant_key :: "nat \<Rightarrow> u32" where
  "Vacant_key k = key_stream k"

definition Vacant_insert :: "PeerForwardingTable \<Rightarrow> nat \<Rightarrow> PftPep \<Rightarrow> u32 \<times> PeerForwardingTable" where
  "Vacant_insert t k pep = (key_stream k, t (k \<mapsto> pep))"

definition Pft_insert ::
  "(PeerForwardingTable \<Rightarrow> nat option) \<Rightarrow> PeerForwardingTable \<Rightarrow> PftPep
   \<Rightarrow> (u32 \<times> PeerForwardingTable) option" where
  "Pft_insert vacant_key t pep =
     (case Pft_vacant_entry vacant_key t of
        None \<Rightarrow> None
      | Some k \<Rightarrow> Some (Vacant_insert t k pep))"

definition Pft_remove :: "PeerForwardingTable \<Rightarrow> u32 \<Rightarrow> PeerForwardingTable" where
  "Pft_remove t tether_id = t (slab_key tether_id := None)"

text \<open>\<open>PeerForwardingTable::clear\<close> has an empty body.\<close>

definition Pft_clear :: "PeerForwardingTable \<Rightarrow> PeerForwardingTable" where
  "Pft_clear t = t"

lemma Pft_get_inserted:
  assumes "slab_ok PEER_FORWARDING_TABLE_SIZE vacant_key"
    and "Pft_insert vacant_key t pep = Some (i, t')"
  shows "Pft_get t' i = Some pep" "i \<noteq> 0" "Pft_get t i = None"
    "\<And>j. slab_key j \<noteq> slab_key i \<Longrightarrow> Pft_get t' j = Pft_get t j"
proof -
  obtain k where k: "vacant_key t = Some k" "i = key_stream k" "t' = t (k \<mapsto> pep)"
    using assms(2)
    by (auto simp: Pft_insert_def Pft_vacant_entry_def Vacant_insert_def split: option.splits)
  have "t k = None" "k < 2 ^ 20"
    using assms(1) k(1) by (auto simp: slab_ok_def PEER_FORWARDING_TABLE_SIZE_def)
  then have key: "slab_key i = k" using k(2) slab_key_stream by simp
  show "Pft_get t' i = Some pep" "Pft_get t i = None"
    using key k \<open>t k = None\<close> by (simp_all add: Pft_get_def)
  show "i \<noteq> 0"
  proof
    assume "i = 0"
    then have "k = unat (- 1 :: u64)" using key by (simp add: slab_key_def)
    then show False using \<open>k < 2 ^ 20\<close> by (simp add: unsigned_minus_1_eq_mask mask_eq_exp_minus_1)
  qed
  show "\<And>j. slab_key j \<noteq> slab_key i \<Longrightarrow> Pft_get t' j = Pft_get t j"
    using key k by (simp add: Pft_get_def)
qed

lemma slab_key_inj: "slab_key i = slab_key j \<Longrightarrow> i = j"
proof -
  assume "slab_key i = slab_key j"
  then have "(ucast i :: u64) - 1 = ucast j - 1"
    by (simp add: slab_key_def word_unat_eq_iff)
  then have "(ucast i :: u64) = ucast j" by simp
  moreover have "(ucast (ucast w :: u64) :: u32) = w" for w :: u32
    by (rule bit_word_eqI) (simp add: bit_simps)
  ultimately show "i = j" by metis
qed

end
