(* ===== verification/Mgmt_Adapter.thy ===== *)
theory Mgmt_Adapter
  imports Forwarding_Tables Counters
begin

text \<open>
  How an adapter obtains and ends tethers: the bind worker
  (\<open>adapter/ph/src/adapter_manager_worker.rs\<close>), the adapter interface
  (\<open>mgmt/adapter.rs\<close>) and the message handlers that call it (\<open>mgmt/handlers.rs\<close>), down
  to the bytes of the messages.  The state holds the two lookup tables and what
  these functions use of the dock link; a handle of its transaction manager is its
  transaction ID.  The functions of external crates are the record \<open>adapter_env\<close>.
\<close>

section \<open>The state\<close>


record 'ip flow_packet =
  fp_five_tuple :: "'ip FiveTuple"
  fp_body :: bytes

datatype 'ip adapter_msg =
    Bind_actor_address_request u16 L3Type bytes
  | Bind_egress_stream_success u16 u32
  | Bind_egress_stream_error u16 string

record ('ip, 's) adapter =
  elt :: "('ip, 'ip flow_packet, u16, 's) EndpointLookupTable"
  dlt :: "('ip, 's) DockLookupTable"
  ph_mode :: PhMode
  dock_present :: bool
  dock_ready :: bool
  dock_txns :: TxnMgr
  actor_addresses :: "'ip list"
  aaa_address :: "'ip option"
  bind_tasks :: "u16 list"
  adapter_sent :: "'ip adapter_msg list"
  requeued :: "'ip flow_packet list"
  adapter_counters :: mgmt_counters

record ('ip, 's) adapter_env =
  env_ip :: "'ip ip_ops"
  env_link_local :: "'ip \<Rightarrow> bool"
  env_dh :: "bytes \<Rightarrow> 's"
  env_derive_key :: "'s \<Rightarrow> bytes"
  env_src_present :: u8
  env_dst_present :: u8
  env_tcst_ip5 :: u8
  env_vacant_key :: "('ip, 's) DockLookupTable \<Rightarrow> nat option"

datatype HandleMgmtError =
    HE_UnknownType u8 | HE_MessageNotPermitted | HE_BadStructure | HE_UnknownTransaction
  | HE_LinkStateError | HE_LinkClosed

datatype AdapterInstallTetherError = NoSuchTransaction

section \<open>The adapter interface\<close>

definition adapter_owns_address :: "('ip, 's) adapter \<Rightarrow> 'ip \<Rightarrow> bool" where
  "adapter_owns_address a addr \<longleftrightarrow>
     dock_present a \<and> dock_ready a \<and> (addr \<in> set (actor_addresses a) \<or> aaa_address a = Some addr)"

definition adapter_count :: "('ip, 's) adapter \<Rightarrow> ManagementCounterType \<Rightarrow> ('ip, 's) adapter" where
  "adapter_count a e = a \<lparr> adapter_counters := count_event (adapter_counters a) e \<rparr>"

text \<open>The end of the life of \<open>n\<close> handles of a transaction.\<close>

definition drop_txn :: "nat \<Rightarrow> ('ip, 's) adapter \<Rightarrow> u16 \<Rightarrow> ('ip, 's) adapter res" where
  "drop_txn n a txn =
     bindR (drop_handles deref_txn (dock_txns a) (replicate n txn))
       (\<lambda>m. Inr (a \<lparr> dock_txns := m \<rparr>))"

definition shared_secret :: "('ip, 's) adapter_env \<Rightarrow> bytes option \<Rightarrow> 's option" where
  "shared_secret env pubkey = map_option (env_dh env) pubkey"

definition bind_egress_stream ::
  "('ip, 's) adapter_env \<Rightarrow> ('ip, 's) adapter \<Rightarrow> u16 \<Rightarrow> 'ip Ip5TupleTc \<Rightarrow> bytes option
   \<Rightarrow> ('ip, 's) adapter" where
  "bind_egress_stream env a txn_id tc pubkey =
     (let pep = DltPep_new (env_derive_key env) tc (shared_secret env pubkey) in
      case Dlt_insert (env_vacant_key env) (dlt a) pep of
        Some (tid, dlt') \<Rightarrow>
          a \<lparr> dlt := dlt', adapter_sent := adapter_sent a @ [Bind_egress_stream_success txn_id tid] \<rparr>
      | None \<Rightarrow>
          a \<lparr> adapter_sent := adapter_sent a @ [Bind_egress_stream_error txn_id ''DLT full''] \<rparr>)"

definition adapter_unbind_stream :: "('ip, 's) adapter \<Rightarrow> u32 \<Rightarrow> ('ip, 's) adapter" where
  "adapter_unbind_stream a stream_id = a \<lparr> dlt := Dlt_remove (dlt a) stream_id \<rparr>"

text \<open>An entry that leaves the ELT while pending takes two handles with it: its own and the
  key of the pending table.\<close>

definition drop_entry ::
  "('ip, 's) adapter \<Rightarrow> ('pkt, u16, 's) EltEntry \<Rightarrow> ('ip, 's) adapter res" where
  "drop_entry a entry = (case entry of Pending _ txn \<Rightarrow> drop_txn 2 a txn | Active _ \<Rightarrow> Inr a)"

definition install_tether ::
  "('ip, 's) adapter_env \<Rightarrow> bool \<Rightarrow> ('ip, 's) adapter \<Rightarrow> u16 \<Rightarrow> u32 \<Rightarrow> 'ip Ip5TupleTc \<Rightarrow> bytes option
   \<Rightarrow> ((AdapterInstallTetherError + unit) \<times> ('ip, 's) adapter) res" where
  "install_tether env requeue_room a txn tether_id tc pubkey =
     (case lookup_pending (elt a) txn of
        Inl _ \<Rightarrow> Inr (Inl NoSuchTransaction, a)
      | Inr five_tuple \<Rightarrow>
          if \<not> classify_5t tc five_tuple then
            bindR (Elt_remove (elt a) five_tuple) (\<lambda>(r, elt').
              case r of
                Inl _ \<Rightarrow> Inl (Unwrap_failed ''elt.remove'')
              | Inr entry \<Rightarrow>
                  bindR (drop_entry (a \<lparr> elt := elt' \<rparr>) entry) (\<lambda>a'. Inr (Inr (), a')))
          else
            let pep = EltPep_new (env_derive_key env)
                        (compression_mode (env_src_present env) (env_dst_present env) tc)
                        tether_id (shared_secret env pubkey)
            in bindR (set_active (elt a) five_tuple pep) (\<lambda>(r, elt').
              case r of
                Inl _ \<Rightarrow> Inr (Inl NoSuchTransaction, a)
              | Inr (initial_packet, h) \<Rightarrow>
                  bindR (drop_txn 2 (a \<lparr> elt := elt' \<rparr>) h) (\<lambda>a'.
                    Inr (Inr (),
                      if requeue_room then a' \<lparr> requeued := requeued a' @ [initial_packet] \<rparr>
                      else adapter_count a' M_QueueBackpressure))))"

definition deny_tether ::
  "('ip, 's) adapter \<Rightarrow> u16 \<Rightarrow> ((AdapterInstallTetherError + unit) \<times> ('ip, 's) adapter) res" where
  "deny_tether a txn =
     (case lookup_pending (elt a) txn of
        Inl _ \<Rightarrow> Inr (Inl NoSuchTransaction, a)
      | Inr five_tuple \<Rightarrow>
          bindR (Elt_remove (elt a) five_tuple) (\<lambda>(r, elt').
            case r of
              Inl _ \<Rightarrow> Inr (Inl NoSuchTransaction, a)
            | Inr entry \<Rightarrow>
                bindR (drop_entry (a \<lparr> elt := elt' \<rparr>) entry) (\<lambda>a'. Inr (Inr (), a'))))"

section \<open>The bind worker\<close>

definition do_request_tether_id ::
  "('ip, 's) adapter_env \<Rightarrow> ('ip, 's) adapter \<Rightarrow> 'ip flow_packet \<Rightarrow> ('ip, 's) adapter res" where
  "do_request_tether_id env a pkt =
     (let five_tuple = fp_five_tuple pkt in
      if env_link_local env (dst_address five_tuple) \<or> env_link_local env (src_address five_tuple)
      then Inr a
      else if \<not> dock_present a then Inr a
      else if \<not> dock_ready a then Inr (adapter_count a M_DroppedNoSA)
      else if ph_mode a = PM_Adapter \<and> \<not> adapter_owns_address a (src_address five_tuple)
      then Inr (adapter_count a M_DroppedNoSA)
      else case try_open_raw (dock_txns a) of
        (None, m) \<Rightarrow> Inr (adapter_count (a \<lparr> dock_txns := m \<rparr>) M_QueueBackpressure)
      | (Some txn, m) \<Rightarrow>
          (case insert_pending (elt a) five_tuple pkt txn of
             (Inl (AlreadyPending _), _) \<Rightarrow>
               bindR (drop_txn 1 (a \<lparr> dock_txns := m \<rparr>) txn)
                 (\<lambda>a'. Inr (adapter_count a' M_DroppedAwaitingBind))
           | (Inl (DuplicateTransaction _), _) \<Rightarrow> Inl (Assert_failed ''duplicate transaction'')
           | (Inr _, elt') \<Rightarrow>
               bindR (ref_txn m txn) (\<lambda>m1. bindR (ref_txn m1 txn) (\<lambda>m2.
                 Inr (a \<lparr> elt := elt', dock_txns := m2, bind_tasks := bind_tasks a @ [txn],
                   adapter_sent := adapter_sent a
                     @ [Bind_actor_address_request txn (l3_type five_tuple) (fp_body pkt)] \<rparr>)))))"

datatype send_result = Send_acked | Send_canceled | Send_link_closed

text \<open>The task of a bind request after the request has been answered by the link.\<close>

definition bind_task_done ::
  "('ip, 's) adapter \<Rightarrow> u16 \<Rightarrow> send_result \<Rightarrow> ('ip, 's) adapter res" where
  "bind_task_done a txn result =
     bindR (case result of
              Send_acked \<Rightarrow> Inr a
            | Send_canceled \<Rightarrow>
                bindR (deny_tether a txn) (\<lambda>(r, a').
                  case r of Inl _ \<Rightarrow> Inl (Unwrap_failed ''deny_tether'') | Inr _ \<Rightarrow> Inr a')
            | Send_link_closed \<Rightarrow> Inr a)
       (\<lambda>a'. drop_txn 1 (a' \<lparr> bind_tasks := remove1 txn (bind_tasks a') \<rparr>) txn)"

text \<open>\<open>link_down\<close> of \<open>actor_auth.rs\<close> clears both tables; the order in which the handles of
  the ELT are dropped is that of a hash map, the list \<open>hs\<close>.\<close>

definition tables_clear :: "('ip, 's) adapter \<Rightarrow> u16 list \<Rightarrow> ('ip, 's) adapter res" where
  "tables_clear a hs =
     bindR (drop_handles deref_txn (dock_txns a) hs) (\<lambda>m.
       Inr (a \<lparr> elt := Elt_clear (elt a), dlt := Dlt_clear (dlt a), dock_txns := m \<rparr>))"

section \<open>The message handlers\<close>

definition parse_a2a_pubkey :: "bytes \<Rightarrow> bytes option option" where
  "parse_a2a_pubkey buf =
     (if length buf < 2 then None
      else let key_len = unat (get_word (take 2 buf) :: u16); rest = drop 2 buf in
        if key_len = 0 then Some None
        else if length rest < key_len then None
        else if key_len \<noteq> 32 then None
        else Some (Some (take key_len rest)))"

definition handle_bind_egress_stream_request ::
  "('ip, 's) adapter_env \<Rightarrow> ('ip, 's) adapter \<Rightarrow> PeerType option \<Rightarrow> u16 \<Rightarrow> bytes
   \<Rightarrow> ((HandleMgmtError + unit) \<times> ('ip, 's) adapter) res" where
  "handle_bind_egress_stream_request env a ingress txn_id pkt =
     (if length pkt < 1 then Inr (Inl HE_BadStructure, a)
      else if pkt ! 0 \<noteq> env_tcst_ip5 env then Inr (Inl HE_BadStructure, a)
      else bindR (deserialize (env_ip env) (drop 1 pkt)) (\<lambda>r.
        case r of
          None \<Rightarrow> Inr (Inl HE_BadStructure, a)
        | Some (tc, rest) \<Rightarrow>
            (case parse_a2a_pubkey rest of
               None \<Rightarrow> Inr (Inl HE_BadStructure, a)
             | Some pubkey \<Rightarrow>
                 (case ingress of
                    None \<Rightarrow> Inr (Inr (), a)
                  | Some peer_type \<Rightarrow>
                      if peer_type \<noteq> PT_Dock then Inr (Inl HE_MessageNotPermitted, a)
                      else Inr (Inr (), bind_egress_stream env a txn_id tc pubkey)))))"

definition from_tether_result ::
  "((AdapterInstallTetherError + unit) \<times> ('ip, 's) adapter) res
   \<Rightarrow> ((HandleMgmtError + unit) \<times> ('ip, 's) adapter) res" where
  "from_tether_result m =
     bindR m (\<lambda>(r, a). Inr (case r of Inl NoSuchTransaction \<Rightarrow> Inl HE_UnknownTransaction | Inr _ \<Rightarrow> Inr (), a))"

definition bind_response_body ::
  "('ip, 's) adapter_env \<Rightarrow> bool \<Rightarrow> ('ip, 's) adapter \<Rightarrow> u16 \<Rightarrow> u32 \<Rightarrow> bytes
   \<Rightarrow> ((HandleMgmtError + unit) \<times> ('ip, 's) adapter) res" where
  "bind_response_body env requeue_room a txn stream_id pkt =
     (if length pkt < 2 then Inr (Inl HE_BadStructure, a)
      else let status_code = pkt ! 0; info_len = unat (pkt ! 1); rest = drop 2 pkt in
        if status_code = 0 then
          (if length rest < 1 then Inr (Inl HE_BadStructure, a)
           else if rest ! 0 \<noteq> env_tcst_ip5 env then Inr (Inl HE_BadStructure, a)
           else bindR (deserialize (env_ip env) (drop 1 rest)) (\<lambda>r.
             case r of
               None \<Rightarrow> Inr (Inl HE_BadStructure, a)
             | Some (tc, rest1) \<Rightarrow>
                 (case parse_a2a_pubkey rest1 of
                    None \<Rightarrow> Inr (Inl HE_BadStructure, a)
                  | Some pubkey \<Rightarrow>
                      from_tether_result (install_tether env requeue_room a txn stream_id tc pubkey))))
        else if status_code = 1 then
          (if info_len > length rest then Inr (Inl HE_BadStructure, a)
           else if \<not> is_utf8 (take info_len rest) then Inr (Inl HE_BadStructure, a)
           else from_tether_result (deny_tether a txn))
        else Inr (Inl HE_BadStructure, a))"

definition handle_bind_actor_address_response ::
  "('ip, 's) adapter_env \<Rightarrow> bool \<Rightarrow> ('ip, 's) adapter \<Rightarrow> u16 \<Rightarrow> u32 \<Rightarrow> bytes
   \<Rightarrow> ((HandleMgmtError + unit) \<times> ('ip, 's) adapter) res" where
  "handle_bind_actor_address_response env requeue_room a txn_id stream_id pkt =
     (if \<not> dock_present a then Inr (Inl HE_LinkClosed, a)
      else case txn_get (dock_txns a) txn_id of
        (None, m) \<Rightarrow> Inr (Inl HE_UnknownTransaction, a \<lparr> dock_txns := m \<rparr>)
      | (Some txn, m) \<Rightarrow>
          bindR (bind_response_body env requeue_room (a \<lparr> dock_txns := m \<rparr>) txn stream_id pkt)
            (\<lambda>(r, a'). bindR (drop_txn 1 a' txn) (\<lambda>a''. Inr (r, a''))))"

text \<open>The bodies of the two responses as the node writes them (\<open>mgmt/requests.rs\<close>).  A message longer than a byte
  can count is cut, which panics inside a character.\<close>

definition bind_actor_address_success_body ::
  "('ip, 's) adapter_env \<Rightarrow> 'ip Ip5TupleTc \<Rightarrow> bytes option \<Rightarrow> bytes res" where
  "bind_actor_address_success_body env tc pubkey =
     bindR (serialize (env_ip env) tc) (\<lambda>tc_bytes.
       Inr ([0, 0] @ [env_tcst_ip5 env] @ tc_bytes
         @ (case pubkey of
              Some key \<Rightarrow> put_word 2 (of_nat (length key) :: u16) @ key
            | None \<Rightarrow> put_word 2 (0 :: u16))))"

definition bind_actor_address_error_body :: "bytes \<Rightarrow> bytes res" where
  "bind_actor_address_error_body reason =
     bindR (assertR ''char boundary'' (length reason \<le> 255 \<or> reason ! 255 < 0x80 \<or> reason ! 255 \<ge> 0xC0)) (\<lambda>_.
       let cut = take 255 reason in Inr ([1, of_nat (length cut)] @ cut))"

datatype 'ip bind_answer = Bind_granted "'ip Ip5TupleTc" "bytes option" | Bind_refused bytes

fun bind_answer_body :: "('ip, 's) adapter_env \<Rightarrow> 'ip bind_answer \<Rightarrow> bytes res" where
  "bind_answer_body env (Bind_granted tc pubkey) = bind_actor_address_success_body env tc pubkey"
| "bind_answer_body env (Bind_refused reason) = bind_actor_address_error_body reason"

section \<open>Every handle is accounted for\<close>

definition pending_mset :: "('ip, 's) adapter \<Rightarrow> u16 multiset" where
  "pending_mset a = mset_set (dom (elt_pending (elt a)))"

text \<open>The invariant of an adapter while a handler holds the handles \<open>hs\<close>.\<close>

definition adapter_with :: "u16 multiset \<Rightarrow> ('ip, 's) adapter \<Rightarrow> bool" where
  "adapter_with hs a \<longleftrightarrow> elt_ok (elt a)
     \<and> txn_inv (dock_txns a) (hs + (mset (bind_tasks a) + pending_mset a + pending_mset a))"

lemma drop_txn_ok:
  assumes "txn_inv (dock_txns a) (replicate_mset n txn + hs)"
  shows "\<exists>m. drop_txn n a txn = Inr (a \<lparr> dock_txns := m \<rparr>) \<and> txn_inv m hs"
  using txns.drop_list [of "dock_txns a" "replicate n txn" hs] assms
  by (auto simp: drop_txn_def)

lemma adapter_with_counters [simp]:
  "adapter_with hs (adapter_count a e) = adapter_with hs a"
  "adapter_with hs (a \<lparr> requeued := q \<rparr>) = adapter_with hs a"
  "adapter_with hs (a \<lparr> adapter_sent := ms \<rparr>) = adapter_with hs a"
  "adapter_with hs (a \<lparr> dlt := d \<rparr>) = adapter_with hs a"
  "adapter_with hs (a \<lparr> adapter_counters := c \<rparr>) = adapter_with hs a"
  by (simp_all add: adapter_with_def pending_mset_def adapter_count_def)

lemma adapter_sent_dlt [simp]:
  "bind_tasks (adapter_count a e) = bind_tasks a" "elt (adapter_count a e) = elt a"
  "dock_txns (adapter_count a e) = dock_txns a"
  by (simp_all add: adapter_count_def)

lemma pending_removed:
  fixes a :: "('ip, 's) adapter"
  assumes "elt_pending (elt a) txn = Some ft" and "elt_pending t' = (elt_pending (elt a)) (txn := None)"
  shows "pending_mset a = add_mset txn (mset_set (dom (elt_pending t')))"
proof -
  have "dom (elt_pending t') = dom (elt_pending (elt a)) - {txn}" using assms(2) by auto
  moreover have "txn \<in> dom (elt_pending (elt a))" using assms(1) by auto
  ultimately show ?thesis by (simp add: pending_mset_def mset_set.remove)
qed

lemma leave_pending:
  fixes a :: "('ip, 's) adapter"
  assumes "adapter_with hs a" and "elt_pending (elt a) txn = Some ft"
    and "elt_ok t'" and "elt_pending t' = (elt_pending (elt a)) (txn := None)"
  shows "\<exists>m. drop_txn 2 (a \<lparr> elt := t' \<rparr>) txn = Inr (a \<lparr> elt := t', dock_txns := m \<rparr>)
    \<and> adapter_with hs (a \<lparr> elt := t', dock_txns := m \<rparr>)"
proof -
  let ?hs = "hs + (mset (bind_tasks a) + mset_set (dom (elt_pending t')) + mset_set (dom (elt_pending t')))"
  have "txn_inv (dock_txns (a \<lparr> elt := t' \<rparr>)) (replicate_mset 2 txn + ?hs)"
    using assms(1) pending_removed [OF assms(2,4)]
    by (simp add: adapter_with_def numeral_2_eq_2 union_assoc add_mset_commute)
  from drop_txn_ok [OF this] show ?thesis
    using assms(3) by (auto simp: adapter_with_def pending_mset_def)
qed

lemma lookup_pending_Inr: "lookup_pending t txn = Inr ft \<longleftrightarrow> elt_pending t txn = Some ft"
  by (simp add: lookup_pending_def split: option.split)

lemma lookup_pending_Inl: "lookup_pending t txn = Inl e \<longleftrightarrow> elt_pending t txn = None \<and> e = LP_NotFound"
  by (auto simp: lookup_pending_def split: option.split)

lemma deny_tether_pending:
  fixes a :: "('ip, 's) adapter"
  assumes "adapter_with hs a" and "elt_pending (elt a) txn = Some ft"
  shows "\<exists>a'. deny_tether a txn = Inr (Inr (), a') \<and> adapter_with hs a' \<and> bind_tasks a' = bind_tasks a
    \<and> elt_table (elt a') = (elt_table (elt a)) (ft := None)
    \<and> elt_pending (elt a') = (elt_pending (elt a)) (txn := None) \<and> requeued a' = requeued a"
proof -
  have ok: "elt_ok (elt a)" using assms(1) by (simp add: adapter_with_def)
  obtain p where p: "elt_table (elt a) ft = Some (Pending p txn)" by (rule elt_okE [OF ok assms(2)])
  obtain t' where t': "Elt_remove (elt a) ft = Inr (Inr (Pending p txn), t')" "elt_ok t'"
    "elt_table t' = (elt_table (elt a)) (ft := None)"
    "elt_pending t' = (elt_pending (elt a)) (txn := None)"
    using Elt_remove_pending [OF ok p] by blast
  from leave_pending [OF assms t'(2,4)] show ?thesis
    using assms(2) t' by (auto simp: deny_tether_def lookup_pending_def drop_entry_def)
qed

lemma deny_tether_unknown:
  "elt_pending (elt a) txn = None \<Longrightarrow> deny_tether a txn = Inr (Inl NoSuchTransaction, a)"
  by (simp add: deny_tether_def lookup_pending_def)

lemma install_tether_unknown:
  "elt_pending (elt a) txn = None \<Longrightarrow>
   install_tether env room a txn tid tc key = Inr (Inl NoSuchTransaction, a)"
  by (simp add: install_tether_def lookup_pending_def)

lemma install_tether_mismatch:
  fixes a :: "('ip, 's) adapter"
  assumes "adapter_with hs a" and "elt_pending (elt a) txn = Some ft" and "\<not> classify_5t tc ft"
  shows "\<exists>a'. install_tether env room a txn tid tc key = Inr (Inr (), a')
    \<and> adapter_with hs a' \<and> bind_tasks a' = bind_tasks a
    \<and> elt_table (elt a') = (elt_table (elt a)) (ft := None)
    \<and> elt_pending (elt a') = (elt_pending (elt a)) (txn := None) \<and> requeued a' = requeued a"
proof -
  have ok: "elt_ok (elt a)" using assms(1) by (simp add: adapter_with_def)
  obtain p where p: "elt_table (elt a) ft = Some (Pending p txn)" by (rule elt_okE [OF ok assms(2)])
  obtain t' where t': "Elt_remove (elt a) ft = Inr (Inr (Pending p txn), t')" "elt_ok t'"
    "elt_table t' = (elt_table (elt a)) (ft := None)"
    "elt_pending t' = (elt_pending (elt a)) (txn := None)"
    using Elt_remove_pending [OF ok p] by blast
  from leave_pending [OF assms(1,2) t'(2,4)] show ?thesis
    using assms(2,3) t' by (auto simp: install_tether_def lookup_pending_def drop_entry_def)
qed

lemma install_tether_match:
  fixes a :: "('ip, 's) adapter"
  assumes "adapter_with hs a" and "elt_pending (elt a) txn = Some ft" and "classify_5t tc ft"
    and p: "elt_table (elt a) ft = Some (Pending p txn)"
  shows "\<exists>a'. install_tether env room a txn tid tc key = Inr (Inr (), a')
    \<and> adapter_with hs a' \<and> bind_tasks a' = bind_tasks a
    \<and> elt_table (elt a') = (elt_table (elt a)) (ft \<mapsto> Active (EltPep_new (env_derive_key env)
        (compression_mode (env_src_present env) (env_dst_present env) tc) tid (shared_secret env key)))
    \<and> elt_pending (elt a') = (elt_pending (elt a)) (txn := None)
    \<and> requeued a' = requeued a @ (if room then [p] else [])"
proof -
  have ok: "elt_ok (elt a)" using assms(1) by (simp add: adapter_with_def)
  define pep where "pep = EltPep_new (env_derive_key env)
      (compression_mode (env_src_present env) (env_dst_present env) tc) tid (shared_secret env key)"
  obtain t' where t': "set_active (elt a) ft pep = Inr (Inr (p, txn), t')" "elt_ok t'"
    "elt_table t' = (elt_table (elt a)) (ft \<mapsto> Active pep)"
    "elt_pending t' = (elt_pending (elt a)) (txn := None)"
    using set_active_ok [OF ok p, of pep] by blast
  from leave_pending [OF assms(1,2) t'(2,4)] obtain m where
    m: "drop_txn 2 (a \<lparr> elt := t' \<rparr>) txn = Inr (a \<lparr> elt := t', dock_txns := m \<rparr>)"
       "adapter_with hs (a \<lparr> elt := t', dock_txns := m \<rparr>)" by blast
  have "install_tether env room a txn tid tc key = Inr (Inr (),
      if room then a \<lparr> elt := t', dock_txns := m, requeued := requeued a @ [p] \<rparr>
      else adapter_count (a \<lparr> elt := t', dock_txns := m \<rparr>) M_QueueBackpressure)"
    using assms(2,3) t'(1) m(1) by (simp add: install_tether_def lookup_pending_def pep_def [symmetric])
  then show ?thesis using m(2) t'(3,4) by (cases room) (auto simp: adapter_count_def pep_def)
qed

section \<open>The adapter as a system\<close>

inductive adapter_step :: "('ip, 's) adapter_env \<Rightarrow> ('ip, 's) adapter \<Rightarrow> ('ip, 's) adapter \<Rightarrow> bool"
  for env where
  request: "do_request_tether_id env a pkt = Inr a' \<Longrightarrow> adapter_step env a a'"
| response: "handle_bind_actor_address_response env room a txn_id stream_id pkt = Inr (r, a')
    \<Longrightarrow> adapter_step env a a'"
| egress: "handle_bind_egress_stream_request env a ingress txn_id pkt = Inr (r, a')
    \<Longrightarrow> adapter_step env a a'"
| unbind: "adapter_step env a (adapter_unbind_stream a stream_id)"
| task: "txn \<in> set (bind_tasks a) \<Longrightarrow> bind_task_done a txn result = Inr a' \<Longrightarrow> adapter_step env a a'"
| clear: "mset hs = pending_mset a + pending_mset a \<Longrightarrow> tables_clear a hs = Inr a'
    \<Longrightarrow> adapter_step env a a'"
| link: "adapter_step env a
    (a \<lparr> dock_ready := ready, actor_addresses := addrs, aaa_address := aaa \<rparr>)"

definition adapter_start :: "PhMode \<Rightarrow> ('ip, 's) adapter" where
  "adapter_start mode = \<lparr> elt = Elt_new, dlt = Map.empty, ph_mode = mode, dock_present = True,
     dock_ready = False, dock_txns = TxnMgr_new, actor_addresses = [], aaa_address = None,
     bind_tasks = [], adapter_sent = [], requeued = [], adapter_counters = (\<lambda>_. 0) \<rparr>"

inductive adapter_reach :: "('ip, 's) adapter_env \<Rightarrow> ('ip, 's) adapter \<Rightarrow> bool" for env where
  start: "adapter_reach env (adapter_start mode)"
| step: "adapter_reach env a \<Longrightarrow> adapter_step env a a' \<Longrightarrow> adapter_reach env a'"

lemma adapter_withD:
  "adapter_with hs a \<Longrightarrow> elt_ok (elt a)"
  "adapter_with hs a \<Longrightarrow>
    txn_inv (dock_txns a) (hs + (mset (bind_tasks a) + pending_mset a + pending_mset a))"
  by (simp_all add: adapter_with_def)

lemma bind_opened_ok:
  fixes a :: "('ip, 's) adapter" and pkt :: "'ip flow_packet"
  defines "ft \<equiv> fp_five_tuple pkt"
  assumes inv: "adapter_with {#} a" and o: "try_open_raw (dock_txns a) = (Some txn, m)"
  shows "\<exists>a'. (case insert_pending (elt a) ft pkt txn of
             (Inl (AlreadyPending _), _) \<Rightarrow>
               bindR (drop_txn 1 (a \<lparr> dock_txns := m \<rparr>) txn)
                 (\<lambda>a'. Inr (adapter_count a' M_DroppedAwaitingBind))
           | (Inl (DuplicateTransaction _), _) \<Rightarrow> Inl (Assert_failed ''duplicate transaction'')
           | (Inr _, elt') \<Rightarrow>
               bindR (ref_txn m txn) (\<lambda>m1. bindR (ref_txn m1 txn) (\<lambda>m2.
                 Inr (a \<lparr> elt := elt', dock_txns := m2, bind_tasks := bind_tasks a @ [txn],
                   adapter_sent := adapter_sent a
                     @ [Bind_actor_address_request txn (l3_type ft) (fp_body pkt)] \<rparr>)))) = Inr a'
    \<and> adapter_with {#} a'"
proof -
  let ?hs = "mset (bind_tasks a) + pending_mset a + pending_mset a"
  have tinv: "txn_inv (dock_txns a) ?hs" using adapter_withD(2) [OF inv] by simp
  have fresh: "txn \<notin># ?hs" and m: "txn_inv m (add_mset txn ?hs)"
    using txns.open_law [OF tinv o] by blast+
  have np: "elt_pending (elt a) txn = None" using fresh by (auto simp: pending_mset_def)
  show ?thesis
  proof (cases "elt_table (elt a) ft")
    case None
    obtain t' where t': "insert_pending (elt a) ft pkt txn = (Inr (), t')" "elt_ok t'"
      "elt_pending t' = (elt_pending (elt a)) (txn \<mapsto> ft)"
      using insert_pending_ok [OF adapter_withD(1) [OF inv] np None] by blast
    obtain m1 where m1: "ref_txn m txn = Inr m1" "txn_inv m1 (add_mset txn (add_mset txn ?hs))"
      using txns.ref_law [OF m, of txn] by auto
    obtain m2 where m2: "ref_txn m1 txn = Inr m2" "txn_inv m2 (add_mset txn (add_mset txn (add_mset txn ?hs)))"
      using txns.ref_law [OF m1(2), of txn] by auto
    have "mset_set (dom (elt_pending t')) = add_mset txn (pending_mset a)"
      using np by (simp add: t'(3) pending_mset_def domIff)
    then show ?thesis
      using m1(1) m2 t' by (simp add: adapter_with_def pending_mset_def)
  next
    case (Some e)
    have "txn_inv (dock_txns (a \<lparr> dock_txns := m \<rparr>)) (replicate_mset 1 txn + ?hs)" using m by simp
    from drop_txn_ok [OF this] show ?thesis
      using insert_pending_taken [OF Some, of pkt txn] inv
      by (auto simp: adapter_with_def pending_mset_def)
  qed
qed

lemma do_request_tether_id_ok:
  fixes a :: "('ip, 's) adapter"
  assumes inv: "adapter_with {#} a"
  shows "\<exists>a'. do_request_tether_id env a pkt = Inr a' \<and> adapter_with {#} a'"
proof -
  obtain o' m where o: "try_open_raw (dock_txns a) = (o', m)" by (cases "try_open_raw (dock_txns a)")
  show ?thesis
  proof (cases o')
    case None
    have "txn_inv m (mset (bind_tasks a) + pending_mset a + pending_mset a)"
      using txns.open_full [OF _ o [unfolded None]] adapter_withD(2) [OF inv] by simp
    then show ?thesis
      using o None inv
      by (auto simp: do_request_tether_id_def Let_def adapter_with_def pending_mset_def)
  next
    case (Some txn)
    then show ?thesis
      using bind_opened_ok [OF inv o [unfolded Some], of pkt] o inv
      by (auto simp: do_request_tether_id_def Let_def)
  qed
qed

lemma install_tether_ok:
  fixes a :: "('ip, 's) adapter"
  assumes inv: "adapter_with hs a"
  shows "\<exists>r a'. install_tether env room a txn tid tc key = Inr (r, a')
    \<and> adapter_with hs a' \<and> bind_tasks a' = bind_tasks a"
proof (cases "elt_pending (elt a) txn")
  case None
  then show ?thesis using install_tether_unknown inv by blast
next
  case (Some ft)
  obtain p where p: "elt_table (elt a) ft = Some (Pending p txn)"
    by (rule elt_okE [OF adapter_withD(1) [OF inv] Some])
  then show ?thesis
    using install_tether_match [OF inv Some] install_tether_mismatch [OF inv Some] by blast
qed

lemma deny_tether_ok:
  fixes a :: "('ip, 's) adapter"
  assumes inv: "adapter_with hs a"
  shows "\<exists>r a'. deny_tether a txn = Inr (r, a') \<and> adapter_with hs a' \<and> bind_tasks a' = bind_tasks a"
  using deny_tether_unknown [of a txn] deny_tether_pending [OF inv, of txn] inv
  by (cases "elt_pending (elt a) txn") blast+

lemma from_tether_result_ok:
  "m = Inr (r, a') \<Longrightarrow> \<exists>r'. from_tether_result m = Inr (r', a')"
  by (simp add: from_tether_result_def)

lemma bind_response_body_ok:
  fixes a :: "('ip, 's) adapter"
  assumes inv: "adapter_with hs a"
  shows "\<exists>r a'. bind_response_body env room a txn sid pkt = Inr (r, a')
    \<and> adapter_with hs a' \<and> bind_tasks a' = bind_tasks a"
proof -
  have inst: "\<exists>r a'. from_tether_result (install_tether env room a txn sid tc key) = Inr (r, a')
      \<and> adapter_with hs a' \<and> bind_tasks a' = bind_tasks a" for tc key
    using install_tether_ok [OF inv, of env room txn sid tc key] from_tether_result_ok by blast
  have deny: "\<exists>r a'. from_tether_result (deny_tether a txn) = Inr (r, a')
      \<and> adapter_with hs a' \<and> bind_tasks a' = bind_tasks a"
    using deny_tether_ok [OF inv, of txn] from_tether_result_ok by blast
  obtain d where d: "deserialize (env_ip env) (drop 1 (drop 2 pkt)) = Inr d"
    using deserialize_ok by blast
  show ?thesis
    using inst deny inv d
    by (auto simp: bind_response_body_def Let_def split: option.split)
qed

lemma handle_bind_actor_address_response_ok:
  fixes a :: "('ip, 's) adapter"
  assumes inv: "adapter_with {#} a"
  shows "\<exists>r a'. handle_bind_actor_address_response env room a txn_id sid pkt = Inr (r, a')
    \<and> adapter_with {#} a'"
proof -
  let ?hs = "mset (bind_tasks a) + pending_mset a + pending_mset a"
  have tinv: "txn_inv (dock_txns a) ?hs" using adapter_withD(2) [OF inv] by simp
  show ?thesis
  proof (cases "dock_present a \<and> txn_id \<in># ?hs")
    case True
    then obtain m where m: "txn_get (dock_txns a) txn_id = (Some txn_id, m)" "txn_inv m (add_mset txn_id ?hs)"
      using txns.get_law [OF tinv, of txn_id] by blast
    let ?a = "a \<lparr> dock_txns := m \<rparr>"
    have "adapter_with {#txn_id#} ?a"
      using inv m(2) by (simp add: adapter_with_def pending_mset_def)
    then obtain r a' where b: "bind_response_body env room ?a txn_id sid pkt = Inr (r, a')"
      and inv': "adapter_with {#txn_id#} a'"
      using bind_response_body_ok by blast
    have "txn_inv (dock_txns a') (replicate_mset 1 txn_id
        + (mset (bind_tasks a') + pending_mset a' + pending_mset a'))"
      using adapter_withD(2) [OF inv'] by simp
    from drop_txn_ok [OF this] show ?thesis
      using True m(1) b adapter_withD(1) [OF inv']
      by (auto simp: handle_bind_actor_address_response_def adapter_with_def pending_mset_def)
  next
    case False
    then show ?thesis
      using inv txns.get_closed [OF tinv, of txn_id]
      by (auto simp: handle_bind_actor_address_response_def)
  qed
qed

lemma handle_bind_egress_stream_request_ok:
  fixes a :: "('ip, 's) adapter"
  assumes inv: "adapter_with {#} a"
  shows "\<exists>r a'. handle_bind_egress_stream_request env a ingress txn_id pkt = Inr (r, a')
    \<and> adapter_with {#} a'"
proof -
  obtain d where d: "deserialize (env_ip env) (drop 1 pkt) = Inr d" using deserialize_ok by blast
  have "adapter_with {#} (bind_egress_stream env a txn_id tc key)" for tc key
    using inv
    by (auto simp: bind_egress_stream_def Let_def adapter_with_def pending_mset_def split: option.split)
  then show ?thesis
    using d inv by (auto simp: handle_bind_egress_stream_request_def split: option.split)
qed

lemma bind_task_done_ok:
  fixes a :: "('ip, 's) adapter"
  assumes inv: "adapter_with {#} a" and txn: "txn \<in> set (bind_tasks a)"
    and "bind_task_done a txn result = Inr a'"
  shows "adapter_with {#} a'"
proof -
  have fin: "adapter_with {#} a''"
    if inv1: "adapter_with {#} a1" and tasks: "bind_tasks a1 = bind_tasks a"
      and d: "drop_txn 1 (a1 \<lparr> bind_tasks := remove1 txn (bind_tasks a1) \<rparr>) txn = Inr a''" for a1 a''
  proof -
    let ?hs = "mset (remove1 txn (bind_tasks a)) + pending_mset a1 + pending_mset a1"
    obtain M where M: "mset (bind_tasks a) = add_mset txn M"
      using txn by (metis in_multiset_in_set mset_add)
    then have "mset (remove1 txn (bind_tasks a)) = M" by simp
    with M have "txn_inv (dock_txns (a1 \<lparr> bind_tasks := remove1 txn (bind_tasks a1) \<rparr>)) (replicate_mset 1 txn + ?hs)"
      using adapter_withD(2) [OF inv1] tasks by simp
    from drop_txn_ok [OF this] d show ?thesis
      using adapter_withD(1) [OF inv1] tasks by (auto simp: adapter_with_def pending_mset_def)
  qed
  have "\<exists>r a1. deny_tether a txn = Inr (r, a1) \<and> adapter_with {#} a1 \<and> bind_tasks a1 = bind_tasks a"
    by (rule deny_tether_ok [OF inv])
  then show ?thesis
    using assms(3) inv fin
    by (auto simp: bind_task_done_def res_simps split: send_result.splits sum.splits)
qed

lemma bind_task_done_panics:
  fixes a :: "('ip, 's) adapter"
  assumes inv: "adapter_with {#} a" and txn: "txn \<in> set (bind_tasks a)"
  shows "bind_task_done a txn result = Inl e \<longleftrightarrow>
    result = Send_canceled \<and> elt_pending (elt a) txn = None \<and> e = Unwrap_failed ''deny_tether''"
proof -
  have fin: "\<exists>a''. drop_txn 1 (a1 \<lparr> bind_tasks := remove1 txn (bind_tasks a1) \<rparr>) txn = Inr a''"
    if "adapter_with {#} a1" "bind_tasks a1 = bind_tasks a" for a1
  proof -
    obtain M where M: "mset (bind_tasks a) = add_mset txn M"
      using txn by (metis in_multiset_in_set mset_add)
    then have "mset (remove1 txn (bind_tasks a)) = M" by simp
    with M have "txn_inv (dock_txns (a1 \<lparr> bind_tasks := remove1 txn (bind_tasks a1) \<rparr>))
        (replicate_mset 1 txn + (M + pending_mset a1 + pending_mset a1))"
      using adapter_withD(2) [OF that(1)] that(2) by simp
    from drop_txn_ok [OF this] show ?thesis by blast
  qed
  show ?thesis
  proof (cases "elt_pending (elt a) txn")
    case None
    then show ?thesis
      using fin [OF inv refl] by (cases result) (auto simp: bind_task_done_def deny_tether_unknown)
  next
    case (Some ft)
    obtain a1 where d: "deny_tether a txn = Inr (Inr (), a1)" "adapter_with {#} a1" "bind_tasks a1 = bind_tasks a"
      using deny_tether_pending [OF inv Some] by blast
    then show ?thesis
      using fin [OF inv refl] fin [OF d(2,3)] Some by (cases result) (auto simp: bind_task_done_def)
  qed
qed

lemma tables_clear_ok:
  fixes a :: "('ip, 's) adapter"
  assumes inv: "adapter_with {#} a" and hs: "mset hs = pending_mset a + pending_mset a"
  shows "\<exists>a'. tables_clear a hs = Inr a' \<and> adapter_with {#} a' \<and> bind_tasks a' = bind_tasks a
    \<and> elt_pending (elt a') = Map.empty"
proof -
  have "txn_inv (dock_txns a) (mset hs + mset (bind_tasks a))"
    using adapter_withD(2) [OF inv] hs by (simp add: ac_simps)
  from txns.drop_list [OF this] show ?thesis
    by (auto simp: tables_clear_def adapter_with_def pending_mset_def Elt_clear_def elt_ok_def)
qed

lemma adapter_step_inv:
  assumes "adapter_step env a a'" and "adapter_with {#} a"
  shows "adapter_with {#} a'"
  using assms
proof (induction rule: adapter_step.induct)
  case (request a pkt a')
  then show ?case using do_request_tether_id_ok [of a env pkt] by auto
next
  case (response room a txn_id stream_id pkt r a')
  then show ?case
    using handle_bind_actor_address_response_ok [of a env room txn_id stream_id pkt] by auto
next
  case (egress a ingress txn_id pkt r a')
  then show ?case using handle_bind_egress_stream_request_ok [of a env ingress txn_id pkt] by auto
next
  case (task txn a result a')
  then show ?case using bind_task_done_ok by blast
next
  case (clear hs a a')
  then show ?case using tables_clear_ok [of a hs] by auto
qed (simp_all add: adapter_unbind_stream_def adapter_with_def pending_mset_def)

lemma adapter_reach_inv: "adapter_reach env a \<Longrightarrow> adapter_with {#} a"
proof (induction rule: adapter_reach.induct)
  case (start mode)
  then show ?case
    by (simp add: adapter_with_def adapter_start_def pending_mset_def Elt_new_def elt_ok_def
        txn_inv_def TxnMgr_new_def)
qed (rule adapter_step_inv)

text \<open>What a response is, to the adapter that gets it.\<close>

fun answer_ok :: "('ip, 's) adapter_env \<Rightarrow> 'ip bind_answer \<Rightarrow> bool" where
  "answer_ok env (Bind_granted tc pubkey) \<longleftrightarrow>
     wf_tc (env_ip env) tc \<and> (case pubkey of None \<Rightarrow> True | Some key \<Rightarrow> length key = 32)"
| "answer_ok env (Bind_refused reason) \<longleftrightarrow> is_utf8 reason \<and> length reason \<le> 255"

fun tether_result ::
  "('ip, 's) adapter_env \<Rightarrow> bool \<Rightarrow> ('ip, 's) adapter \<Rightarrow> u16 \<Rightarrow> u32 \<Rightarrow> 'ip bind_answer
   \<Rightarrow> ((AdapterInstallTetherError + unit) \<times> ('ip, 's) adapter) res" where
  "tether_result env room a txn sid (Bind_granted tc pubkey) = install_tether env room a txn sid tc pubkey"
| "tether_result env room a txn sid (Bind_refused reason) = deny_tether a txn"

lemma parse_a2a_pubkey_written:
  assumes "case pubkey of None \<Rightarrow> True | Some key \<Rightarrow> length key = 32"
  shows "parse_a2a_pubkey (case pubkey of
      Some key \<Rightarrow> put_word 2 (of_nat (length key) :: u16) @ key | None \<Rightarrow> put_word 2 (0 :: u16)) = Some pubkey"
  using assms by (cases pubkey) (simp_all add: parse_a2a_pubkey_def get_put_word Let_def)

lemma bind_answer_read:
  assumes "answer_ok env ans" and "bind_answer_body env ans = Inr body"
  shows "bind_response_body env room a txn sid body = from_tether_result (tether_result env room a txn sid ans)"
proof (cases ans)
  case (Bind_granted tc pubkey)
  let ?key = "case pubkey of
      Some key \<Rightarrow> put_word 2 (of_nat (length key) :: u16) @ key | None \<Rightarrow> put_word 2 (0 :: u16)"
  obtain bs where bs: "serialize (env_ip env) tc = Inr bs"
      "\<And>rest. deserialize (env_ip env) (bs @ rest) = Inr (Some (tc, rest))"
    using serialize_wf [of "env_ip env" tc] assms(1) Bind_granted by auto
  have body: "body = [0, 0] @ [env_tcst_ip5 env] @ bs @ ?key"
    using assms(2) bs(1) Bind_granted by (simp add: bind_actor_address_success_body_def)
  have "parse_a2a_pubkey ?key = Some pubkey"
    using assms(1) Bind_granted by (intro parse_a2a_pubkey_written) simp
  then show ?thesis using bs(2) [of ?key] Bind_granted by (simp add: body bind_response_body_def)
next
  case (Bind_refused reason)
  then have r: "is_utf8 reason" "length reason \<le> 255" using assms(1) by simp_all
  then have "body = [1, of_nat (length reason)] @ reason"
    using assms(2) Bind_refused by (simp add: bind_actor_address_error_body_def assertR_def Let_def)
  moreover have "unat (of_nat (length reason) :: u8) = length reason" using r(2) by (simp add: unat_of_nat)
  ultimately show ?thesis using r Bind_refused by (simp add: bind_response_body_def)
qed

lemma pending_get:
  fixes a :: "('ip, 's) adapter"
  assumes inv: "adapter_with {#} a" and "elt_table (elt a) ft = Some (Pending p txn)"
  obtains m where "txn_get (dock_txns a) txn = (Some txn, m)" and "adapter_with {#txn#} (a \<lparr> dock_txns := m \<rparr>)"
proof -
  let ?hs = "mset (bind_tasks a) + pending_mset a + pending_mset a"
  have "elt_pending (elt a) txn = Some ft" by (rule elt_okD [OF adapter_withD(1) [OF inv] assms(2)])
  then have "txn \<in># ?hs" by (auto simp: pending_mset_def)
  moreover have "txn_inv (dock_txns a) ?hs" using adapter_withD(2) [OF inv] by simp
  ultimately obtain m where "txn_get (dock_txns a) txn = (Some txn, m)" "txn_inv m (add_mset txn ?hs)"
    using txns.get_law by blast
  then show ?thesis
    using that [of m] adapter_withD(1) [OF inv] by (simp add: adapter_with_def pending_mset_def)
qed

lemma drop_one:
  fixes a :: "('ip, 's) adapter"
  assumes "adapter_with {#txn#} a"
  obtains m where "drop_txn 1 a txn = Inr (a \<lparr> dock_txns := m \<rparr>)"
  using drop_txn_ok [of a 1 txn "mset (bind_tasks a) + pending_mset a + pending_mset a"]
    adapter_withD(2) [OF assms] by auto

definition demo_env :: "(bytes, bytes) adapter_env" where
  "demo_env = \<lparr> env_ip = demo_ops, env_link_local = (\<lambda>_. False), env_dh = id, env_derive_key = id,
     env_src_present = 1, env_dst_present = 2, env_tcst_ip5 = 1,
     env_vacant_key = (\<lambda>t. if t 0 = None then Some 0 else None) \<rparr>"

definition demo_flow :: "bytes FiveTuple" where
  "demo_flow = demo_tc \<lparr> src_port := 5000 \<rparr>"

definition demo_packet :: "bytes flow_packet" where
  "demo_packet = \<lparr> fp_five_tuple = demo_flow, fp_body = [69, 0] \<rparr>"

definition demo_ready :: "(bytes, bytes) adapter" where
  "demo_ready = adapter_start PM_Adapter
     \<lparr> dock_ready := True, actor_addresses := [[10, 0, 0, 1]], aaa_address := None \<rparr>"

definition demo_bound :: "(bytes, bytes) adapter" where
  "demo_bound = projr (do_request_tether_id demo_env demo_ready demo_packet)"

lemmas demo_adapter_defs = demo_env_def demo_ready_def demo_packet_def demo_flow_def demo_tc_def
  demo_ops_def adapter_start_def do_request_tether_id_def adapter_owns_address_def try_open_raw_def
  insert_pending_def Elt_new_def TxnMgr_new_def ref_txn_def

lemma demo_bound_eq: "do_request_tether_id demo_env demo_ready demo_packet = Inr demo_bound"
  by (simp add: demo_bound_def demo_adapter_defs Let_def)

lemma demo_bound_reach: "adapter_reach demo_env demo_bound"
proof -
  have "adapter_reach demo_env demo_ready"
    unfolding demo_ready_def by (rule adapter_reach.step [OF adapter_reach.start adapter_step.link])
  then show ?thesis by (rule adapter_reach.step [OF _ adapter_step.request [OF demo_bound_eq]])
qed

lemma demo_bound_pending:
  "elt_table (elt demo_bound) demo_flow = Some (Pending demo_packet 0)" "dock_present demo_bound"
  "bind_tasks demo_bound = [0]" "dom (elt_pending (elt demo_bound)) = {0}"
  by (simp_all add: demo_bound_def demo_adapter_defs Let_def)

section \<open>The properties\<close>

text \<open>C9 (safety). Where the adapter's bind machinery panics: whatever packets the local endpoint sends, whatever bytes
the dock answers with, and however bind tasks end and the tables are cleared in between, requesting a
tether, handling a bind response or an egress bind and clearing the tables always return.  The task of a
bind request panics in exactly one case: its request is reported canceled when its flow is no longer
pending, because the response has settled it or the tables were cleared.\<close>

theorem adapter_panics_exactly:
  fixes env :: "('ip, 's) adapter_env"
  assumes "adapter_reach env a"
  shows "(\<exists>a'. do_request_tether_id env a pkt = Inr a')
    \<and> (\<exists>r. handle_bind_actor_address_response env room a txn_id stream_id bytes = Inr r)
    \<and> (\<exists>r. handle_bind_egress_stream_request env a ingress txn_id bytes = Inr r)
    \<and> (mset hs = pending_mset a + pending_mset a \<longrightarrow> (\<exists>a'. tables_clear a hs = Inr a'))
    \<and> (txn \<in> set (bind_tasks a) \<longrightarrow>
         (bind_task_done a txn result = Inl e \<longleftrightarrow>
            result = Send_canceled \<and> elt_pending (elt a) txn = None \<and> e = Unwrap_failed ''deny_tether''))"
proof -
  have inv: "adapter_with {#} a" by (rule adapter_reach_inv [OF assms])
  show ?thesis
    using do_request_tether_id_ok [OF inv, of env pkt]
      handle_bind_actor_address_response_ok [OF inv, of env room txn_id stream_id bytes]
      handle_bind_egress_stream_request_ok [OF inv, of env ingress txn_id bytes]
      tables_clear_ok [OF inv, of hs] bind_task_done_panics [OF inv, of txn result e] by blast
qed

theorem adapter_panics_exactly_witness:
  "(\<exists>r. handle_bind_actor_address_response demo_env True demo_bound 0 7 [0] = Inr r)
    \<and> (\<exists>a'. tables_clear demo_bound [0, 0] = Inr a')
    \<and> bind_task_done demo_bound 0 Send_canceled \<noteq> Inl (Unwrap_failed ''deny_tether'')"
proof -
  have "mset [0, 0] = pending_mset demo_bound + pending_mset demo_bound" "0 \<in> set (bind_tasks demo_bound)"
    by (simp_all add: pending_mset_def demo_bound_pending)
  moreover have "elt_pending (elt demo_bound) 0 \<noteq> None" using demo_bound_pending(4) by auto
  ultimately show ?thesis
    using adapter_panics_exactly [OF demo_bound_reach, where hs = "[0, 0]" and txn = 0 and txn_id = 0 and stream_id = 7
        and room = True and bytes = "[0]" and pkt = demo_packet and ingress = None and result = Send_canceled and e = "Unwrap_failed ''deny_tether''"]
    by auto
qed

text \<open>C18 (functional). What a bind response does, for both responses as the node writes them.  A success response for
a pending flow activates the flow under the stream ID of the response, with the compression mode of
its classifier and the key derived from the peer's public key if it has one, and releases the packet that was held
back, exactly once, if the requeue has room; if its classifier does not cover the flow, or the response is an
error response, the flow is forgotten and nothing is released.  Either way the transaction is no longer pending.\<close>

theorem bind_response_settles_flow:
  fixes env :: "('ip, 's) adapter_env"
  assumes "adapter_reach env a" and "dock_present a"
    and p: "elt_table (elt a) ft = Some (Pending p txn)"
    and "answer_ok env ans" and "bind_answer_body env ans = Inr body"
  shows "\<exists>a'. handle_bind_actor_address_response env room a txn sid body = Inr (Inr (), a')
    \<and> elt_pending (elt a') = (elt_pending (elt a)) (txn := None)
    \<and> (case ans of
         Bind_granted tc pubkey \<Rightarrow>
           elt_table (elt a') = (elt_table (elt a)) (ft :=
             if classify_5t tc ft
             then Some (Active (EltPep_new (env_derive_key env)
                    (compression_mode (env_src_present env) (env_dst_present env) tc) sid
                    (map_option (env_dh env) pubkey)))
             else None)
           \<and> requeued a' = requeued a @ (if classify_5t tc ft \<and> room then [p] else [])
       | Bind_refused reason \<Rightarrow>
           elt_table (elt a') = (elt_table (elt a)) (ft := None) \<and> requeued a' = requeued a)"
proof -
  have inv: "adapter_with {#} a" by (rule adapter_reach_inv [OF assms(1)])
  obtain m where m: "txn_get (dock_txns a) txn = (Some txn, m)"
    and inv1: "adapter_with {#txn#} (a \<lparr> dock_txns := m \<rparr>)" by (rule pending_get [OF inv p])
  let ?a = "a \<lparr> dock_txns := m \<rparr>"
  have ft: "elt_pending (elt ?a) txn = Some ft" using elt_okD [OF adapter_withD(1) [OF inv] p] by simp
  have p1: "elt_table (elt ?a) ft = Some (Pending p txn)" using p by simp
  have "\<exists>a'. tether_result env room ?a txn sid ans = Inr (Inr (), a') \<and> adapter_with {#txn#} a'
      \<and> elt_pending (elt a') = (elt_pending (elt a)) (txn := None)
      \<and> (case ans of
         Bind_granted tc pubkey \<Rightarrow>
           elt_table (elt a') = (elt_table (elt a)) (ft :=
             if classify_5t tc ft
             then Some (Active (EltPep_new (env_derive_key env)
                    (compression_mode (env_src_present env) (env_dst_present env) tc) sid (shared_secret env pubkey)))
             else None)
           \<and> requeued a' = requeued a @ (if classify_5t tc ft \<and> room then [p] else [])
       | Bind_refused reason \<Rightarrow>
           elt_table (elt a') = (elt_table (elt a)) (ft := None) \<and> requeued a' = requeued a)"
  proof (cases ans)
    case (Bind_granted tc pubkey)
    show ?thesis
    proof (cases "classify_5t tc ft")
      case True
      then show ?thesis using install_tether_match [OF inv1 ft True p1, of env room sid pubkey] Bind_granted by auto
    next
      case False
      then show ?thesis using install_tether_mismatch [OF inv1 ft False, of env room sid pubkey] Bind_granted by auto
    qed
  next
    case (Bind_refused reason)
    then show ?thesis using deny_tether_pending [OF inv1 ft] by auto
  qed
  then obtain a' where i: "tether_result env room ?a txn sid ans = Inr (Inr (), a')"
    and inv': "adapter_with {#txn#} a'"
    and res: "elt_pending (elt a') = (elt_pending (elt a)) (txn := None)"
      "case ans of
         Bind_granted tc pubkey \<Rightarrow>
           elt_table (elt a') = (elt_table (elt a)) (ft :=
             if classify_5t tc ft
             then Some (Active (EltPep_new (env_derive_key env)
                    (compression_mode (env_src_present env) (env_dst_present env) tc) sid (shared_secret env pubkey)))
             else None)
           \<and> requeued a' = requeued a @ (if classify_5t tc ft \<and> room then [p] else [])
       | Bind_refused reason \<Rightarrow>
           elt_table (elt a') = (elt_table (elt a)) (ft := None) \<and> requeued a' = requeued a"
    by blast
  obtain m' where "drop_txn 1 a' txn = Inr (a' \<lparr> dock_txns := m' \<rparr>)" by (rule drop_one [OF inv'])
  then have "handle_bind_actor_address_response env room a txn sid body = Inr (Inr (), a' \<lparr> dock_txns := m' \<rparr>)"
    using assms(2) m i bind_answer_read [OF assms(4,5), of room ?a txn sid]
    by (simp add: handle_bind_actor_address_response_def from_tether_result_def)
  then show ?thesis
    using res by (intro exI [of _ "a' \<lparr> dock_txns := m' \<rparr>"]) (simp add: shared_secret_def split: bind_answer.splits)
qed

theorem bind_response_settles_flow_witness:
  "\<exists>body a'. bind_answer_body demo_env (Bind_granted demo_tc (Some (replicate 32 7))) = Inr body
    \<and> handle_bind_actor_address_response demo_env True demo_bound 0 7 body = Inr (Inr (), a')
    \<and> elt_pending (elt a') 0 = None \<and> requeued a' = requeued demo_bound @ [demo_packet]"
proof -
  have wf: "wf_tc (env_ip demo_env) demo_tc"
    by (simp add: demo_env_def wf_tc_def v4_ok_def demo_ops_def demo_tc_def)
  let ?ans = "Bind_granted demo_tc (Some (replicate 32 7))"
  have ok: "answer_ok demo_env ?ans" using wf by simp
  obtain bs where "serialize (env_ip demo_env) demo_tc = Inr bs" by (rule serialize_wf [OF wf])
  then obtain body where body: "bind_answer_body demo_env ?ans = Inr body"
    by (simp add: bind_actor_address_success_body_def)
  have cl: "classify_5t demo_tc demo_flow" by (simp add: classify_5t_def demo_tc_def demo_flow_def)
  show ?thesis
    using bind_response_settles_flow [OF demo_bound_reach demo_bound_pending(2,1) ok body, of True 7] cl body by auto
qed

text \<open>C35 (a crash on link shutdown): clearing the tables, as a link does when it begins to
  close, while the task of a bind request is still waiting, makes the program
  panic when that request is then canceled.\<close>

theorem bind_cancel_after_clear_panics:
  fixes env :: "('ip, 's) adapter_env"
  assumes "adapter_reach env a" and "txn \<in> set (bind_tasks a)"
    and "mset hs = pending_mset a + pending_mset a" and "tables_clear a hs = Inr a'"
  shows "bind_task_done a' txn Send_canceled = Inl (Unwrap_failed ''deny_tether'')"
  using tables_clear_ok [OF adapter_reach_inv [OF assms(1)] assms(3)] assms(4)
  by (auto simp: bind_task_done_def deny_tether_unknown)

theorem bind_cancel_after_clear_panics_witness:
  "\<exists>a'. tables_clear demo_bound [0, 0] = Inr a'
    \<and> bind_task_done a' 0 Send_canceled = Inl (Unwrap_failed ''deny_tether'')"
proof -
  have hs: "mset [0, 0] = pending_mset demo_bound + pending_mset demo_bound"
    by (simp add: pending_mset_def demo_bound_pending)
  obtain a' where a': "tables_clear demo_bound [0, 0] = Inr a'"
    using tables_clear_ok [OF adapter_reach_inv [OF demo_bound_reach] hs] by blast
  then show ?thesis
    using bind_cancel_after_clear_panics [OF demo_bound_reach _ hs a'] demo_bound_pending(3) by auto
qed

end
