(* ===== verification/Visa_Table.thy ===== *)
theory Visa_Table
  imports Forwarding_Tables Counters "HOL-Library.AList"
begin

text \<open>
  The visa table of a node, \<open>adapter/ph/src/visa_table.rs\<close>, with the parts of the peer
  table (\<open>peer_table.rs\<close>) it changes.  A visa received from the visa service has the
  fields the code reads; its dock PEP carries the five-tuple it converts to.  The hash
  map of visas is an association list, whose order nothing below depends on, and the
  timeout heap is the list of its elements in ascending order.  The five-tuple lookup
  table and the default address belong to other crates: they are the record \<open>visa_env\<close>.
\<close>

section \<open>Visas\<close>

record 'ip DockPep =
  dp_dest_addr :: 'ip
  dp_five_tuple :: "'ip FiveTuple"
  dp_ingress_key :: bytes
  dp_egress_key :: bytes

record 'ip vsapi_visa =
  issuer_id :: u64
  expires :: int
  visa_full :: bool
  dock_pep :: "'ip DockPep option"
  fwd_next_hop :: "'ip option"

record 'ip Visa =
  visa :: "'ip vsapi_visa"
  streams :: "ForwardingEntry list"
  ftuple :: "'ip FiveTuple"
  visa_next_hop :: 'ip

datatype 'ip VisaTableError =
  VT_NotFound u64 | VT_ParseError string | VT_DestNotFound 'ip | VT_InsertError

record ('ip, 'lt) visa_env =
  ip_default :: 'ip
  ip_unspecified :: 'ip
  lt_new :: 'lt
  lt_insert :: "'lt \<Rightarrow> u64 \<Rightarrow> 'ip Visa \<Rightarrow> 'lt"
  lt_add_hash :: "'lt \<Rightarrow> (u64 \<times> 'ip Visa) list \<Rightarrow> 'lt"
  lt_find :: "'lt \<Rightarrow> 'ip FiveTuple \<Rightarrow> u64 option"

definition Visa_new :: "('ip, 'lt) visa_env \<Rightarrow> 'ip vsapi_visa \<Rightarrow> 'ip Visa res" where
  "Visa_new env v =
     (if \<not> visa_full v then Inl (Assert_failed ''Forward only visas not yet supported'')
      else case dock_pep v of
        None \<Rightarrow> Inl (Unwrap_failed ''dock_pep'')
      | Some pep \<Rightarrow>
          Inr \<lparr> visa = v, streams = [], ftuple = dp_five_tuple pep,
                visa_next_hop = (case fwd_next_hop v of Some a \<Rightarrow> a | None \<Rightarrow> ip_default env) \<rparr>)"

definition get_tc :: "'ip Visa \<Rightarrow> 'ip Ip5TupleTc res" where
  "get_tc v =
     (if \<not> visa_full (visa v) then Inl (Assert_failed ''Forward only visas not yet supported'')
      else case dock_pep (visa v) of
        None \<Rightarrow> Inl (Unwrap_failed ''dock_pep'')
      | Some pep \<Rightarrow> Inr (dp_five_tuple pep))"

definition Visa_match_traffic :: "'ip Visa \<Rightarrow> 'ip FiveTuple \<Rightarrow> bool res" where
  "Visa_match_traffic v five_tuple = bindR (get_tc v) (\<lambda>tc. Inr (classify_5t tc five_tuple))"

definition key32 :: "bytes \<Rightarrow> bytes option" where
  "key32 key = (if length key = 32 then Some key else None)"

definition get_ingress_a2a_dh_pubkey :: "'ip Visa \<Rightarrow> bytes option" where
  "get_ingress_a2a_dh_pubkey v =
     (case dock_pep (visa v) of None \<Rightarrow> None | Some pep \<Rightarrow> key32 (dp_ingress_key pep))"

definition get_egress_a2a_dh_pubkey :: "'ip Visa \<Rightarrow> bytes option" where
  "get_egress_a2a_dh_pubkey v =
     (case dock_pep (visa v) of None \<Rightarrow> None | Some pep \<Rightarrow> key32 (dp_egress_key pep))"

definition Visa_link_forwarding_entry :: "'ip Visa \<Rightarrow> ForwardingEntry \<Rightarrow> 'ip Visa" where
  "Visa_link_forwarding_entry v e = v \<lparr> streams := streams v @ [e] \<rparr>"

text \<open>\<open>Vec::swap_remove\<close>: the last element takes the place of the removed one.\<close>

definition swap_remove :: "'a list \<Rightarrow> nat \<Rightarrow> 'a list" where
  "swap_remove xs i = butlast (xs [i := last xs])"

fun find_index :: "('a \<Rightarrow> bool) \<Rightarrow> 'a list \<Rightarrow> nat option" where
  "find_index P [] = None"
| "find_index P (x # xs) = (if P x then Some 0 else map_option Suc (find_index P xs))"

definition Visa_unlink_forwarding_entry :: "'ip Visa \<Rightarrow> ForwardingEntry \<Rightarrow> bool \<times> 'ip Visa" where
  "Visa_unlink_forwarding_entry v e =
     (case find_index (\<lambda>fe. e = fe) (streams v) of
        Some idx \<Rightarrow> (True, v \<lparr> streams := swap_remove (streams v) idx \<rparr>)
      | None \<Rightarrow> (False, v))"

section \<open>Peers\<close>

text \<open>The state of a bind request (\<open>mgmt/node.rs\<close>); the join handles it keeps are for
  monitoring only.\<close>

datatype BindRequestState =
    AwaitingVisaResponse
  | AwaitingVisaPush u64
  | AwaitingNextHopBind u64 u32 u16

record 'ip PeerState =
  ps_type :: PeerType
  pft :: PeerForwardingTable
  bind_request_state :: "u16 \<Rightarrow> BindRequestState option"
  awaiting_next_hop_bind_table :: "u16 \<Rightarrow> (u32 \<times> u16) option"
  ps_addresses :: "'ip list"
  ps_aaa_address :: "'ip option"

type_synonym 'ip peers = "u32 \<Rightarrow> 'ip PeerState option"

definition PeerState_new :: "PeerType \<Rightarrow> 'ip PeerState" where
  "PeerState_new ty = \<lparr> ps_type = ty, pft = Pft_new, bind_request_state = Map.empty,
     awaiting_next_hop_bind_table = Map.empty, ps_addresses = [], ps_aaa_address = None \<rparr>"

definition remove_route :: "ForwardingEntry \<Rightarrow> 'ip peers \<Rightarrow> 'ip peers" where
  "remove_route route ps =
     (case ps (fe_link route) of
        None \<Rightarrow> ps
      | Some p \<Rightarrow> ps (fe_link route \<mapsto> p \<lparr> pft := Pft_remove (pft p) (fe_stream route) \<rparr>))"

section \<open>The timeout queue\<close>

datatype VisaTimeout = VisaTimeout (to_id: u64) (to_expiration: int)

text \<open>The order of the heap: the sooner a visa expires, the greater its entry.\<close>

datatype Ordering = Less | Equal | Greater

definition VisaTimeout_cmp :: "VisaTimeout \<Rightarrow> VisaTimeout \<Rightarrow> Ordering" where
  "VisaTimeout_cmp self other =
     (if to_expiration other < to_expiration self then Less
      else if to_expiration self < to_expiration other then Greater
      else if to_id other < to_id self then Less
      else if to_id self < to_id other then Greater
      else Equal)"

instantiation VisaTimeout :: linorder
begin

definition less_eq_VisaTimeout :: "VisaTimeout \<Rightarrow> VisaTimeout \<Rightarrow> bool" where
  "less_eq_VisaTimeout a b \<longleftrightarrow> VisaTimeout_cmp a b \<noteq> Greater"

definition less_VisaTimeout :: "VisaTimeout \<Rightarrow> VisaTimeout \<Rightarrow> bool" where
  "less_VisaTimeout a b \<longleftrightarrow> VisaTimeout_cmp a b = Less"

instance
  by standard (auto simp: less_eq_VisaTimeout_def less_VisaTimeout_def VisaTimeout_cmp_def
      VisaTimeout.expand split: if_splits)

end

definition heap_push :: "VisaTimeout \<Rightarrow> VisaTimeout list \<Rightarrow> VisaTimeout list" where
  "heap_push x h = insort x h"

definition heap_peek :: "VisaTimeout list \<Rightarrow> VisaTimeout option" where
  "heap_peek h = (if h = [] then None else Some (last h))"

section \<open>The table\<close>

record ('ip, 'lt) VisaTable =
  vt_table :: "(u64 \<times> 'ip Visa) list"
  timeout_queue :: "VisaTimeout list"
  lookup_table :: 'lt

definition MIN_VISA_ID :: u64 where
  "MIN_VISA_ID = 1000"

definition VisaTable_new :: "('ip, 'lt) visa_env \<Rightarrow> ('ip, 'lt) VisaTable" where
  "VisaTable_new env = \<lparr> vt_table = [], timeout_queue = [], lookup_table = lt_new env \<rparr>"

definition insert_visa ::
  "('ip, 'lt) visa_env \<Rightarrow> ('ip, 'lt) VisaTable \<Rightarrow> 'ip vsapi_visa \<Rightarrow> (u64 \<times> ('ip, 'lt) VisaTable) res" where
  "insert_visa env vt v =
     (let visa_id = issuer_id v in
      bindR (Visa_new env v) (\<lambda>w.
        Inr (visa_id,
          vt \<lparr> vt_table := AList.update visa_id w (vt_table vt),
               timeout_queue := heap_push (VisaTimeout visa_id (expires v)) (timeout_queue vt),
               lookup_table := lt_insert env (lookup_table vt) visa_id w \<rparr>)))"

definition match_traffic ::
  "('ip, 'lt) visa_env \<Rightarrow> ('ip, 'lt) VisaTable \<Rightarrow> 'ip FiveTuple \<Rightarrow> u64 option" where
  "match_traffic env vt five_tuple = lt_find env (lookup_table vt) five_tuple"

definition link_forwarding_entry ::
  "('ip, 'lt) VisaTable \<Rightarrow> u64 \<Rightarrow> ForwardingEntry
   \<Rightarrow> ('ip VisaTableError + unit) \<times> ('ip, 'lt) VisaTable" where
  "link_forwarding_entry vt visa_id e =
     (case map_of (vt_table vt) visa_id of
        None \<Rightarrow> (Inl (VT_NotFound visa_id), vt)
      | Some v \<Rightarrow>
          (Inr (), vt \<lparr> vt_table := AList.update visa_id (Visa_link_forwarding_entry v e) (vt_table vt) \<rparr>))"

definition unlink_forwarding_entry ::
  "('ip, 'lt) VisaTable \<Rightarrow> u64 \<Rightarrow> ForwardingEntry
   \<Rightarrow> ('ip VisaTableError + bool) \<times> ('ip, 'lt) VisaTable" where
  "unlink_forwarding_entry vt visa_id e =
     (case map_of (vt_table vt) visa_id of
        None \<Rightarrow> (Inl (VT_NotFound visa_id), vt)
      | Some v \<Rightarrow>
          (case Visa_unlink_forwarding_entry v e of
             (b, v') \<Rightarrow> (Inr b, vt \<lparr> vt_table := AList.update visa_id v' (vt_table vt) \<rparr>)))"

definition remove_forwarding_entries :: "'ip Visa \<Rightarrow> 'ip peers \<Rightarrow> 'ip peers" where
  "remove_forwarding_entries v ps = fold remove_route (streams v) ps"

definition revoke_no_rebuild ::
  "('ip, 'lt) VisaTable \<Rightarrow> 'ip peers \<Rightarrow> u64
   \<Rightarrow> ('ip VisaTableError + unit) \<times> ('ip, 'lt) VisaTable \<times> 'ip peers" where
  "revoke_no_rebuild vt ps visa_id =
     (case map_of (vt_table vt) visa_id of
        None \<Rightarrow> (Inl (VT_NotFound visa_id), vt, ps)
      | Some v \<Rightarrow>
          (Inr (), vt \<lparr> vt_table := AList.delete visa_id (vt_table vt) \<rparr>,
           remove_forwarding_entries v ps))"

definition rebuild :: "('ip, 'lt) visa_env \<Rightarrow> ('ip, 'lt) VisaTable \<Rightarrow> ('ip, 'lt) VisaTable" where
  "rebuild env vt = vt \<lparr> lookup_table := lt_add_hash env (lt_new env) (vt_table vt) \<rparr>"

definition revoke ::
  "('ip, 'lt) visa_env \<Rightarrow> ('ip, 'lt) VisaTable \<Rightarrow> 'ip peers \<Rightarrow> u64 \<Rightarrow> ('ip, 'lt) VisaTable \<times> 'ip peers" where
  "revoke env vt ps visa_id =
     (case revoke_no_rebuild vt ps visa_id of (_, vt', ps') \<Rightarrow> (rebuild env vt', ps'))"

function expire_loop ::
  "int \<Rightarrow> ('ip, 'lt) VisaTable \<Rightarrow> 'ip peers \<Rightarrow> ('ip, 'lt) VisaTable \<times> 'ip peers" where
  "expire_loop now vt ps =
     (case heap_peek (timeout_queue vt) of
        None \<Rightarrow> (vt, ps)
      | Some entry \<Rightarrow>
          if to_expiration entry < now then
            (case revoke_no_rebuild (vt \<lparr> timeout_queue := butlast (timeout_queue vt) \<rparr>) ps (to_id entry) of
               (_, vt', ps') \<Rightarrow> expire_loop now vt' ps')
          else (vt, ps))"
  by auto

termination
  by (relation "measure (\<lambda>(now, vt, ps). length (timeout_queue vt))")
    (auto simp: heap_peek_def revoke_no_rebuild_def split: if_splits option.splits)

declare expire_loop.simps [simp del]

definition handle_expirations ::
  "('ip, 'lt) visa_env \<Rightarrow> int \<Rightarrow> ('ip, 'lt) VisaTable \<Rightarrow> 'ip peers \<Rightarrow> ('ip, 'lt) VisaTable \<times> 'ip peers" where
  "handle_expirations env now vt ps =
     (case expire_loop now vt ps of (vt', ps') \<Rightarrow> (rebuild env vt', ps'))"

fun revoke_all ::
  "('ip, 'lt) VisaTable \<Rightarrow> 'ip peers \<Rightarrow> u64 list \<Rightarrow> ('ip, 'lt) VisaTable \<times> 'ip peers" where
  "revoke_all vt ps [] = (vt, ps)"
| "revoke_all vt ps (i # is) =
     (case revoke_no_rebuild vt ps i of (_, vt', ps') \<Rightarrow> revoke_all vt' ps' is)"

definition revoke_for_link ::
  "('ip, 'lt) visa_env \<Rightarrow> ('ip, 'lt) VisaTable \<Rightarrow> u32 \<Rightarrow> 'ip peers \<Rightarrow> ('ip, 'lt) VisaTable \<times> 'ip peers" where
  "revoke_for_link env vt link_id ps =
     (let to_revoke = [i. (i, v) \<leftarrow> vt_table vt,
            i \<ge> MIN_VISA_ID \<and> list_ex (\<lambda>e. fe_link e = link_id) (streams v)]
      in if to_revoke = [] then (vt, ps)
         else case revoke_all vt ps to_revoke of (vt', ps') \<Rightarrow> (rebuild env vt', ps'))"

definition get_visa_next_hop_addr ::
  "('ip, 'lt) visa_env \<Rightarrow> ('ip, 'lt) VisaTable \<Rightarrow> u64 \<Rightarrow> 'ip VisaTableError + 'ip" where
  "get_visa_next_hop_addr env vt visa_id =
     (case map_of (vt_table vt) visa_id of
        None \<Rightarrow> Inl (VT_NotFound visa_id)
      | Some v \<Rightarrow>
          if visa_next_hop v = ip_unspecified env then Inr (dst_address (ftuple v))
          else Inr (visa_next_hop v))"

section \<open>Routes and the visas they rest on\<close>

text \<open>The forwarding entry of a peer at a slot of its table.\<close>

definition route :: "'ip peers \<Rightarrow> u32 \<Rightarrow> nat \<Rightarrow> PftPep option" where
  "route ps l k = (case ps l of None \<Rightarrow> None | Some p \<Rightarrow> pft p k)"

text \<open>Every route belongs to a visa of the table that lists it.\<close>

definition linked :: "(u64 \<times> 'ip Visa) list \<Rightarrow> u32 \<Rightarrow> nat \<Rightarrow> u64 \<Rightarrow> bool" where
  "linked vs l k i \<longleftrightarrow>
     k < PEER_FORWARDING_TABLE_SIZE
     \<and> (\<exists>v. map_of vs i = Some v \<and> ForwardingEntry l (key_stream k) \<in> set (streams v))"

definition routes_ok :: "('ip, 'lt) VisaTable \<Rightarrow> 'ip peers \<Rightarrow> bool" where
  "routes_ok vt ps \<longleftrightarrow>
     (\<forall>l k pep. route ps l k = Some pep \<longrightarrow> linked (vt_table vt) l k (pep_visa_id pep))"

lemma routes_okD:
  "routes_ok vt ps \<Longrightarrow> route ps l k = Some pep \<Longrightarrow> linked (vt_table vt) l k (pep_visa_id pep)"
  by (simp add: routes_ok_def)

lemma route_remove_route:
  "route (remove_route e ps) l k =
     (if l = fe_link e \<and> k = slab_key (fe_stream e) then None else route ps l k)"
  by (auto simp: route_def remove_route_def Pft_remove_def split: option.splits)

lemma route_remove_all:
  "route (fold remove_route es ps) l k =
     (if \<exists>e \<in> set es. l = fe_link e \<and> k = slab_key (fe_stream e) then None else route ps l k)"
  by (induction es arbitrary: ps) (auto simp: route_remove_route)

lemma peers_remove_route:
  "remove_route e ps l = None \<longleftrightarrow> ps l = None"
  "remove_route e ps l = Some p' \<Longrightarrow> \<exists>p. ps l = Some p \<and> p' = p \<lparr> pft := pft p' \<rparr>"
  by (auto simp: remove_route_def split: option.splits if_splits)

lemma revoke_no_rebuild_routes:
  assumes ok: "routes_ok vt ps" and r: "revoke_no_rebuild vt ps i = (r, vt', ps')"
  shows "routes_ok vt' ps'" and "\<And>l k pep. route ps' l k = Some pep \<Longrightarrow> pep_visa_id pep \<noteq> i"
    and "map_of (vt_table vt') = (map_of (vt_table vt)) (i := None)"
    and "\<And>l k pep. route ps' l k = Some pep \<Longrightarrow> route ps l k = Some pep"
    and "timeout_queue vt' = timeout_queue vt"
proof -
  have "routes_ok vt' ps' \<and> (\<forall>l k pep. route ps' l k = Some pep \<longrightarrow> pep_visa_id pep \<noteq> i)
    \<and> map_of (vt_table vt') = (map_of (vt_table vt)) (i := None)
    \<and> (\<forall>l k pep. route ps' l k = Some pep \<longrightarrow> route ps l k = Some pep)
    \<and> timeout_queue vt' = timeout_queue vt"
  proof (cases "map_of (vt_table vt) i")
    case None
    then have "vt' = vt" "ps' = ps" using r by (simp_all add: revoke_no_rebuild_def)
    then show ?thesis using None routes_okD [OF ok] by (fastforce simp: linked_def ok)
  next
    case (Some v)
    then have vt': "vt' = vt \<lparr> vt_table := AList.delete i (vt_table vt) \<rparr>"
      and ps': "ps' = fold remove_route (streams v) ps"
      using r by (simp_all add: revoke_no_rebuild_def remove_forwarding_entries_def)
    have old: "route ps l k = Some pep" and other: "pep_visa_id pep \<noteq> i"
      if e: "route ps' l k = Some pep" for l k pep
    proof -
      show route: "route ps l k = Some pep"
        using e unfolding ps' route_remove_all by (simp split: if_splits)
      have kept: "\<not> (\<exists>e \<in> set (streams v). l = fe_link e \<and> k = slab_key (fe_stream e))"
        using e unfolding ps' route_remove_all by (simp split: if_splits)
      show "pep_visa_id pep \<noteq> i"
      proof
        assume "pep_visa_id pep = i"
        then have "ForwardingEntry l (key_stream k) \<in> set (streams v)" "k < 2 ^ 20"
          using routes_okD [OF ok route] Some
          by (auto simp: linked_def PEER_FORWARDING_TABLE_SIZE_def)
        then show False using kept slab_key_stream [of k] by fastforce
      qed
    qed
    have "linked (vt_table vt') l k (pep_visa_id pep)" if "route ps' l k = Some pep" for l k pep
      using routes_okD [OF ok old [OF that]] other [OF that]
      by (auto simp: linked_def vt' delete_conv')
    then show ?thesis using old other by (auto simp: routes_ok_def vt' delete_conv')
  qed
  then show "routes_ok vt' ps'" and "\<And>l k pep. route ps' l k = Some pep \<Longrightarrow> pep_visa_id pep \<noteq> i"
    and "map_of (vt_table vt') = (map_of (vt_table vt)) (i := None)"
    and "\<And>l k pep. route ps' l k = Some pep \<Longrightarrow> route ps l k = Some pep"
    and "timeout_queue vt' = timeout_queue vt"
    by blast+
qed

lemma rebuild_table [simp]:
  "vt_table (rebuild env vt) = vt_table vt" "timeout_queue (rebuild env vt) = timeout_queue vt"
  by (simp_all add: rebuild_def)

lemma routes_ok_rebuild [simp]: "routes_ok (rebuild env vt) ps = routes_ok vt ps"
  by (simp add: routes_ok_def)

lemma routes_ok_queue [simp]: "routes_ok (vt \<lparr> timeout_queue := q \<rparr>) ps = routes_ok vt ps"
  by (simp add: routes_ok_def)

lemma revoke_all_routes:
  assumes "routes_ok vt ps" and "revoke_all vt ps is = (vt', ps')"
  shows "routes_ok vt' ps' \<and>
    map_of (vt_table vt') = (\<lambda>i. if i \<in> set is then None else map_of (vt_table vt) i)"
  using assms
proof (induction "is" arbitrary: vt ps)
  case (Cons i "is")
  obtain r vt1 ps1 where e: "revoke_no_rebuild vt ps i = (r, vt1, ps1)" by (metis prod_cases3)
  have "routes_ok vt1 ps1" "map_of (vt_table vt1) = (map_of (vt_table vt)) (i := None)"
    using revoke_no_rebuild_routes(1,3) [OF Cons.prems(1) e] by simp_all
  moreover have "revoke_all vt1 ps1 is = (vt', ps')" using Cons.prems(2) e by simp
  ultimately show ?case using Cons.IH [of vt1 ps1] by auto
qed auto

text \<open>Revoking changes nothing of a peer but its forwarding table.\<close>

definition same_peers :: "'ip peers \<Rightarrow> 'ip peers \<Rightarrow> bool" where
  "same_peers ps ps' \<longleftrightarrow> (\<forall>l. (ps l = None \<longleftrightarrow> ps' l = None)
     \<and> (\<forall>p p'. ps l = Some p \<longrightarrow> ps' l = Some p' \<longrightarrow> p' = p \<lparr> pft := pft p' \<rparr>))"

lemma same_peers_refl [simp]: "same_peers ps ps"
  by (simp add: same_peers_def)

lemma same_peers_trans:
  assumes "same_peers ps ps1" and "same_peers ps1 ps2"
  shows "same_peers ps ps2"
  unfolding same_peers_def
proof (intro allI conjI impI)
  fix l
  show "ps l = None \<longleftrightarrow> ps2 l = None" using assms by (simp add: same_peers_def)
  fix p p'
  assume p: "ps l = Some p" "ps2 l = Some p'"
  obtain p1 where p1: "ps1 l = Some p1" using p assms by (force simp: same_peers_def)
  have "p1 = p \<lparr> pft := pft p1 \<rparr>" "p' = p1 \<lparr> pft := pft p' \<rparr>"
    using assms p p1 by (simp_all add: same_peers_def)
  then show "p' = p \<lparr> pft := pft p' \<rparr>" by (metis PeerState.update_convs(2) PeerState.surjective)
qed

lemma same_peers_remove_route: "same_peers ps (remove_route e ps)"
  by (auto simp: same_peers_def remove_route_def split: option.splits)

lemma same_peers_fold: "same_peers ps (fold remove_route es ps)"
proof (induction es arbitrary: ps)
  case (Cons e es)
  then show ?case
    using same_peers_trans [OF same_peers_remove_route [of ps e] Cons.IH] by simp
qed simp

lemma same_peers_revoke:
  "revoke_no_rebuild vt ps i = (r, vt', ps') \<Longrightarrow> same_peers ps ps'"
  by (auto simp: revoke_no_rebuild_def remove_forwarding_entries_def same_peers_fold split: option.splits)

lemma same_peers_revoke_all: "revoke_all vt ps is = (vt', ps') \<Longrightarrow> same_peers ps ps'"
proof (induction "is" arbitrary: vt ps)
  case (Cons i "is")
  obtain r vt1 ps1 where e: "revoke_no_rebuild vt ps i = (r, vt1, ps1)" by (metis prod_cases3)
  then show ?case
    using Cons same_peers_revoke [OF e] same_peers_trans by (fastforce simp: e)
qed simp

lemma revoke_all_queue: "revoke_all vt ps is = (vt', ps') \<Longrightarrow> timeout_queue vt' = timeout_queue vt"
proof (induction "is" arbitrary: vt ps)
  case (Cons i "is")
  obtain r vt1 ps1 where e: "revoke_no_rebuild vt ps i = (r, vt1, ps1)" by (metis prod_cases3)
  then have "timeout_queue vt1 = timeout_queue vt"
    by (auto simp: revoke_no_rebuild_def split: option.splits)
  then show ?case using Cons e by simp
qed simp

section \<open>Expiration\<close>

text \<open>The queue is in order and has the expiration of each visa of the table.\<close>

definition timeouts_ok :: "('ip, 'lt) VisaTable \<Rightarrow> bool" where
  "timeouts_ok vt \<longleftrightarrow> sorted (timeout_queue vt)
     \<and> (\<forall>i v. map_of (vt_table vt) i = Some v \<longrightarrow>
          VisaTimeout i (expires (visa v)) \<in> set (timeout_queue vt))"

lemma timeouts_okD:
  "timeouts_ok vt \<Longrightarrow> sorted (timeout_queue vt)"
  "timeouts_ok vt \<Longrightarrow> map_of (vt_table vt) i = Some v \<Longrightarrow>
     VisaTimeout i (expires (visa v)) \<in> set (timeout_queue vt)"
  by (auto simp: timeouts_ok_def)

text \<open>An expired entry of a queue in order is behind the last one that has not expired.\<close>

lemma none_expired:
  assumes "sorted q" and "q \<noteq> []" and "\<not> to_expiration (last q) < now" and "e \<in> set q"
  shows "\<not> to_expiration e < now"
proof -
  have "e \<le> last q"
    using assms(1,2,4) by (metis append_butlast_last_id sorted_append Un_iff set_append list.set_intros(1)
        set_ConsD empty_iff list.set(1) order_refl)
  then show ?thesis using assms(3) by (auto simp: less_eq_VisaTimeout_def VisaTimeout_cmp_def split: if_splits)
qed

text \<open>The tables a node builds from an empty one with the operations of this theory.\<close>

inductive vt_built :: "('ip, 'lt) visa_env \<Rightarrow> ('ip, 'lt) VisaTable \<Rightarrow> bool" for env where
  built_new: "vt_built env (VisaTable_new env)"
| built_insert: "vt_built env vt \<Longrightarrow> insert_visa env vt v = Inr (i, vt') \<Longrightarrow> vt_built env vt'"
| built_link: "vt_built env vt \<Longrightarrow> vt_built env (snd (link_forwarding_entry vt i e))"
| built_unlink: "vt_built env vt \<Longrightarrow> vt_built env (snd (unlink_forwarding_entry vt i e))"
| built_revoke: "vt_built env vt \<Longrightarrow> vt_built env (fst (revoke env vt ps i))"
| built_drop: "vt_built env vt \<Longrightarrow> vt_built env (fst (revoke_for_link env vt l ps))"
| built_expire: "vt_built env vt \<Longrightarrow> vt_built env (fst (handle_expirations env now vt ps))"

lemma revoke_no_rebuild_table:
  assumes "revoke_no_rebuild vt ps i = (r, vt', ps')"
  shows "map_of (vt_table vt') = (map_of (vt_table vt)) (i := None)" and "timeout_queue vt' = timeout_queue vt"
  using assms by (auto simp: revoke_no_rebuild_def delete_conv' fun_upd_idem split: option.splits)

lemma revoke_all_table:
  "revoke_all vt ps is = (vt', ps') \<Longrightarrow>
     map_of (vt_table vt') = (\<lambda>i. if i \<in> set is then None else map_of (vt_table vt) i)"
proof (induction "is" arbitrary: vt ps)
  case (Cons i "is")
  obtain r vt1 ps1 where e: "revoke_no_rebuild vt ps i = (r, vt1, ps1)" by (metis prod_cases3)
  then show ?case using Cons revoke_no_rebuild_table(1) [OF e] by auto
qed auto

text \<open>The routes a revocation removes are those the visa lists.\<close>

definition lists_route :: "'ip Visa \<Rightarrow> u32 \<Rightarrow> nat \<Rightarrow> bool" where
  "lists_route v l k \<longleftrightarrow> (\<exists>e \<in> set (streams v). fe_link e = l \<and> slab_key (fe_stream e) = k)"

lemma revoke_no_rebuild_route:
  assumes "revoke_no_rebuild vt ps i = (r, vt', ps')"
  shows "route ps' l k =
    (if \<exists>v. map_of (vt_table vt) i = Some v \<and> lists_route v l k then None else route ps l k)"
  using assms
  by (auto simp: revoke_no_rebuild_def remove_forwarding_entries_def route_remove_all lists_route_def split: option.splits)

lemma expire_loop_exact:
  assumes "sorted (timeout_queue vt)" and "expire_loop now vt ps = (vt', ps')"
  shows "timeout_queue vt' = filter (\<lambda>e. \<not> to_expiration e < now) (timeout_queue vt)
    \<and> (\<forall>i. map_of (vt_table vt') i =
         (if \<exists>e \<in> set (timeout_queue vt). to_id e = i \<and> to_expiration e < now then None
          else map_of (vt_table vt) i))
    \<and> (\<forall>l k. route ps' l k =
         (if \<exists>i v. map_of (vt_table vt) i = Some v \<and> map_of (vt_table vt') i = None \<and> lists_route v l k then None
          else route ps l k))"
  using assms
proof (induction "length (timeout_queue vt)" arbitrary: vt ps)
  case 0
  then show ?case by (auto simp: expire_loop.simps [of now vt] heap_peek_def)
next
  case (Suc n)
  let ?q = "timeout_queue vt"
  have ne: "?q \<noteq> []" using Suc.hyps(2) by auto
  have q: "?q = butlast ?q @ [last ?q]" using ne by simp
  show ?case
  proof (cases "to_expiration (last ?q) < now")
    case False
    have "vt' = vt" "ps' = ps"
      using Suc.prems(2) False ne by (simp_all add: expire_loop.simps [of now vt] heap_peek_def)
    moreover have "\<forall>e \<in> set ?q. \<not> to_expiration e < now"
      using none_expired [OF Suc.prems(1) ne False] by blast
    ultimately show ?thesis by (auto simp: filter_id_conv)
  next
    case True
    let ?i = "to_id (last ?q)"
    obtain r vt1 ps1 where e: "revoke_no_rebuild (vt \<lparr> timeout_queue := butlast ?q \<rparr>) ps ?i = (r, vt1, ps1)"
      by (metis prod_cases3)
    have loop: "expire_loop now vt1 ps1 = (vt', ps')"
      using Suc.prems(2) True ne e by (simp add: expire_loop.simps [of now vt] heap_peek_def)
    have table: "map_of (vt_table vt1) = (map_of (vt_table vt)) (?i := None)" and q1: "timeout_queue vt1 = butlast ?q"
      using revoke_no_rebuild_table [OF e] by simp_all
    have "sorted (timeout_queue vt1)" using Suc.prems(1) q q1 by (metis sorted_append)
    moreover have "n = length (timeout_queue vt1)" using Suc.hyps(2) q1 by simp
    ultimately have IH: "timeout_queue vt' = filter (\<lambda>e. \<not> to_expiration e < now) (butlast ?q)"
        "map_of (vt_table vt') j = (if \<exists>e \<in> set (butlast ?q). to_id e = j \<and> to_expiration e < now then None
          else map_of (vt_table vt1) j)"
        "route ps' l k = (if \<exists>i v. map_of (vt_table vt1) i = Some v \<and> map_of (vt_table vt') i = None \<and> lists_route v l k
          then None else route ps1 l k)" for j l k
      using Suc.hyps(1) [OF _ _ loop] q1 by simp_all
    have "filter (\<lambda>e. \<not> to_expiration e < now) ?q = filter (\<lambda>e. \<not> to_expiration e < now) (butlast ?q)"
      by (subst q) (simp add: True)
    moreover have last: "set ?q = insert (last ?q) (set (butlast ?q))" by (subst q) simp
    moreover have gone: "map_of (vt_table vt') ?i = None" using IH(2) [of ?i] table by simp
    have "route ps' l k = (if \<exists>i v. map_of (vt_table vt) i = Some v \<and> map_of (vt_table vt') i = None \<and> lists_route v l k
        then None else route ps l k)" for l k
    proof (cases "\<exists>v. map_of (vt_table vt) ?i = Some v \<and> lists_route v l k")
      case True
      then have "\<exists>i v. map_of (vt_table vt) i = Some v \<and> map_of (vt_table vt') i = None \<and> lists_route v l k"
        using gone by blast
      moreover have "route ps1 l k = None" using True revoke_no_rebuild_route [OF e, of l k] by simp
      ultimately show ?thesis using IH(3) [of l k] by simp
    next
      case False
      then have same: "(\<exists>i v. map_of (vt_table vt) i = Some v \<and> map_of (vt_table vt') i = None \<and> lists_route v l k)
          = (\<exists>i v. map_of (vt_table vt1) i = Some v \<and> map_of (vt_table vt') i = None \<and> lists_route v l k)"
        unfolding table by (metis fun_upd_apply option.distinct(1))
      have "route ps1 l k = route ps l k" using False revoke_no_rebuild_route [OF e, of l k] by auto
      then show ?thesis by (simp only: IH(3) same)
    qed
    ultimately show ?thesis using IH(1,2) table True by auto
  qed
qed

lemma handle_expirations_exact:
  assumes "sorted (timeout_queue vt)" and "handle_expirations env now vt ps = (vt', ps')"
  shows "timeout_queue vt' = filter (\<lambda>e. \<not> to_expiration e < now) (timeout_queue vt)"
    and "map_of (vt_table vt') i =
      (if \<exists>e \<in> set (timeout_queue vt). to_id e = i \<and> to_expiration e < now then None else map_of (vt_table vt) i)"
    and "route ps' l k =
      (if \<exists>i v. map_of (vt_table vt) i = Some v \<and> map_of (vt_table vt') i = None \<and> lists_route v l k then None
       else route ps l k)"
proof -
  obtain vt1 where loop: "expire_loop now vt ps = (vt1, ps')" and vt': "vt' = rebuild env vt1"
    using assms(2) by (auto simp: handle_expirations_def split: prod.splits)
  note exact = expire_loop_exact [OF assms(1) loop]
  show "timeout_queue vt' = filter (\<lambda>e. \<not> to_expiration e < now) (timeout_queue vt)" using exact by (simp add: vt')
  show "map_of (vt_table vt') i =
      (if \<exists>e \<in> set (timeout_queue vt). to_id e = i \<and> to_expiration e < now then None else map_of (vt_table vt) i)"
    using exact by (simp add: vt')
  show "route ps' l k =
      (if \<exists>i v. map_of (vt_table vt) i = Some v \<and> map_of (vt_table vt') i = None \<and> lists_route v l k then None
       else route ps l k)"
    using exact by (simp add: vt')
qed

text \<open>Every table a node builds has the timeout of each of its visas.\<close>

lemma timeouts_ok_sub:
  assumes "timeouts_ok vt" and "timeout_queue vt' = timeout_queue vt"
    and "\<And>i v'. map_of (vt_table vt') i = Some v' \<Longrightarrow>
      \<exists>v. map_of (vt_table vt) i = Some v \<and> expires (visa v) = expires (visa v')"
  shows "timeouts_ok vt'"
  using assms unfolding timeouts_ok_def by fastforce

lemma vt_built_timeouts: "vt_built env vt \<Longrightarrow> timeouts_ok vt"
proof (induction rule: vt_built.induct)
  case built_new
  then show ?case by (simp add: timeouts_ok_def VisaTable_new_def)
next
  case (built_insert vt v i vt')
  then show ?case
    by (auto simp: insert_visa_def Visa_new_def Let_def timeouts_ok_def heap_push_def update_conv' set_insort_key
        sorted_insort split: if_splits option.splits)
next
  case (built_link vt i e)
  then show ?case
    by (intro timeouts_ok_sub [OF built_link.IH])
      (auto simp: link_forwarding_entry_def Visa_link_forwarding_entry_def update_conv' split: option.splits if_splits)
next
  case (built_unlink vt i e)
  then show ?case
    by (intro timeouts_ok_sub [OF built_unlink.IH])
      (auto simp: unlink_forwarding_entry_def Visa_unlink_forwarding_entry_def update_conv' split: option.splits if_splits)
next
  case (built_revoke vt ps i)
  obtain r vt1 ps1 where e: "revoke_no_rebuild vt ps i = (r, vt1, ps1)" by (metis prod_cases3)
  show ?case
    using revoke_no_rebuild_table [OF e]
    by (intro timeouts_ok_sub [OF built_revoke.IH]) (auto simp: revoke_def e split: if_splits)
next
  case (built_drop vt l ps)
  define ids where "ids = [i. (i, v) \<leftarrow> vt_table vt, i \<ge> MIN_VISA_ID \<and> list_ex (\<lambda>e. fe_link e = l) (streams v)]"
  obtain vt1 ps1 where r: "revoke_all vt ps ids = (vt1, ps1)" by fastforce
  have "revoke_for_link env vt l ps = (if ids = [] then (vt, ps) else (rebuild env vt1, ps1))"
    using r by (simp add: revoke_for_link_def ids_def [symmetric] Let_def)
  then show ?case
    using revoke_all_table [OF r] revoke_all_queue [OF r]
    by (intro timeouts_ok_sub [OF built_drop.IH]) (auto split: if_splits)
next
  case (built_expire vt now ps)
  obtain vt' ps' where h: "handle_expirations env now vt ps = (vt', ps')" by fastforce
  have q: "sorted (timeout_queue vt)" by (rule timeouts_okD(1) [OF built_expire.IH])
  have "VisaTimeout i (expires (visa v)) \<in> set (timeout_queue vt')" if "map_of (vt_table vt') i = Some v" for i v
    using that handle_expirations_exact(1,2) [OF q h] timeouts_okD(2) [OF built_expire.IH, of i v]
    by (auto split: if_splits)
  then show ?case
    using q handle_expirations_exact(1) [OF q h] by (simp add: h timeouts_ok_def sorted_wrt_filter)
qed

text \<open>C17 (functional). What handling the expirations at a time removes, for every table built with the operations of
the visa table: a visa goes exactly when one of the timeouts queued under its ID has passed, be it its own or
that of an older visa with this ID, so that no visa stays past its own expiration; and a forwarding entry goes
exactly when one of the removed visas lists it.\<close>

theorem expirations_exact:
  assumes "vt_built env vt" and "handle_expirations env now vt ps = (vt', ps')"
  shows "map_of (vt_table vt') i =
      (if \<exists>e \<in> set (timeout_queue vt). to_id e = i \<and> to_expiration e < now then None else map_of (vt_table vt) i)
    \<and> (map_of (vt_table vt') i = Some v \<longrightarrow> now \<le> expires (visa v))
    \<and> route ps' l k =
      (if \<exists>j w. map_of (vt_table vt) j = Some w \<and> map_of (vt_table vt') j = None
          \<and> (\<exists>e \<in> set (streams w). fe_link e = l \<and> slab_key (fe_stream e) = k) then None
       else route ps l k)"
proof (intro conjI impI)
  have ok: "timeouts_ok vt" by (rule vt_built_timeouts [OF assms(1)])
  note exact = handle_expirations_exact [OF timeouts_okD(1) [OF ok] assms(2)]
  show "map_of (vt_table vt') i =
      (if \<exists>e \<in> set (timeout_queue vt). to_id e = i \<and> to_expiration e < now then None else map_of (vt_table vt) i)"
    by (rule exact(2))
  show "now \<le> expires (visa v)" if "map_of (vt_table vt') i = Some v"
    using that exact(2) [of i] timeouts_okD(2) [OF ok, of i v] by (force split: if_splits)
  show "route ps' l k =
      (if \<exists>j w. map_of (vt_table vt) j = Some w \<and> map_of (vt_table vt') j = None
          \<and> (\<exists>e \<in> set (streams w). fe_link e = l \<and> slab_key (fe_stream e) = k) then None
       else route ps l k)"
    using exact(3) [of l k] by (simp add: lists_route_def)
qed

definition demo_visa_env :: "(bytes, unit) visa_env" where
  "demo_visa_env = \<lparr> ip_default = [], ip_unspecified = [], lt_new = (), lt_insert = (\<lambda>_ _ _. ()),
     lt_add_hash = (\<lambda>_ _. ()), lt_find = (\<lambda>_ _. None) \<rparr>"

definition demo_visa :: "u64 \<Rightarrow> int \<Rightarrow> bytes vsapi_visa" where
  "demo_visa i t = \<lparr> issuer_id = i, expires = t, visa_full = True,
     dock_pep = Some \<lparr> dp_dest_addr = dst_address demo_tc, dp_five_tuple = demo_tc,
       dp_ingress_key = [], dp_egress_key = [] \<rparr>, fwd_next_hop = None \<rparr>"

definition demo_vt :: "(bytes, unit) VisaTable" where
  "demo_vt = snd (projr (insert_visa demo_visa_env (VisaTable_new demo_visa_env) (demo_visa 1000 50)))"

lemmas demo_visa_defs = demo_vt_def demo_visa_def demo_visa_env_def insert_visa_def VisaTable_new_def
  Visa_new_def heap_push_def

lemma demo_inserted: "insert_visa demo_visa_env (VisaTable_new demo_visa_env) (demo_visa 1000 50) = Inr (1000, demo_vt)"
  by (simp add: demo_visa_defs)

lemma demo_vt_built: "vt_built demo_visa_env demo_vt"
  by (rule built_insert [OF built_new demo_inserted])

theorem expirations_exact_witness:
  "\<exists>vt' ps'. handle_expirations demo_visa_env 51 demo_vt Map.empty = (vt', ps')
    \<and> map_of (vt_table vt') 1000 = None \<and> map_of (vt_table demo_vt) 1000 \<noteq> None"
proof -
  obtain vt' ps' where h: "handle_expirations demo_visa_env 51 demo_vt Map.empty = (vt', ps')"
    by (metis surj_pair)
  have "timeout_queue demo_vt = [VisaTimeout 1000 50]" by (simp add: demo_visa_defs)
  then show ?thesis using expirations_exact [OF demo_vt_built h, of 1000] h by (auto simp: demo_visa_defs)
qed

text \<open>A renewed visa expires with its first version: granting a visa again with a
  later expiration leaves the timeout of its first version in the queue, and when
  that passes the renewed visa is removed although it has not expired.\<close>

lemma renewed_visa_removed_early:
  assumes "vt_built env vt" and "insert_visa env vt v1 = Inr (i, vt1)" and "insert_visa env vt1 v2 = Inr (i, vt2)"
    and "expires v1 < now" and "handle_expirations env now vt2 ps = (vt', ps')"
  shows "map_of (vt_table vt') i = None" and "\<exists>w. map_of (vt_table vt2) i = Some w \<and> visa w = v2"
proof -
  have built: "vt_built env vt2" by (intro built_insert [OF _ assms(3)] built_insert [OF assms(1,2)])
  have "VisaTimeout i (expires v1) \<in> set (timeout_queue vt2)"
    using assms(2,3) by (auto simp: insert_visa_def Visa_new_def Let_def heap_push_def set_insort_key
        split: if_splits option.splits)
  then have "\<exists>e \<in> set (timeout_queue vt2). to_id e = i \<and> to_expiration e < now" using assms(4) by force
  then show "map_of (vt_table vt') i = None"
    using handle_expirations_exact(2) [OF timeouts_okD(1) [OF vt_built_timeouts [OF built]] assms(5), of i] by simp
  show "\<exists>w. map_of (vt_table vt2) i = Some w \<and> visa w = v2"
    using assms(3) by (auto simp: insert_visa_def Visa_new_def Let_def update_conv' split: if_splits option.splits)
qed

end
