(* ===== verification/Mgmt_Node.thy ===== *)
theory Mgmt_Node
  imports Visa_Table Classifier Mgmt_Adapter
begin

text \<open>
  The bind machinery of a node: \<open>adapter/ph/src/mgmt/node.rs\<close>, \<open>visa_mgmt.rs\<close>, the peer
  and address functions of \<open>assembly.rs\<close>, \<open>process_visaop\<close> of \<open>vss_worker.rs\<close> and the
  handlers of \<open>mgmt/handlers.rs\<close> that call them.

  The state \<open>node\<close> has the peers, the visas, the visa requests under way and what was
  sent.  A transaction opened on an egress link is its ID; the IDs the transaction
  managers of the links return (None: none free) are the argument \<open>opened\<close> of the
  operations that ask for one, as the answer of the visa service is an argument.  The functions
  of other crates are the record \<open>node_env\<close>; \<open>ne_find\<close> is the search of the peer slab and
  \<open>ne_vacant_link\<close> the link of its next vacant entry.
\<close>

section \<open>The state\<close>

definition ascii :: "string \<Rightarrow> bytes" where
  "ascii s = map of_char s"

datatype 'ip node_msg =
    Stream_id_request u32 u16 u64
  | Bind_egress_stream_request u32 u16 "'ip Ip5TupleTc" "bytes option"
  | Stream_id_success_response u32 u16 u32
  | Stream_id_error_response u32 u16 bytes
  | Bind_actor_address_success_response u32 u16 u32 "'ip Ip5TupleTc" "bytes option"
  | Bind_actor_address_error_response u32 u16 bytes
  | Unbind_egress_stream_indication u32 u32

datatype 'ip visa_task = Visa_request_task u32 u16 "'ip FiveTuple" bool | Visa_push_request_task u32 u16 u64

record ('ip, 'lt) node =
  nd_peers :: "'ip peers"
  nd_visas :: "('ip, 'lt) VisaTable"
  nd_zpr_addr :: "'ip list"
  nd_tasks :: "'ip visa_task list"
  nd_sent :: "'ip node_msg list"
  nd_counters :: mgmt_counters

record ('ip, 'lt) node_env =
  ne_visa :: "('ip, 'lt) visa_env"
  ne_cls :: "'ip cls_env"
  ne_default :: "'ip FiveTuple"
  ne_vacant_key :: "PeerForwardingTable \<Rightarrow> nat option"
  ne_find :: "'ip peers \<Rightarrow> (u32 \<Rightarrow> 'ip PeerState \<Rightarrow> bool) \<Rightarrow> u32 option"
  ne_local_actor_link :: u32
  ne_vacant_link :: "'ip peers \<Rightarrow> u32 option"

datatype NodeInstallTetherError = NT_NoSuchTransaction | NT_LinkClosed

definition send :: "'ip node_msg \<Rightarrow> ('ip, 'lt) node \<Rightarrow> ('ip, 'lt) node" where
  "send msg nd = nd \<lparr> nd_sent := nd_sent nd @ [msg] \<rparr>"

definition node_count :: "ManagementCounterType \<Rightarrow> ('ip, 'lt) node \<Rightarrow> ('ip, 'lt) node" where
  "node_count c nd = nd \<lparr> nd_counters := count_event (nd_counters nd) c \<rparr>"

definition set_peer :: "u32 \<Rightarrow> 'ip PeerState \<Rightarrow> ('ip, 'lt) node \<Rightarrow> ('ip, 'lt) node" where
  "set_peer l p nd = nd \<lparr> nd_peers := (nd_peers nd) (l \<mapsto> p) \<rparr>"

definition set_bind_state :: "u16 \<Rightarrow> BindRequestState option \<Rightarrow> 'ip PeerState \<Rightarrow> 'ip PeerState" where
  "set_bind_state x st p = p \<lparr> bind_request_state := (bind_request_state p) (x := st) \<rparr>"

definition set_awaiting :: "u16 \<Rightarrow> (u32 \<times> u16) option \<Rightarrow> 'ip PeerState \<Rightarrow> 'ip PeerState" where
  "set_awaiting t b p =
     p \<lparr> awaiting_next_hop_bind_table := (awaiting_next_hop_bind_table p) (t := b) \<rparr>"

section \<open>Addresses, links and visas\<close>

definition owns :: "'ip PeerState \<Rightarrow> 'ip \<Rightarrow> bool" where
  "owns p addr \<longleftrightarrow> addr \<in> set (ps_addresses p) \<or> ps_aaa_address p = Some addr"

definition find_egress_link :: "('ip, 'lt) node_env \<Rightarrow> ('ip, 'lt) node \<Rightarrow> 'ip \<Rightarrow> u32 option" where
  "find_egress_link env nd actor_addr =
     (if actor_addr \<in> set (nd_zpr_addr nd) then Some (ne_local_actor_link env)
      else ne_find env (nd_peers nd) (\<lambda>_ p. owns p actor_addr))"

definition mgmt_insert_visa ::
  "('ip, 'lt) node_env \<Rightarrow> ('ip, 'lt) node \<Rightarrow> 'ip vsapi_visa
   \<Rightarrow> (('ip VisaTableError + u64) \<times> ('ip, 'lt) node) res" where
  "mgmt_insert_visa env nd v =
     (if \<not> visa_full v then Inl (Assert_failed ''Forward only visas not yet supported'')
      else case dock_pep v of
        None \<Rightarrow> Inl (Unwrap_failed ''dock_pep'')
      | Some pep \<Rightarrow>
          let hop = (case fwd_next_hop v of Some a \<Rightarrow> a | None \<Rightarrow> dp_dest_addr pep) in
          if find_egress_link env nd hop = None
          then Inr (Inl (VT_DestNotFound hop), node_count M_VisaRequestError nd)
          else bindR (insert_visa (ne_visa env) (nd_visas nd) v)
            (\<lambda>(visa_id, vt). Inr (Inr visa_id, nd \<lparr> nd_visas := vt \<rparr>)))"

definition get_egress_link_for_visa ::
  "('ip, 'lt) node_env \<Rightarrow> ('ip, 'lt) node \<Rightarrow> u64 \<Rightarrow> 'ip VisaTableError + u32" where
  "get_egress_link_for_visa env nd visa_id =
     (case get_visa_next_hop_addr (ne_visa env) (nd_visas nd) visa_id of
        Inl e \<Rightarrow> Inl e
      | Inr addr \<Rightarrow>
          (case find_egress_link env nd addr of
             None \<Rightarrow> Inl (VT_DestNotFound addr)
           | Some link_id \<Rightarrow> Inr link_id))"

definition handle_revocation :: "('ip, 'lt) node_env \<Rightarrow> ('ip, 'lt) node \<Rightarrow> u64 \<Rightarrow> ('ip, 'lt) node" where
  "handle_revocation env nd visa_id =
     (case revoke (ne_visa env) (nd_visas nd) (nd_peers nd) visa_id of
        (vt, ps) \<Rightarrow> nd \<lparr> nd_visas := vt, nd_peers := ps \<rparr>)"

section \<open>The bind-request state machine\<close>

definition bind_reject ::
  "('ip, 'lt) node \<Rightarrow> u32 \<Rightarrow> u16 \<Rightarrow> bytes \<Rightarrow> ('ip, 'lt) node res" where
  "bind_reject nd ingress_link_id txn_id reason =
     (case nd_peers nd ingress_link_id of
        None \<Rightarrow> Inr nd
      | Some p \<Rightarrow>
          let nd1 = set_peer ingress_link_id (set_bind_state txn_id None p) nd in
          bindR (case bind_request_state p txn_id of
                   Some (AwaitingNextHopBind _ egress_link_id egress_bind_txn) \<Rightarrow>
                     (case nd_peers nd1 egress_link_id of
                        Some pe \<Rightarrow>
                          assertR ''lingering next-hop bind''
                            (awaiting_next_hop_bind_table pe egress_bind_txn = None)
                      | None \<Rightarrow> Inr ())
                 | _ \<Rightarrow> Inr ())
            (\<lambda>_. Inr (case ps_type p of
                   PT_Adapter \<Rightarrow>
                     send (Bind_actor_address_error_response ingress_link_id txn_id reason) nd1
                 | PT_Node \<Rightarrow> send (Stream_id_error_response ingress_link_id txn_id reason) nd1
                 | PT_Dock \<Rightarrow> nd1
                 | PT_Unknown \<Rightarrow> nd1)))"

definition requested_visa_denied :: "('ip, 'lt) node \<Rightarrow> u32 \<Rightarrow> u16 \<Rightarrow> ('ip, 'lt) node res" where
  "requested_visa_denied nd ingress_link_id txn_id =
     bind_reject nd ingress_link_id txn_id (ascii ''policy error'')"

text \<open>The last part of \<open>requested_visa_granted\<close>: the next hop is asked.\<close>

definition request_next_hop ::
  "('ip, 'lt) node \<Rightarrow> u32 \<Rightarrow> u16 \<Rightarrow> u64 \<Rightarrow> u32 \<Rightarrow> ('ip Ip5TupleTc \<times> bytes option) option \<Rightarrow> (u32 \<Rightarrow> u16 option)
   \<Rightarrow> ('ip, 'lt) node res" where
  "request_next_hop nd ingress_link_id txn_id visa_id egress_link_id tc opened =
     (case opened egress_link_id of
        None \<Rightarrow> Inl (Unwrap_failed ''FIXME TODO: bind backpressure #1176'')
      | Some t \<Rightarrow>
          (case nd_peers nd ingress_link_id of
             None \<Rightarrow> Inr nd
           | Some p \<Rightarrow>
               let nd1 = set_peer ingress_link_id
                     (set_bind_state txn_id (Some (AwaitingNextHopBind visa_id egress_link_id t)) p) nd
               in case nd_peers nd1 egress_link_id of
                 None \<Rightarrow> Inr nd1
               | Some pe \<Rightarrow>
                   let nd2 = set_peer egress_link_id (set_awaiting t (Some (ingress_link_id, txn_id)) pe) nd1
                   in Inr (send (case tc of
                        None \<Rightarrow> Stream_id_request egress_link_id t visa_id
                      | Some (c, key) \<Rightarrow> Bind_egress_stream_request egress_link_id t c key) nd2)))"

definition requested_visa_granted ::
  "('ip, 'lt) node_env \<Rightarrow> ('ip, 'lt) node \<Rightarrow> u32 \<Rightarrow> u16 \<Rightarrow> u64 \<Rightarrow> (u32 \<Rightarrow> u16 option) \<Rightarrow> ('ip, 'lt) node res" where
  "requested_visa_granted env nd ingress_link_id txn_id visa_id opened =
     (case get_egress_link_for_visa env nd visa_id of
        Inl _ \<Rightarrow> requested_visa_denied nd ingress_link_id txn_id
      | Inr egress_link_id \<Rightarrow>
          (case nd_peers nd egress_link_id of
             None \<Rightarrow> requested_visa_denied nd ingress_link_id txn_id
           | Some pe \<Rightarrow>
               (case ps_type pe of
                  PT_Node \<Rightarrow>
                    request_next_hop nd ingress_link_id txn_id visa_id egress_link_id None opened
                | PT_Adapter \<Rightarrow>
                    (case map_of (vt_table (nd_visas nd)) visa_id of
                       None \<Rightarrow> requested_visa_denied nd ingress_link_id txn_id
                     | Some v \<Rightarrow>
                         bindR (get_tc v) (\<lambda>tc.
                           request_next_hop nd ingress_link_id txn_id visa_id egress_link_id
                             (Some (tc, get_ingress_a2a_dh_pubkey v)) opened))
                | PT_Dock \<Rightarrow> requested_visa_denied nd ingress_link_id txn_id
                | PT_Unknown \<Rightarrow> requested_visa_denied nd ingress_link_id txn_id)))"

definition request_visa ::
  "('ip, 'lt) node \<Rightarrow> u32 \<Rightarrow> u16 \<Rightarrow> 'ip PeerState \<Rightarrow> 'ip FiveTuple \<Rightarrow> ('ip, 'lt) node" where
  "request_visa nd ingress_link_id txn_id p five_tuple =
     (let nd1 = node_count M_VisaRequested nd;
          unidirectional = l4_protocol five_tuple \<in> {ICMP, IPV6_ICMP};
          nd2 = nd1 \<lparr> nd_tasks := nd_tasks nd1
                   @ [Visa_request_task ingress_link_id txn_id five_tuple unidirectional] \<rparr>
      in set_peer ingress_link_id (set_bind_state txn_id (Some AwaitingVisaResponse) p) nd2)"

definition bind_actor_address ::
  "('ip, 'lt) node_env \<Rightarrow> ('ip, 'lt) node \<Rightarrow> u32 \<Rightarrow> u16 \<Rightarrow> bytes \<Rightarrow> (u32 \<Rightarrow> u16 option) \<Rightarrow> ('ip, 'lt) node res" where
  "bind_actor_address env nd ingress_link_id txn_id packet_body opened =
     bindR (classify_with_options (ne_cls env)
        (ClassifierOptions_default \<lparr> ignore_truncated_packets := True \<rparr>) (ne_default env) packet_body)
       (\<lambda>(result, five_tuple).
        if result \<noteq> Inr CR_OK then requested_visa_denied nd ingress_link_id txn_id
        else case nd_peers nd ingress_link_id of
          None \<Rightarrow> Inr nd
        | Some p \<Rightarrow>
            if \<not> owns p (src_address five_tuple) then requested_visa_denied nd ingress_link_id txn_id
            else case match_traffic (ne_visa env) (nd_visas nd) five_tuple of
              None \<Rightarrow> Inr (request_visa nd ingress_link_id txn_id p five_tuple)
            | Some matched_visa_id \<Rightarrow>
                (case get_egress_link_for_visa env nd matched_visa_id of
                   Inr _ \<Rightarrow> requested_visa_granted env nd ingress_link_id txn_id matched_visa_id opened
                 | Inl (VT_NotFound _) \<Rightarrow> Inr (request_visa nd ingress_link_id txn_id p five_tuple)
                 | Inl (VT_DestNotFound _) \<Rightarrow>
                     requested_visa_denied (node_count M_VisaRequestError nd) ingress_link_id txn_id
                 | Inl _ \<Rightarrow> Inl (Assert_failed ''Got unexpected error type'')))"

text \<open>The visa-request tasks when the visa service has answered; without a connection to it, which a node
  always has, they panic.\<close>

datatype 'ip visa_decision = Allowed "'ip vsapi_visa" | Denied | Request_error | No_connection

datatype 'ip push_decision = Pushed "'ip vsapi_visa list" | Push_error | Push_no_connection

definition insert_and_grant ::
  "('ip, 'lt) node_env \<Rightarrow> ('ip, 'lt) node \<Rightarrow> u32 \<Rightarrow> u16 \<Rightarrow> 'ip vsapi_visa \<Rightarrow> (u32 \<Rightarrow> u16 option)
   \<Rightarrow> ('ip, 'lt) node res" where
  "insert_and_grant env nd ingress_link_id txn_id v opened =
     bindR (mgmt_insert_visa env nd v) (\<lambda>(r, nd1).
       case r of
         Inr visa_id \<Rightarrow>
           requested_visa_granted env (node_count M_VisaRequestSuccess nd1) ingress_link_id txn_id visa_id opened
       | Inl (VT_ParseError _) \<Rightarrow> requested_visa_denied nd1 ingress_link_id txn_id
       | Inl _ \<Rightarrow> Inl (Assert_failed ''Got unexpected error type''))"

definition visa_request_task ::
  "('ip, 'lt) node_env \<Rightarrow> ('ip, 'lt) node \<Rightarrow> u32 \<Rightarrow> u16 \<Rightarrow> 'ip visa_decision \<Rightarrow> (u32 \<Rightarrow> u16 option)
   \<Rightarrow> ('ip, 'lt) node res" where
  "visa_request_task env nd ingress_link_id txn_id answer opened =
     (case answer of
        Allowed v \<Rightarrow> insert_and_grant env nd ingress_link_id txn_id v opened
      | Denied \<Rightarrow> requested_visa_denied (node_count M_VisaRequestDenied nd) ingress_link_id txn_id
      | Request_error \<Rightarrow> requested_visa_denied (node_count M_VisaRequestError nd) ingress_link_id txn_id
      | No_connection \<Rightarrow> Inl (Unwrap_failed ''vsconn''))"

definition request_stream ::
  "('ip, 'lt) node_env \<Rightarrow> ('ip, 'lt) node \<Rightarrow> u32 \<Rightarrow> u16 \<Rightarrow> u64 \<Rightarrow> (u32 \<Rightarrow> u16 option) \<Rightarrow> ('ip, 'lt) node res" where
  "request_stream env nd ingress_link_id txn_id visa_id opened =
     (case nd_peers nd ingress_link_id of
        None \<Rightarrow> Inr nd
      | Some p \<Rightarrow>
          if map_of (vt_table (nd_visas nd)) visa_id \<noteq> None
          then requested_visa_granted env nd ingress_link_id txn_id visa_id opened
          else
            let nd1 = node_count M_VisaByIdRequested nd;
                nd2 = nd1 \<lparr> nd_tasks := nd_tasks nd1 @ [Visa_push_request_task ingress_link_id txn_id visa_id] \<rparr>
            in Inr (set_peer ingress_link_id (set_bind_state txn_id (Some (AwaitingVisaPush visa_id)) p) nd2))"

definition visa_push_request_task ::
  "('ip, 'lt) node_env \<Rightarrow> ('ip, 'lt) node \<Rightarrow> u32 \<Rightarrow> u16 \<Rightarrow> u64 \<Rightarrow> 'ip push_decision
   \<Rightarrow> (u32 \<Rightarrow> u16 option) \<Rightarrow> ('ip, 'lt) node res" where
  "visa_push_request_task env nd ingress_link_id txn_id req_visa_id answer opened =
     (case answer of
        Push_no_connection \<Rightarrow> Inl (Unwrap_failed ''vsconn'')
      | Push_error \<Rightarrow> requested_visa_denied (node_count M_VisaRequestError nd) ingress_link_id txn_id
      | Pushed visas \<Rightarrow>
          (case find (\<lambda>v. issuer_id v = req_visa_id) visas of
             None \<Rightarrow> requested_visa_denied (node_count M_VisaRequestDenied nd) ingress_link_id txn_id
           | Some v \<Rightarrow> insert_and_grant env nd ingress_link_id txn_id v opened))"

definition requested_tether_granted ::
  "('ip, 'lt) node_env \<Rightarrow> ('ip, 'lt) node \<Rightarrow> u32 \<Rightarrow> u16 \<Rightarrow> u32 \<Rightarrow> ('ip, 'lt) node res" where
  "requested_tether_granted env nd ingress_link_id txn_id egress_tether_id =
     (case nd_peers nd ingress_link_id of
        None \<Rightarrow> Inr nd
      | Some p \<Rightarrow>
          (case bind_request_state p txn_id of
             Some (AwaitingNextHopBind visa_id egress_link_id egress_bind_txn) \<Rightarrow>
               bindR (case nd_peers nd egress_link_id of
                        Some pe \<Rightarrow>
                          assertR ''next-hop bind''
                            (awaiting_next_hop_bind_table pe egress_bind_txn = None)
                      | None \<Rightarrow> Inr ())
                 (\<lambda>_.
                  let p1 = set_bind_state txn_id None p; nd1 = set_peer ingress_link_id p1 nd in
                  case Pft_vacant_entry (ne_vacant_key env) (pft p1) of
                    None \<Rightarrow> bind_reject nd1 ingress_link_id txn_id (ascii ''PFT full'')
                  | Some entry \<Rightarrow>
                      (case map_of (vt_table (nd_visas nd1)) visa_id of
                         None \<Rightarrow> requested_visa_denied nd1 ingress_link_id txn_id
                       | Some v \<Rightarrow>
                           let v1 = Visa_link_forwarding_entry v
                                      (ForwardingEntry ingress_link_id (Vacant_key entry));
                               nd2 = nd1 \<lparr> nd_visas := (nd_visas nd1)
                                      \<lparr> vt_table := AList.update visa_id v1 (vt_table (nd_visas nd1)) \<rparr> \<rparr>;
                               pep = \<lparr> next_hop = ForwardingEntry egress_link_id egress_tether_id,
                                       pep_visa_id = visa_id \<rparr>;
                               ins = Vacant_insert (pft p1) entry pep;
                               nd3 = set_peer ingress_link_id (p1 \<lparr> pft := snd ins \<rparr>) nd2
                           in case ps_type p1 of
                             PT_Node \<Rightarrow>
                               Inr (send (Stream_id_success_response ingress_link_id txn_id (fst ins)) nd3)
                           | PT_Adapter \<Rightarrow>
                               bindR (get_tc v1) (\<lambda>tc.
                                 Inr (send (Bind_actor_address_success_response ingress_link_id txn_id
                                        (fst ins) tc (get_egress_a2a_dh_pubkey v1)) nd3))
                           | PT_Dock \<Rightarrow> requested_visa_denied nd2 ingress_link_id txn_id
                           | PT_Unknown \<Rightarrow> requested_visa_denied nd2 ingress_link_id txn_id))
           | _ \<Rightarrow> Inr nd))"

definition resolve_next_hop_bind_originator ::
  "('ip, 'lt) node \<Rightarrow> u32 \<Rightarrow> u16
   \<Rightarrow> ((NodeInstallTetherError + (u32 \<times> u16)) \<times> ('ip, 'lt) node) res" where
  "resolve_next_hop_bind_originator nd egress_link_id egress_txn =
     (case nd_peers nd egress_link_id of
        None \<Rightarrow> Inr (Inl NT_LinkClosed, nd)
      | Some pe \<Rightarrow>
          (case awaiting_next_hop_bind_table pe egress_txn of
             None \<Rightarrow> Inr (Inl NT_NoSuchTransaction, nd)
           | Some (ingress_link_id, ingress_txn_id) \<Rightarrow>
               let nd1 = set_peer egress_link_id (set_awaiting egress_txn None pe) nd in
               bindR (case nd_peers nd1 ingress_link_id of
                        None \<Rightarrow> Inr ()
                      | Some p \<Rightarrow>
                          (case bind_request_state p ingress_txn_id of
                             Some (AwaitingNextHopBind _ expected_link expected_txn) \<Rightarrow>
                               assertR ''dock state consistency error''
                                 (expected_link = egress_link_id \<and> expected_txn = egress_txn)
                           | _ \<Rightarrow> Inl (Assert_failed ''dock state consistency error'')))
                 (\<lambda>_. Inr (Inr (ingress_link_id, ingress_txn_id), nd1))))"

definition node_install_tether ::
  "('ip, 'lt) node_env \<Rightarrow> ('ip, 'lt) node \<Rightarrow> u32 \<Rightarrow> u16 \<Rightarrow> u32
   \<Rightarrow> ((NodeInstallTetherError + unit) \<times> ('ip, 'lt) node) res" where
  "node_install_tether env nd egress_link_id egress_txn egress_tether_id =
     bindR (resolve_next_hop_bind_originator nd egress_link_id egress_txn) (\<lambda>(r, nd1).
       case r of
         Inl e \<Rightarrow> Inr (Inl e, nd1)
       | Inr (ingress_link_id, ingress_txn_id) \<Rightarrow>
           bindR (requested_tether_granted env nd1 ingress_link_id ingress_txn_id egress_tether_id)
             (\<lambda>nd2. Inr (Inr (), nd2)))"

definition node_deny_tether ::
  "('ip, 'lt) node \<Rightarrow> u32 \<Rightarrow> u16 \<Rightarrow> bytes
   \<Rightarrow> ((NodeInstallTetherError + unit) \<times> ('ip, 'lt) node) res" where
  "node_deny_tether nd egress_link_id egress_txn reason =
     bindR (resolve_next_hop_bind_originator nd egress_link_id egress_txn) (\<lambda>(r, nd1).
       case r of
         Inl e \<Rightarrow> Inr (Inl e, nd1)
       | Inr (ingress_link_id, ingress_txn_id) \<Rightarrow>
           bindR (bind_reject nd1 ingress_link_id ingress_txn_id reason) (\<lambda>nd2. Inr (Inr (), nd2)))"

definition node_unbind_stream :: "('ip, 'lt) node \<Rightarrow> u32 \<Rightarrow> u32 \<Rightarrow> ('ip, 'lt) node" where
  "node_unbind_stream nd ingress_link_id stream_id =
     (case nd_peers nd ingress_link_id of
        None \<Rightarrow> nd
      | Some p \<Rightarrow>
          (case Pft_get (pft p) stream_id of
             None \<Rightarrow> nd
           | Some pep \<Rightarrow>
               let nd1 = set_peer ingress_link_id (p \<lparr> pft := Pft_remove (pft p) stream_id \<rparr>) nd;
                   nd2 = nd1 \<lparr> nd_visas := snd (unlink_forwarding_entry (nd_visas nd1) (pep_visa_id pep) (next_hop pep)) \<rparr>
               in send (Unbind_egress_stream_indication (fe_link (next_hop pep)) stream_id) nd2))"

section \<open>Peers and pushed visas\<close>

text \<open>\<open>address_known\<close> is whether a peer with this substrate address on this interface is in the table
  (the theory \<open>Peer_Table\<close> has the table with its addresses).\<close>

definition add_peer ::
  "('ip, 'lt) node_env \<Rightarrow> ('ip, 'lt) node \<Rightarrow> bool \<Rightarrow> PeerType \<Rightarrow> ((PeerInsertError + u32) \<times> ('ip, 'lt) node) res" where
  "add_peer env nd address_known ty =
     (case ne_vacant_link env (nd_peers nd) of
        None \<Rightarrow> Inr (Inl TableFull, nd)
      | Some link_id \<Rightarrow>
          if address_known then Inl (Assert_failed ''duplicate peer substrate address'')
          else Inr (Inr link_id, set_peer link_id (PeerState_new ty) nd))"

definition drop_peer :: "('ip, 'lt) node_env \<Rightarrow> ('ip, 'lt) node \<Rightarrow> u32 \<Rightarrow> ('ip, 'lt) node" where
  "drop_peer env nd link_id =
     (case revoke_for_link (ne_visa env) (nd_visas nd) link_id (nd_peers nd) of
        (vt, ps) \<Rightarrow> nd \<lparr> nd_visas := vt, nd_peers := ps (link_id := None) \<rparr>)"

datatype 'ip VisaOp = Grant "'ip vsapi_visa" | RevokeVisaId u64

definition process_visaop ::
  "('ip, 'lt) node_env \<Rightarrow> ('ip, 'lt) node \<Rightarrow> 'ip VisaOp
   \<Rightarrow> (('ip VisaTableError + unit) \<times> ('ip, 'lt) node) res" where
  "process_visaop env nd op =
     (case op of
        Grant v \<Rightarrow>
          bindR (mgmt_insert_visa env nd v) (\<lambda>(r, nd1).
            Inr (case r of Inl e \<Rightarrow> Inl e | Inr _ \<Rightarrow> Inr (), nd1))
      | RevokeVisaId i \<Rightarrow> Inr (Inr (), handle_revocation env nd i))"

section \<open>The handlers\<close>

definition peer_type_by_id :: "('ip, 'lt) node \<Rightarrow> u32 \<Rightarrow> PeerType" where
  "peer_type_by_id nd link_id =
     (case nd_peers nd link_id of Some p \<Rightarrow> ps_type p | None \<Rightarrow> PT_Unknown)"

type_synonym ('ip, 'lt) handled = "((HandleMgmtError + unit) \<times> ('ip, 'lt) node) res"

definition handle_bind_actor_address_request ::
  "('ip, 'lt) node_env \<Rightarrow> ('ip, 'lt) node \<Rightarrow> u32 \<Rightarrow> u16 \<Rightarrow> bytes \<Rightarrow> (u32 \<Rightarrow> u16 option) \<Rightarrow> ('ip, 'lt) handled" where
  "handle_bind_actor_address_request env nd ingress_link_id txn_id pkt opened =
     (if length pkt < 3 then Inr (Inl HE_BadStructure, nd)
      else let endpoint_packet_length = unat (get_word (take 2 (drop 1 pkt)) :: u16); rest = drop 3 pkt in
        if endpoint_packet_length > length rest then Inr (Inl HE_BadStructure, nd)
        else if ingress_link_id = 0 then Inr (Inr (), nd)
        else if peer_type_by_id nd ingress_link_id \<noteq> PT_Adapter then Inr (Inl HE_MessageNotPermitted, nd)
        else bindR (bind_actor_address env nd ingress_link_id txn_id (take endpoint_packet_length rest) opened)
          (\<lambda>nd1. Inr (Inr (), nd1)))"

definition handle_stream_id_request ::
  "('ip, 'lt) node_env \<Rightarrow> ('ip, 'lt) node \<Rightarrow> u32 \<Rightarrow> u16 \<Rightarrow> bytes \<Rightarrow> (u32 \<Rightarrow> u16 option) \<Rightarrow> ('ip, 'lt) handled" where
  "handle_stream_id_request env nd ingress_link_id txn_id pkt opened =
     (if length pkt < 8 then Inr (Inl HE_BadStructure, nd)
      else if ingress_link_id = 0 then Inr (Inr (), nd)
      else if peer_type_by_id nd ingress_link_id \<noteq> PT_Node then Inr (Inl HE_MessageNotPermitted, nd)
      else bindR (request_stream env nd ingress_link_id txn_id (get_word (take 8 pkt)) opened)
        (\<lambda>nd1. Inr (Inr (), nd1)))"

definition from_node_tether_result ::
  "((NodeInstallTetherError + unit) \<times> ('ip, 'lt) node) res \<Rightarrow> ('ip, 'lt) handled" where
  "from_node_tether_result m =
     bindR m (\<lambda>(r, nd). Inr (case r of
         Inl NT_NoSuchTransaction \<Rightarrow> Inl HE_UnknownTransaction
       | Inl NT_LinkClosed \<Rightarrow> Inl HE_LinkClosed
       | Inr _ \<Rightarrow> Inr (), nd))"

text \<open>\<open>handle_stream_id_response\<close> and \<open>handle_bind_egress_stream_response\<close> differ in the
  name of the header only; \<open>live\<close> is whether the link's transaction manager has the ID.\<close>

definition handle_stream_id_response ::
  "('ip, 'lt) node_env \<Rightarrow> ('ip, 'lt) node \<Rightarrow> u32 \<Rightarrow> u16 \<Rightarrow> bool \<Rightarrow> u32 \<Rightarrow> bytes \<Rightarrow> ('ip, 'lt) handled" where
  "handle_stream_id_response env nd link_id txn_id live stream_id pkt =
     (case nd_peers nd link_id of
        None \<Rightarrow> Inr (Inl HE_LinkClosed, nd)
      | Some _ \<Rightarrow>
          if \<not> live then Inr (Inl HE_UnknownTransaction, nd)
          else if length pkt < 2 then Inr (Inl HE_BadStructure, nd)
          else let info_len = unat (pkt ! 1); rest = drop 2 pkt in
            if pkt ! 0 = 0 then from_node_tether_result (node_install_tether env nd link_id txn_id stream_id)
            else if pkt ! 0 = 1 then
              (if info_len > length rest then Inr (Inl HE_BadStructure, nd)
               else if \<not> is_utf8 (take info_len rest) then Inr (Inl HE_BadStructure, nd)
               else from_node_tether_result (node_deny_tether nd link_id txn_id (take info_len rest)))
            else Inr (Inl HE_BadStructure, nd))"

definition handle_bind_egress_stream_response ::
  "('ip, 'lt) node_env \<Rightarrow> ('ip, 'lt) node \<Rightarrow> u32 \<Rightarrow> u16 \<Rightarrow> bool \<Rightarrow> u32 \<Rightarrow> bytes \<Rightarrow> ('ip, 'lt) handled" where
  "handle_bind_egress_stream_response env nd link_id txn_id live stream_id pkt =
     handle_stream_id_response env nd link_id txn_id live stream_id pkt"

definition node_unbind_indication ::
  "('ip, 'lt) node \<Rightarrow> u32 \<Rightarrow> u32 \<Rightarrow> (HandleMgmtError + unit) \<times> ('ip, 'lt) node" where
  "node_unbind_indication nd ingress_link_id stream_id =
     (if ingress_link_id = 0 then (Inr (), nd)
      else case nd_peers nd ingress_link_id of
        None \<Rightarrow> (Inl HE_LinkClosed, nd)
      | Some p \<Rightarrow>
          (case ps_type p of
             PT_Adapter \<Rightarrow> (Inr (), node_unbind_stream nd ingress_link_id stream_id)
           | PT_Dock \<Rightarrow> (Inr (), nd)
           | PT_Node \<Rightarrow> (Inl HE_MessageNotPermitted, nd)
           | PT_Unknown \<Rightarrow> (Inl HE_MessageNotPermitted, nd)))"

section \<open>A node and its environment\<close>

text \<open>What can happen to a node: messages of its peers, answers and pushes of the visa
  service, and links that come, go or are granted addresses.\<close>

datatype 'ip node_event =
    Bind_request u32 u16 bytes "u32 \<Rightarrow> u16 option"
  | Stream_request u32 u16 bytes "u32 \<Rightarrow> u16 option"
  | Visa_answer u32 u16 "'ip visa_decision" "u32 \<Rightarrow> u16 option"
  | Push_answer u32 u16 u64 "'ip push_decision" "u32 \<Rightarrow> u16 option"
  | Tether_response u32 u16 bool u32 bytes
  | Unbind u32 u32
  | Visaop "'ip VisaOp"
  | Peer_added bool PeerType
  | Peer_dropped u32
  | Addresses_set u32 "'ip list" "'ip option"

fun task_of :: "'ip visa_task \<Rightarrow> u32 \<times> u16" where
  "task_of (Visa_request_task l x _ _) = (l, x)"
| "task_of (Visa_push_request_task l x _) = (l, x)"

definition end_task :: "u32 \<Rightarrow> u16 \<Rightarrow> ('ip, 'lt) node \<Rightarrow> ('ip, 'lt) node" where
  "end_task l x nd = nd \<lparr> nd_tasks := filter (\<lambda>t. task_of t \<noteq> (l, x)) (nd_tasks nd) \<rparr>"

fun node_exec :: "('ip, 'lt) node_env \<Rightarrow> ('ip, 'lt) node \<Rightarrow> 'ip node_event \<Rightarrow> ('ip, 'lt) node res" where
  "node_exec env nd (Bind_request l x pkt opened) =
     bindR (handle_bind_actor_address_request env nd l x pkt opened) (\<lambda>(_, nd'). Inr nd')"
| "node_exec env nd (Stream_request l x pkt opened) =
     bindR (handle_stream_id_request env nd l x pkt opened) (\<lambda>(_, nd'). Inr nd')"
| "node_exec env nd (Visa_answer l x answer opened) =
     visa_request_task env (end_task l x nd) l x answer opened"
| "node_exec env nd (Push_answer l x i answer opened) =
     visa_push_request_task env (end_task l x nd) l x i answer opened"
| "node_exec env nd (Tether_response e t live s pkt) =
     bindR (handle_stream_id_response env nd e t live s pkt) (\<lambda>(_, nd'). Inr nd')"
| "node_exec env nd (Unbind l s) = Inr (snd (node_unbind_indication nd l s))"
| "node_exec env nd (Visaop op) = bindR (process_visaop env nd op) (\<lambda>(_, nd'). Inr nd')"
| "node_exec env nd (Peer_added known ty) = bindR (add_peer env nd known ty) (\<lambda>(_, nd'). Inr nd')"
| "node_exec env nd (Peer_dropped l) = Inr (drop_peer env nd l)"
| "node_exec env nd (Addresses_set l addrs aaa) =
     Inr (case nd_peers nd l of
            None \<Rightarrow> nd
          | Some p \<Rightarrow> set_peer l (p \<lparr> ps_addresses := addrs, ps_aaa_address := aaa \<rparr>) nd)"

end
