(* ===== verification/Node_Binds.thy ===== *)
theory Node_Binds
  imports Mgmt_Node
begin

text \<open>
  The bind machinery of a node over whole runs: which records of a bind request point to
  each other, that no step of a disciplined environment panics, and that no forwarding
  entry outlives its visa.
\<close>

section \<open>The tables of a node\<close>

definition here :: "('ip, 'lt) node \<Rightarrow> u32 \<Rightarrow> bool" where
  "here nd l \<longleftrightarrow> nd_peers nd l \<noteq> None"

definition bst :: "('ip, 'lt) node \<Rightarrow> u32 \<Rightarrow> u16 \<Rightarrow> BindRequestState option" where
  "bst nd l x = (case nd_peers nd l of None \<Rightarrow> None | Some p \<Rightarrow> bind_request_state p x)"

definition awt :: "('ip, 'lt) node \<Rightarrow> u32 \<Rightarrow> u16 \<Rightarrow> (u32 \<times> u16) option" where
  "awt nd e t = (case nd_peers nd e of None \<Rightarrow> None | Some p \<Rightarrow> awaiting_next_hop_bind_table p t)"

named_theorems node_simps

lemma bst_here: "bst nd l x = Some st \<Longrightarrow> here nd l"
  by (auto simp: bst_def here_def split: option.splits)

lemma awt_here: "awt nd l x = Some b \<Longrightarrow> here nd l"
  by (auto simp: awt_def here_def split: option.splits)

lemma fields_send [node_simps]:
  "nd_peers (send m nd) = nd_peers nd" "nd_visas (send m nd) = nd_visas nd"
  "nd_tasks (send m nd) = nd_tasks nd" "nd_zpr_addr (send m nd) = nd_zpr_addr nd"
  by (simp_all add: send_def)

lemma fields_count [node_simps]:
  "nd_peers (node_count c nd) = nd_peers nd" "nd_visas (node_count c nd) = nd_visas nd"
  "nd_tasks (node_count c nd) = nd_tasks nd" "nd_zpr_addr (node_count c nd) = nd_zpr_addr nd"
  by (simp_all add: node_count_def)

lemma fields_set_peer [node_simps]:
  "nd_peers (set_peer l p nd) = (nd_peers nd) (l \<mapsto> p)" "nd_visas (set_peer l p nd) = nd_visas nd"
  "nd_tasks (set_peer l p nd) = nd_tasks nd" "nd_zpr_addr (set_peer l p nd) = nd_zpr_addr nd"
  by (simp_all add: set_peer_def)

lemma set_bind_state_sel [node_simps]:
  "bind_request_state (set_bind_state x st p) = (bind_request_state p) (x := st)"
  "awaiting_next_hop_bind_table (set_bind_state x st p) = awaiting_next_hop_bind_table p"
  "pft (set_bind_state x st p) = pft p" "ps_type (set_bind_state x st p) = ps_type p"
  by (simp_all add: set_bind_state_def)

lemma set_awaiting_sel [node_simps]:
  "awaiting_next_hop_bind_table (set_awaiting t b p) = (awaiting_next_hop_bind_table p) (t := b)"
  "bind_request_state (set_awaiting t b p) = bind_request_state p"
  "pft (set_awaiting t b p) = pft p" "ps_type (set_awaiting t b p) = ps_type p"
  by (simp_all add: set_awaiting_def)

section \<open>Records of bind requests\<close>

text \<open>The links, bind requests, next-hop requests and visa tasks of a node, as the
  functions and lists the invariant is about.  A request in \<open>exc\<close> is being settled: nothing
  points to it.\<close>

definition binds_ok ::
  "(u32 \<times> u16) set \<Rightarrow> (u32 \<Rightarrow> bool) \<Rightarrow> (u32 \<Rightarrow> u16 \<Rightarrow> BindRequestState option)
   \<Rightarrow> (u32 \<Rightarrow> u16 \<Rightarrow> (u32 \<times> u16) option) \<Rightarrow> (u32 \<times> u16) set \<Rightarrow> bool" where
  "binds_ok exc H B A T \<longleftrightarrow>
     (\<forall>e t l x. A e t = Some (l, x) \<longrightarrow> (l, x) \<notin> exc)
     \<and> (\<forall>e t l x. A e t = Some (l, x) \<longrightarrow> (l, x) \<notin> T)
     \<and> (\<forall>e t d u b. A e t = Some b \<longrightarrow> A d u = Some b \<longrightarrow> (d, u) = (e, t))
     \<and> (\<forall>e t l x. A e t = Some (l, x) \<longrightarrow> H l \<longrightarrow> (\<exists>v. B l x = Some (AwaitingNextHopBind v e t)))
     \<and> (\<forall>l x v e t. B l x = Some (AwaitingNextHopBind v e t) \<longrightarrow> H e \<longrightarrow> (l, x) \<notin> exc \<longrightarrow> A e t = Some (l, x))
     \<and> (\<forall>l x v e t. B l x = Some (AwaitingNextHopBind v e t) \<longrightarrow> H e \<longrightarrow> (l, x) \<in> exc \<longrightarrow> A e t = None)
     \<and> (\<forall>l x. (l, x) \<in> T \<longrightarrow> (l, x) \<notin> exc)
     \<and> (\<forall>l x. (l, x) \<in> T \<longrightarrow> H l \<longrightarrow> B l x = Some AwaitingVisaResponse \<or> (\<exists>v. B l x = Some (AwaitingVisaPush v)))
     \<and> (\<forall>l x. \<not> H l \<longrightarrow> B l x = None)
     \<and> (\<forall>l x. \<not> H l \<longrightarrow> A l x = None)"

lemma binds_okI:
  assumes "\<And>e t l x. A e t = Some (l, x) \<Longrightarrow> (l, x) \<notin> exc"
    and "\<And>e t l x. A e t = Some (l, x) \<Longrightarrow> (l, x) \<notin> T"
    and "\<And>e t d u b. A e t = Some b \<Longrightarrow> A d u = Some b \<Longrightarrow> (d, u) = (e, t)"
    and "\<And>e t l x. A e t = Some (l, x) \<Longrightarrow> H l \<Longrightarrow> \<exists>v. B l x = Some (AwaitingNextHopBind v e t)"
    and "\<And>l x v e t. B l x = Some (AwaitingNextHopBind v e t) \<Longrightarrow> H e \<Longrightarrow> (l, x) \<notin> exc \<Longrightarrow> A e t = Some (l, x)"
    and "\<And>l x v e t. B l x = Some (AwaitingNextHopBind v e t) \<Longrightarrow> H e \<Longrightarrow> (l, x) \<in> exc \<Longrightarrow> A e t = None"
    and "\<And>l x. (l, x) \<in> T \<Longrightarrow> (l, x) \<notin> exc"
    and "\<And>l x. (l, x) \<in> T \<Longrightarrow> H l \<Longrightarrow> B l x = Some AwaitingVisaResponse \<or> (\<exists>v. B l x = Some (AwaitingVisaPush v))"
    and "\<And>l x. \<not> H l \<Longrightarrow> B l x = None" and "\<And>l x. \<not> H l \<Longrightarrow> A l x = None"
  shows "binds_ok exc H B A T"
  unfolding binds_ok_def by (intro conjI allI impI) (rule assms; assumption)+

lemma binds_okD:
  assumes "binds_ok exc H B A T"
  shows "A e t = Some (l, x) \<Longrightarrow> (l, x) \<notin> exc" "A e t = Some (l, x) \<Longrightarrow> (l, x) \<notin> T"
    and "A e t = Some (l, x) \<Longrightarrow> H l \<Longrightarrow> \<exists>v. B l x = Some (AwaitingNextHopBind v e t)"
    and "B l x = Some (AwaitingNextHopBind v e t) \<Longrightarrow> H e \<Longrightarrow> (l, x) \<notin> exc \<Longrightarrow> A e t = Some (l, x)"
    and "B l x = Some (AwaitingNextHopBind v e t) \<Longrightarrow> H e \<Longrightarrow> (l, x) \<in> exc \<Longrightarrow> A e t = None"
    and "(l, x) \<in> T \<Longrightarrow> (l, x) \<notin> exc"
    and "(l, x) \<in> T \<Longrightarrow> H l \<Longrightarrow> B l x = Some AwaitingVisaResponse \<or> (\<exists>v. B l x = Some (AwaitingVisaPush v))"
    and "\<not> H l \<Longrightarrow> B l x = None" and "\<not> H l \<Longrightarrow> A l x = None"
    and "A e t = Some b \<Longrightarrow> A d u = Some b \<Longrightarrow> (d, u) = (e, t)"
  using assms unfolding binds_ok_def by - (elim conjE, (metis | simp)+)

abbreviation tasks :: "('ip, 'lt) node \<Rightarrow> (u32 \<times> u16) set" where
  "tasks nd \<equiv> task_of ` set (nd_tasks nd)"

definition binds_inv :: "(u32 \<times> u16) set \<Rightarrow> ('ip, 'lt) node \<Rightarrow> bool" where
  "binds_inv exc nd \<longleftrightarrow> binds_ok exc (here nd) (bst nd) (awt nd) (tasks nd)"

text \<open>A request that nobody points to can be settled.\<close>

lemma binds_ok_except:
  assumes "binds_ok {} H B A T" and "H l" and "B l x = None"
  shows "binds_ok {(l, x)} H B A T"
proof (rule binds_okI)
  note D = binds_okD [OF assms(1)]
  show "(k, y) \<notin> {(l, x)}" if "A e t = Some (k, y)" for e t k y
    using that D(3) assms(2,3) by fastforce
  show "(k, y) \<notin> {(l, x)}" if "(k, y) \<in> T" for k y
    using that D(7) assms(2,3) by fastforce
qed (metis binds_okD [OF assms(1)] assms(2,3) empty_iff singletonD prod.inject option.distinct(1))+

lemma binds_ok_task:
  assumes "binds_ok {} H B A T" and "(l, x) \<in> T"
  shows "binds_ok {(l, x)} H B A (T - {(l, x)})"
proof (rule binds_okI)
  note D = binds_okD [OF assms(1)]
  have state: "B l x \<noteq> Some (AwaitingNextHopBind v e t)" for v e t
    using D(7,8) assms(2) by force
  show "(k, y) \<notin> {(l, x)}" if "A e t = Some (k, y)" for e t k y
    using that D(2) assms(2) by fastforce
  show "A e t = None" if "B k y = Some (AwaitingNextHopBind v e t)" "(k, y) \<in> {(l, x)}" for k y v e t
    using that state by simp
qed (metis binds_okD [OF assms(1)] empty_iff singletonD prod.inject insert_iff Diff_iff)+

text \<open>Settling: the request is forgotten, put before the next hop, or made a visa task.\<close>

lemma binds_ok_forget:
  assumes "binds_ok {(l, x)} H B A T"
  shows "binds_ok {} H (\<lambda>k y. if (k, y) = (l, x) then None else B k y) A T"
proof (rule binds_okI)
  note D = binds_okD [OF assms]
  show "\<exists>v. (if (k, y) = (l, x) then None else B k y) = Some (AwaitingNextHopBind v e t)"
    if "A e t = Some (k, y)" "H k" for e t k y
    using D(1,3) [OF that(1)] that(2) by auto
  show "A e t = Some (k, y)"
    if "(if (k, y) = (l, x) then None else B k y) = Some (AwaitingNextHopBind v e t)" "H e" for k y v e t
    using D(4) [of k y v e t] that by (auto split: if_splits)
  show "(if (k, y) = (l, x) then None else B k y) = Some AwaitingVisaResponse
      \<or> (\<exists>v. (if (k, y) = (l, x) then None else B k y) = Some (AwaitingVisaPush v))"
    if "(k, y) \<in> T" "H k" for k y
    using D(6,7) [OF that(1)] that(2) by auto
qed (metis binds_okD [OF assms] empty_iff singletonD prod.inject)+

lemma binds_ok_next_hop:
  assumes "binds_ok {(l, x)} H B A T" and "H l" and "H e" and "A e t = None"
    and "\<And>k y v. B k y \<noteq> Some (AwaitingNextHopBind v e t)"
  shows "binds_ok {} H (\<lambda>k y. if (k, y) = (l, x) then Some (AwaitingNextHopBind v e t) else B k y)
    (\<lambda>d u. if (d, u) = (e, t) then Some (l, x) else A d u) T"
proof (rule binds_okI)
  note D = binds_okD [OF assms(1)]
  let ?B = "\<lambda>k y. if (k, y) = (l, x) then Some (AwaitingNextHopBind v e t) else B k y"
  let ?A = "\<lambda>d u. if (d, u) = (e, t) then Some (l, x) else A d u"
  show "(k, y) \<notin> T" if "?A d u = Some (k, y)" for d u k y
    using D(2) [of d u k y] D(6) [of l x] that by (auto split: if_splits)
  show "\<exists>w. ?B k y = Some (AwaitingNextHopBind w d u)" if "?A d u = Some (k, y)" "H k" for d u k y
    using D(1,3) [of d u k y] that by (auto split: if_splits)
  show "?A d u = Some (k, y)" if "?B k y = Some (AwaitingNextHopBind w d u)" "H d" for k y w d u
    using D(4) [of k y w d u] that assms(5) by (auto split: if_splits)
  show "?B k y = Some AwaitingVisaResponse \<or> (\<exists>w. ?B k y = Some (AwaitingVisaPush w))"
    if "(k, y) \<in> T" "H k" for k y
    using D(6,7) [of k y] that by auto
  show "(d, u) = (d', u')" if "?A d' u' = Some b" "?A d u = Some b" for d' u' d u b
  proof -
    have "A i j \<noteq> Some (l, x)" for i j using D(1) [of i j l x] by auto
    then show ?thesis using that D(10) [of d' u' b d u] by (auto split: if_splits)
  qed
  show "?B k y = None" if "\<not> H k" for k y using D(8) [of k y] that assms(2) by auto
  show "?A k y = None" if "\<not> H k" for k y using D(9) [of k y] that assms(3) by auto
qed auto

lemma binds_ok_new_task:
  assumes "binds_ok {(l, x)} H B A T" and "H l"
    and "st = AwaitingVisaResponse \<or> (\<exists>v. st = AwaitingVisaPush v)"
  shows "binds_ok {} H (\<lambda>k y. if (k, y) = (l, x) then Some st else B k y) A (insert (l, x) T)"
proof (rule binds_okI)
  note D = binds_okD [OF assms(1)]
  let ?B = "\<lambda>k y. if (k, y) = (l, x) then Some st else B k y"
  show "(k, y) \<notin> insert (l, x) T" if "A d u = Some (k, y)" for d u k y
    using D(1,2) [of d u k y] that by auto
  show "\<exists>w. ?B k y = Some (AwaitingNextHopBind w d u)" if "A d u = Some (k, y)" "H k" for d u k y
    using D(1,3) [of d u k y] that by auto
  show "A d u = Some (k, y)" if "?B k y = Some (AwaitingNextHopBind w d u)" "H d" for k y w d u
    using D(4) [of k y w d u] that assms(3) by (auto split: if_splits)
  show "?B k y = Some AwaitingVisaResponse \<or> (\<exists>w. ?B k y = Some (AwaitingVisaPush w))"
    if "(k, y) \<in> insert (l, x) T" "H k" for k y
    using D(7) [of k y] that assms(3) by auto
  show "?B k y = None" if "\<not> H k" for k y using D(8) [of k y] that assms(2) by auto
qed (metis binds_okD [OF assms(1)] empty_iff singletonD prod.inject insert_iff Diff_iff)+

text \<open>The answer of the next hop is taken up.\<close>

lemma binds_ok_resolve:
  assumes "binds_ok {} H B A T" and "A e t = Some (l, x)"
  shows "binds_ok {(l, x)} H B (\<lambda>d u. if (d, u) = (e, t) then None else A d u) T"
proof (rule binds_okI)
  note D = binds_okD [OF assms(1)]
  let ?A = "\<lambda>d u. if (d, u) = (e, t) then None else A d u"
  have only: "(d, u) = (e, t)" if "A d u = Some (l, x)" for d u
    using D(10) [OF assms(2) that] .
  show "(k, y) \<notin> {(l, x)}" "(k, y) \<notin> T" if "?A d u = Some (k, y)" for d u k y
    using D(2) [of d u k y] that only by (auto split: if_splits)
  show "\<exists>w. B k y = Some (AwaitingNextHopBind w d u)" if "?A d u = Some (k, y)" "H k" for d u k y
    using D(3) [of d u k y] that by (auto split: if_splits)
  show "?A d u = Some (k, y)" if "B k y = Some (AwaitingNextHopBind w d u)" "H d" "(k, y) \<notin> {(l, x)}" for k y w d u
    using D(4) [of k y w d u] that assms(2) by auto
  show "?A d u = None" if "B k y = Some (AwaitingNextHopBind w d u)" "H d" "(k, y) \<in> {(l, x)}" for k y w d u
    using D(4) [of k y w d u] that only by auto
  show "(k, y) \<notin> {(l, x)}" if "(k, y) \<in> T" for k y using D(2) [OF assms(2)] that by auto
  show "(d, u) = (d', u')" if "?A d' u' = Some b" "?A d u = Some b" for d' u' d u b
    using that D(10) [of d' u' b d u] by (auto split: if_splits)
  show "?A k y = None" if "\<not> H k" for k y using D(9) [OF that] by simp
qed (metis binds_okD [OF assms(1)] empty_iff singletonD prod.inject insert_iff Diff_iff)+

text \<open>Links come and go.\<close>

lemma binds_ok_drop:
  assumes "binds_ok {} H B A T"
  shows "binds_ok {} (\<lambda>k. k \<noteq> l \<and> H k) (\<lambda>k y. if k = l then None else B k y)
    (\<lambda>d u. if d = l then None else A d u) T"
proof (rule binds_okI)
  note D = binds_okD [OF assms]
  let ?A = "\<lambda>d u. if d = l then None else A d u" and ?B = "\<lambda>k y. if k = l then None else B k y"
  show "(k, y) \<notin> T" if "?A d u = Some (k, y)" for d u k y
    using D(2) [of d u k y] that by (auto split: if_splits)
  show "\<exists>w. ?B k y = Some (AwaitingNextHopBind w d u)" if "?A d u = Some (k, y)" "k \<noteq> l \<and> H k" for d u k y
    using D(3) [of d u k y] that by (auto split: if_splits)
  show "?A d u = Some (k, y)" if "?B k y = Some (AwaitingNextHopBind w d u)" "d \<noteq> l \<and> H d" for k y w d u
    using D(4) [of k y w d u] that by (auto split: if_splits)
  show "?B k y = Some AwaitingVisaResponse \<or> (\<exists>w. ?B k y = Some (AwaitingVisaPush w))"
    if "(k, y) \<in> T" "k \<noteq> l \<and> H k" for k y
    using D(7) [of k y] that by auto
  show "(d, u) = (d', u')" if "?A d' u' = Some b" "?A d u = Some b" for d' u' d u b
    using that D(10) [of d' u' b d u] by (auto split: if_splits)
  show "?B k y = None" if "\<not> (k \<noteq> l \<and> H k)" for k y using D(8) [of k y] that by auto
  show "?A k y = None" if "\<not> (k \<noteq> l \<and> H k)" for k y using D(9) [of k y] that by auto
qed simp_all

lemma binds_ok_add:
  assumes "binds_ok {} H B A T" and "\<not> H l" and "\<And>x. (l, x) \<notin> T"
    and "\<And>e t x. A e t \<noteq> Some (l, x)" and "\<And>k x v t. B k x \<noteq> Some (AwaitingNextHopBind v l t)"
  shows "binds_ok {} (\<lambda>k. k = l \<or> H k) B A T"
proof (rule binds_okI)
  note D = binds_okD [OF assms(1)]
  show "\<exists>w. B k y = Some (AwaitingNextHopBind w d u)" if "A d u = Some (k, y)" "k = l \<or> H k" for d u k y
    using D(3) [of d u k y] that assms(4) by auto
  show "A d u = Some (k, y)" if "B k y = Some (AwaitingNextHopBind w d u)" "d = l \<or> H d" for k y w d u
    using D(4) [of k y w d u] that assms(5) by auto
  show "B k y = Some AwaitingVisaResponse \<or> (\<exists>w. B k y = Some (AwaitingVisaPush w))"
    if "(k, y) \<in> T" "k = l \<or> H k" for k y
    using D(7) [of k y] that assms(3) by auto
qed (metis binds_okD [OF assms(1)] empty_iff)+

section \<open>What each operation does to the tables\<close>

lemma tables_bind_state:
  assumes "nd_peers nd l = Some p"
  shows "here (set_peer l (set_bind_state x st p) nd) = here nd"
    and "bst (set_peer l (set_bind_state x st p) nd) = (\<lambda>k y. if (k, y) = (l, x) then st else bst nd k y)"
    and "awt (set_peer l (set_bind_state x st p) nd) = awt nd"
    and "route (nd_peers (set_peer l (set_bind_state x st p) nd)) = route (nd_peers nd)"
  using assms by (auto simp: here_def bst_def awt_def route_def node_simps fun_eq_iff)

lemma tables_awaiting:
  assumes "nd_peers nd l = Some p"
  shows "here (set_peer l (set_awaiting x b p) nd) = here nd"
    and "awt (set_peer l (set_awaiting x b p) nd) = (\<lambda>k y. if (k, y) = (l, x) then b else awt nd k y)"
    and "bst (set_peer l (set_awaiting x b p) nd) = bst nd"
    and "route (nd_peers (set_peer l (set_awaiting x b p) nd)) = route (nd_peers nd)"
  using assms by (auto simp: here_def bst_def awt_def route_def node_simps fun_eq_iff)

lemma tables_peers:
  assumes "nd_peers nd' = nd_peers nd"
  shows "here nd' = here nd" "bst nd' = bst nd" "awt nd' = awt nd"
  using assms by (auto simp: here_def bst_def awt_def fun_eq_iff)

definition visas_full :: "('ip, 'lt) VisaTable \<Rightarrow> bool" where
  "visas_full vt \<longleftrightarrow> (\<forall>i v. map_of (vt_table vt) i = Some v \<longrightarrow> (\<exists>tc. get_tc v = Inr tc))"

definition node_inv :: "(u32 \<times> u16) set \<Rightarrow> ('ip, 'lt) node \<Rightarrow> bool" where
  "node_inv exc nd \<longleftrightarrow> binds_inv exc nd
     \<and> routes_ok (nd_visas nd) (nd_peers nd) \<and> visas_full (nd_visas nd)"

lemma routes_ok_route: "route ps' = route ps \<Longrightarrow> routes_ok vt ps' = routes_ok vt ps"
  by (simp add: routes_ok_def)

lemma node_inv_send [node_simps]:
  "node_inv exc (send m nd) = node_inv exc nd" "node_inv exc (node_count c nd) = node_inv exc nd"
  by (simp_all add: node_inv_def binds_inv_def fields_send fields_count
      tables_peers [of "send m nd" nd] tables_peers [of "node_count c nd" nd])

lemma node_inv_gone:
  assumes "node_inv {(l, x)} nd" and "\<not> here nd l"
  shows "node_inv {} nd"
proof -
  have ok: "binds_ok {(l, x)} (here nd) (bst nd) (awt nd) (tasks nd)"
    using assms(1) by (simp add: node_inv_def binds_inv_def)
  have "(\<lambda>k y. if (k, y) = (l, x) then None else bst nd k y) = bst nd"
    using binds_okD(8) [OF ok assms(2)] by (auto simp: fun_eq_iff)
  then show ?thesis using binds_ok_forget [OF ok] assms(1) by (simp add: node_inv_def binds_inv_def)
qed

lemma node_inv_forget:
  assumes "node_inv {(l, x)} nd" and "nd_peers nd l = Some p"
  shows "node_inv {} (set_peer l (set_bind_state x None p) nd)"
    and "node_inv {(l, x)} (set_peer l (set_bind_state x None p) nd)"
proof -
  show inv: "node_inv {} (set_peer l (set_bind_state x None p) nd)"
    using binds_ok_forget [of l x "here nd" "bst nd" "awt nd" "tasks nd"] assms
      routes_ok_route [OF tables_bind_state(4) [OF assms(2)], of "nd_visas nd" x None]
    by (simp add: node_inv_def binds_inv_def tables_bind_state fields_set_peer(2,3))
  then show "node_inv {(l, x)} (set_peer l (set_bind_state x None p) nd)"
    using binds_ok_except [of "here nd" _ _ _ l x] assms(2)
    by (auto simp: node_inv_def binds_inv_def tables_bind_state here_def)
qed

section \<open>Settling a request keeps the invariant\<close>

lemma settled_next_hop:
  assumes "node_inv {(l, x)} nd" and "bst nd l x = Some (AwaitingNextHopBind v e t)"
    and "nd_peers nd e = Some pe"
  shows "awaiting_next_hop_bind_table pe t = None"
proof -
  have "awt nd e t = None"
    using binds_okD(5) [of "{(l, x)}" "here nd" "bst nd" "awt nd" "tasks nd" l x v e t] assms
    by (auto simp: node_inv_def binds_inv_def here_def)
  then show ?thesis using assms(3) by (simp add: awt_def)
qed

lemma bind_reject_ok:
  assumes inv: "node_inv {(l, x)} nd"
  shows "returns_with (node_inv {}) (bind_reject nd l x reason)"
proof (cases "nd_peers nd l")
  case None
  then show ?thesis using node_inv_gone [OF inv] by (simp add: bind_reject_def here_def)
next
  case (Some p)
  let ?nd1 = "set_peer l (set_bind_state x None p) nd"
  have "awaiting_next_hop_bind_table pe t = None"
    if "bind_request_state p x = Some (AwaitingNextHopBind v e t)" "nd_peers ?nd1 e = Some pe" for v e t pe
  proof -
    have "bst nd l x = Some (AwaitingNextHopBind v e t)" using Some that(1) by (simp add: bst_def)
    from settled_next_hop [OF inv this] show ?thesis
      using that(2) Some by (cases "e = l") (auto simp: node_simps)
  qed
  then have "(case bind_request_state p x of
       Some (AwaitingNextHopBind _ e t) \<Rightarrow>
         (case nd_peers ?nd1 e of
            Some pe \<Rightarrow> assertR ''lingering next-hop bind'' (awaiting_next_hop_bind_table pe t = None)
          | None \<Rightarrow> Inr ())
     | _ \<Rightarrow> Inr ()) = Inr ()"
    by (simp split: option.split BindRequestState.split)
  then have "bind_reject nd l x reason = Inr (case ps_type p of
       PT_Adapter \<Rightarrow> send (Bind_actor_address_error_response l x reason) ?nd1
     | PT_Node \<Rightarrow> send (Stream_id_error_response l x reason) ?nd1
     | PT_Dock \<Rightarrow> ?nd1 | PT_Unknown \<Rightarrow> ?nd1)"
    using Some by (simp add: bind_reject_def Let_def)
  then show ?thesis
    using node_inv_forget(1) [OF inv Some] by (cases "ps_type p") (simp_all add: node_simps)
qed

lemma requested_visa_denied_ok:
  "node_inv {(l, x)} nd \<Longrightarrow> returns_with (node_inv {}) (requested_visa_denied nd l x)"
  unfolding requested_visa_denied_def by (rule bind_reject_ok)

text \<open>The transaction managers give out IDs that no live handle has.\<close>

definition opened_ok :: "('ip, 'lt) node \<Rightarrow> (u32 \<Rightarrow> u16 option) \<Rightarrow> bool" where
  "opened_ok nd opened \<longleftrightarrow>
     (\<forall>e. here nd e \<longrightarrow> (\<exists>t. opened e = Some t \<and> awt nd e t = None
        \<and> (\<forall>l x v. bst nd l x \<noteq> Some (AwaitingNextHopBind v e t))))"

lemma request_next_hop_ok:
  assumes inv: "node_inv {(l, x)} nd" and e: "nd_peers nd e = Some pe0" and o: "opened_ok nd opened"
  shows "returns_with (node_inv {}) (request_next_hop nd l x v e tc opened)"
proof -
  have "here nd e" using e by (simp add: here_def)
  then obtain t where t: "opened e = Some t" "awt nd e t = None"
      "\<And>k y w. bst nd k y \<noteq> Some (AwaitingNextHopBind w e t)"
    using o unfolding opened_ok_def by blast
  show ?thesis
  proof (cases "nd_peers nd l")
    case None
    then show ?thesis using node_inv_gone [OF inv] t(1) by (simp add: request_next_hop_def here_def)
  next
    case (Some p)
    let ?nd1 = "set_peer l (set_bind_state x (Some (AwaitingNextHopBind v e t)) p) nd"
    obtain pe where pe: "nd_peers ?nd1 e = Some pe"
      using e Some by (cases "e = l") (auto simp: node_simps)
    let ?nd2 = "set_peer e (set_awaiting t (Some (l, x)) pe) ?nd1"
    have tables: "here ?nd2 = here nd"
      "bst ?nd2 = (\<lambda>k y. if (k, y) = (l, x) then Some (AwaitingNextHopBind v e t) else bst nd k y)"
      "awt ?nd2 = (\<lambda>k y. if (k, y) = (e, t) then Some (l, x) else awt nd k y)"
      by (simp_all only: tables_awaiting(1-3) [OF pe] tables_bind_state(1-3) [OF Some])
    have "binds_inv {} ?nd2"
      using binds_ok_next_hop [of l x "here nd" "bst nd" "awt nd" "tasks nd" e t v] inv Some t(2,3) \<open>here nd e\<close>
      unfolding node_inv_def binds_inv_def tables by (simp add: here_def fields_set_peer(3))
    moreover have "route (nd_peers ?nd2) = route (nd_peers nd)"
      using tables_awaiting(4) [OF pe] tables_bind_state(4) [OF Some] by simp
    then have "routes_ok (nd_visas ?nd2) (nd_peers ?nd2)"
      using inv routes_ok_route [of "nd_peers ?nd2" "nd_peers nd" "nd_visas nd"]
      by (simp add: node_inv_def fields_set_peer(2))
    ultimately have "node_inv {} ?nd2"
      using inv by (simp add: node_inv_def fields_set_peer(2))
    then show ?thesis
      using t(1) Some pe by (simp add: request_next_hop_def Let_def node_inv_send split: option.split)
  qed
qed

lemma requested_visa_granted_ok:
  assumes inv: "node_inv {(l, x)} nd" and o: "opened_ok nd opened"
  shows "returns_with (node_inv {}) (requested_visa_granted env nd l x v opened)"
proof -
  note denied = requested_visa_denied_ok [OF inv] and next_hop = request_next_hop_ok [OF inv _ o]
  show ?thesis
  proof (cases "get_egress_link_for_visa env nd v")
    case (Inl e)
    then show ?thesis using denied by (simp add: requested_visa_granted_def)
  next
    case (Inr e)
    show ?thesis
    proof (cases "nd_peers nd e")
      case None
      then show ?thesis using Inr denied by (simp add: requested_visa_granted_def)
    next
      case (Some pe)
      have "\<exists>tc. get_tc w = Inr tc" if "map_of (vt_table (nd_visas nd)) v = Some w" for w
        using inv that by (auto simp: node_inv_def visas_full_def)
      then show ?thesis using Inr Some denied next_hop [OF Some]
        by (cases "ps_type pe") (auto simp: requested_visa_granted_def split: option.split)
    qed
  qed
qed

lemma new_task_ok:
  assumes inv: "node_inv {(l, x)} nd" and p: "nd_peers nd l = Some p"
    and "st = AwaitingVisaResponse \<or> (\<exists>v. st = AwaitingVisaPush v)" and "task_of tk = (l, x)"
    and nd': "nd' = set_peer l (set_bind_state x (Some st) p) (nd1 \<lparr> nd_tasks := nd_tasks nd1 @ [tk] \<rparr>)"
    and nd1: "nd_peers nd1 = nd_peers nd" "nd_visas nd1 = nd_visas nd" "nd_tasks nd1 = nd_tasks nd"
  shows "node_inv {} nd'"
proof -
  let ?nd2 = "nd1 \<lparr> nd_tasks := nd_tasks nd1 @ [tk] \<rparr>"
  have p2: "nd_peers ?nd2 l = Some p" using p nd1 by simp
  have same: "here ?nd2 = here nd" "bst ?nd2 = bst nd" "awt ?nd2 = awt nd"
    using nd1 by (auto intro!: tables_peers)
  have "binds_ok {} (here nd) (\<lambda>k y. if (k, y) = (l, x) then Some st else bst nd k y) (awt nd)
      (insert (l, x) (tasks nd))"
    using inv p assms(3) by (intro binds_ok_new_task) (simp_all add: node_inv_def binds_inv_def here_def)
  moreover have "tasks nd' = insert (l, x) (tasks nd)"
    using assms(4) nd1 by (simp add: nd' fields_set_peer)
  ultimately have "binds_inv {} nd'"
    unfolding binds_inv_def nd' tables_bind_state [OF p2] same by simp
  moreover have "route (nd_peers nd') = route (nd_peers nd)"
    unfolding nd' tables_bind_state(4) [OF p2] using nd1 by simp
  ultimately show ?thesis
    using inv nd1 routes_ok_route [of "nd_peers nd'" "nd_peers nd" "nd_visas nd"]
    by (simp add: node_inv_def nd' fields_set_peer(2))
qed

lemma request_visa_ok:
  "node_inv {(l, x)} nd \<Longrightarrow> nd_peers nd l = Some p \<Longrightarrow> node_inv {} (request_visa nd l x p ft)"
  by (rule new_task_ok [where st = AwaitingVisaResponse and ?nd1.0 = "node_count M_VisaRequested nd"
        and tk = "Visa_request_task l x ft (l4_protocol ft \<in> {ICMP, IPV6_ICMP})"])
    (auto simp: request_visa_def Let_def fields_count)

lemma visas_fullD: "visas_full vt \<Longrightarrow> map_of (vt_table vt) i = Some v \<Longrightarrow> \<exists>tc. get_tc v = Inr tc"
  by (simp add: visas_full_def)

lemma get_tc_linked [simp]: "get_tc (Visa_link_forwarding_entry v e) = get_tc v"
  by (simp add: get_tc_def Visa_link_forwarding_entry_def)

text \<open>A forwarding entry for a visa of the table, in the slot it was linked with.\<close>

lemma new_route_ok:
  assumes inv: "node_inv exc nd" and p: "nd_peers nd l = Some p"
    and v: "map_of (vt_table (nd_visas nd)) i = Some v"
    and k: "k < PEER_FORWARDING_TABLE_SIZE" "pft p k = None" and pep: "pep_visa_id pep = i"
    and vt: "vt = nd_visas nd \<lparr> vt_table := AList.update i (Visa_link_forwarding_entry v
        (ForwardingEntry l (key_stream k))) (vt_table (nd_visas nd)) \<rparr>"
  shows "node_inv exc (nd \<lparr> nd_visas := vt \<rparr>)"
    and "node_inv exc (set_peer l (p \<lparr> pft := (pft p) (k \<mapsto> pep) \<rparr>) (nd \<lparr> nd_visas := vt \<rparr>))"
proof -
  let ?nd1 = "nd \<lparr> nd_visas := vt \<rparr>"
  let ?nd2 = "set_peer l (p \<lparr> pft := (pft p) (k \<mapsto> pep) \<rparr>) ?nd1"
  have table: "map_of (vt_table vt) =
      (map_of (vt_table (nd_visas nd))) (i \<mapsto> Visa_link_forwarding_entry v (ForwardingEntry l (key_stream k)))"
    by (simp add: vt update_conv')
  have old: "linked (vt_table vt) l' k' j" if "linked (vt_table (nd_visas nd)) l' k' j" for l' k' j
    using that v by (auto simp: linked_def table Visa_link_forwarding_entry_def)
  have new: "linked (vt_table vt) l k i"
    using k(1) by (simp add: linked_def table Visa_link_forwarding_entry_def)
  have full: "visas_full vt"
    using inv v unfolding node_inv_def visas_full_def table by auto
  have r1: "routes_ok vt (nd_peers nd)"
    using inv old by (simp add: node_inv_def routes_ok_def)
  then show "node_inv exc ?nd1"
    using inv full tables_peers [of ?nd1 nd] by (simp add: node_inv_def binds_inv_def)
  have "route (nd_peers ?nd2) l' k' = (if l' = l \<and> k' = k then Some pep else route (nd_peers nd) l' k')" for l' k'
    using p by (simp add: route_def fields_set_peer)
  then have r2: "routes_ok vt (nd_peers ?nd2)"
    using r1 new pep unfolding routes_ok_def by auto
  have "here ?nd2 = here nd" "bst ?nd2 = bst nd" "awt ?nd2 = awt nd"
    using p by (auto simp: here_def bst_def awt_def fields_set_peer fun_eq_iff)
  then show "node_inv exc ?nd2"
    using inv full r2 by (simp add: node_inv_def binds_inv_def fields_set_peer)
qed

lemma requested_tether_granted_ok:
  assumes inv: "node_inv {(l, x)} nd" and slab: "slab_ok PEER_FORWARDING_TABLE_SIZE (ne_vacant_key env)"
    and st: "here nd l \<Longrightarrow> \<exists>v e t. bst nd l x = Some (AwaitingNextHopBind v e t)"
  shows "returns_with (node_inv {}) (requested_tether_granted env nd l x s)"
proof (cases "nd_peers nd l")
  case None
  then show ?thesis using node_inv_gone [OF inv] by (simp add: requested_tether_granted_def here_def)
next
  case (Some p)
  obtain v e t where bs: "bst nd l x = Some (AwaitingNextHopBind v e t)"
    using st Some by (auto simp: here_def)
  then have b: "bind_request_state p x = Some (AwaitingNextHopBind v e t)"
    using Some by (simp add: bst_def)
  have assert: "(case nd_peers nd e of
        Some pe \<Rightarrow> assertR ''next-hop bind'' (awaiting_next_hop_bind_table pe t = None)
      | None \<Rightarrow> Inr ()) = Inr ()"
    using settled_next_hop [OF inv bs] by (simp split: option.split)
  let ?p1 = "set_bind_state x None p"
  let ?nd1 = "set_peer l ?p1 nd"
  note inv1 = node_inv_forget [OF inv Some]
  have p1: "nd_peers ?nd1 l = Some ?p1" by (simp add: fields_set_peer)
  show ?thesis
  proof (cases "ne_vacant_key env (pft ?p1)")
    case None
    then show ?thesis
      using Some b assert bind_reject_ok [OF inv1(2)]
      by (simp add: requested_tether_granted_def Pft_vacant_entry_def Let_def)
  next
    case k: (Some k)
    then have k': "k < PEER_FORWARDING_TABLE_SIZE" "pft ?p1 k = None"
      using slab by (auto simp: slab_ok_def)
    show ?thesis
    proof (cases "map_of (vt_table (nd_visas nd)) v")
      case None
      then show ?thesis
        using Some b assert k requested_visa_denied_ok [OF inv1(2)]
        by (simp add: requested_tether_granted_def Pft_vacant_entry_def Let_def fields_set_peer)
    next
      case w: (Some w)
      then have w1: "map_of (vt_table (nd_visas ?nd1)) v = Some w" by (simp add: fields_set_peer)
      let ?w = "Visa_link_forwarding_entry w (ForwardingEntry l (key_stream k))"
      define vt where "vt = nd_visas ?nd1 \<lparr> vt_table := AList.update v ?w (vt_table (nd_visas ?nd1)) \<rparr>"
      define pep where "pep = \<lparr> next_hop = ForwardingEntry e s, pep_visa_id = v \<rparr>"
      have pep_id: "pep_visa_id pep = v" by (simp add: pep_def)
      note route = new_route_ok [OF _ p1 w1 k' pep_id vt_def]
      have tc: "\<exists>tc. get_tc ?w = Inr tc"
        using visas_fullD [of "nd_visas nd" v w] inv w by (simp add: node_inv_def)
      have "requested_tether_granted env nd l x s =
          (let nd2 = ?nd1 \<lparr> nd_visas := vt \<rparr>; nd3 = set_peer l (?p1 \<lparr> pft := (pft ?p1) (k \<mapsto> pep) \<rparr>) nd2
           in case ps_type ?p1 of
                PT_Node \<Rightarrow> Inr (send (Stream_id_success_response l x (key_stream k)) nd3)
              | PT_Adapter \<Rightarrow> bindR (get_tc ?w) (\<lambda>tc.
                   Inr (send (Bind_actor_address_success_response l x (key_stream k) tc
                     (get_egress_a2a_dh_pubkey ?w)) nd3))
              | PT_Dock \<Rightarrow> requested_visa_denied nd2 l x
              | PT_Unknown \<Rightarrow> requested_visa_denied nd2 l x)"
        using Some b assert k w unfolding vt_def pep_def
        by (cases "ps_type p") (simp_all add: requested_tether_granted_def Pft_vacant_entry_def Let_def
            fields_set_peer set_bind_state_sel Vacant_key_def Vacant_insert_def)
      then show ?thesis
        using route(2) [OF inv1(1)] requested_visa_denied_ok [OF route(1) [OF inv1(2)]] tc
        by (cases "ps_type ?p1") (auto simp: Let_def node_inv_send)
    qed
  qed
qed

lemma resolve_ok:
  assumes inv: "node_inv {} nd"
  shows "returns_with (\<lambda>(r, nd1). case r of
      Inl _ \<Rightarrow> nd1 = nd
    | Inr (l, x) \<Rightarrow> node_inv {(l, x)} nd1
        \<and> (here nd1 l \<longrightarrow> (\<exists>v e t. bst nd1 l x = Some (AwaitingNextHopBind v e t))))
    (resolve_next_hop_bind_originator nd e t)"
proof (cases "nd_peers nd e")
  case None
  then show ?thesis by (simp add: resolve_next_hop_bind_originator_def)
next
  case (Some pe)
  show ?thesis
  proof (cases "awaiting_next_hop_bind_table pe t")
    case None
    then show ?thesis using Some by (simp add: resolve_next_hop_bind_originator_def)
  next
    case a: (Some b)
    obtain l x where b: "b = (l, x)" by (cases b)
    let ?nd1 = "set_peer e (set_awaiting t None pe) nd"
    have ok: "binds_ok {} (here nd) (bst nd) (awt nd) (tasks nd)"
      using inv by (simp add: node_inv_def binds_inv_def)
    have awt: "awt nd e t = Some (l, x)" using Some a b by (simp add: awt_def)
    have "binds_inv {(l, x)} ?nd1"
      unfolding binds_inv_def tables_awaiting [OF Some] fields_set_peer(3)
      by (rule binds_ok_resolve [OF ok awt])
    then have inv1: "node_inv {(l, x)} ?nd1"
      using inv routes_ok_route [OF tables_awaiting(4) [OF Some], of "nd_visas nd" t None]
      by (simp add: node_inv_def fields_set_peer(2))
    have st: "\<exists>v. bst ?nd1 l x = Some (AwaitingNextHopBind v e t)" if "here nd l"
      unfolding tables_awaiting [OF Some] using binds_okD(3) [OF ok awt that] .
    have "(case nd_peers ?nd1 l of
        None \<Rightarrow> Inr ()
      | Some p \<Rightarrow>
          (case bind_request_state p x of
             Some (AwaitingNextHopBind _ e' t') \<Rightarrow>
               assertR ''dock state consistency error'' (e' = e \<and> t' = t)
           | _ \<Rightarrow> Inl (Assert_failed ''dock state consistency error''))) = Inr ()"
    proof (cases "nd_peers ?nd1 l")
      case (Some p)
      then have "here nd l" using tables_awaiting(1) [OF \<open>nd_peers nd e = Some pe\<close>, of t None]
        by (auto simp: here_def fun_eq_iff)
      from st [OF this] Some show ?thesis by (auto simp: bst_def)
    qed simp
    then have "resolve_next_hop_bind_originator nd e t = Inr (Inr (l, x), ?nd1)"
      using Some a b by (simp add: resolve_next_hop_bind_originator_def Let_def)
    then show ?thesis using inv1 st tables_awaiting(1) [OF Some] by auto
  qed
qed

lemma tether_response_ok:
  assumes inv: "node_inv {} nd" and slab: "slab_ok PEER_FORWARDING_TABLE_SIZE (ne_vacant_key env)"
  shows "returns_with (\<lambda>(_, nd'). node_inv {} nd') (node_install_tether env nd e t s)"
    and "returns_with (\<lambda>(_, nd'). node_inv {} nd') (node_deny_tether nd e t reason)"
proof -
  obtain r nd1 where res: "resolve_next_hop_bind_originator nd e t = Inr (r, nd1)"
    and r: "case r of Inl _ \<Rightarrow> nd1 = nd
      | Inr (l, x) \<Rightarrow> node_inv {(l, x)} nd1
          \<and> (here nd1 l \<longrightarrow> (\<exists>v e t. bst nd1 l x = Some (AwaitingNextHopBind v e t)))"
    using resolve_ok [OF inv, of e t] by (auto simp: returns_with_def split: sum.splits)
  have "returns_with (\<lambda>(_, nd'). node_inv {} nd') (node_install_tether env nd e t s)
      \<and> returns_with (\<lambda>(_, nd'). node_inv {} nd') (node_deny_tether nd e t reason)"
  proof (cases r)
    case (Inl err)
    then show ?thesis using res r inv by (simp add: node_install_tether_def node_deny_tether_def)
  next
    case (Inr b)
    obtain l x where b: "b = (l, x)" by (cases b)
    have i: "node_inv {(l, x)} nd1"
      and st: "here nd1 l \<Longrightarrow> \<exists>v e t. bst nd1 l x = Some (AwaitingNextHopBind v e t)"
      using r Inr b by auto
    obtain nd2 where "requested_tether_granted env nd1 l x s = Inr nd2" "node_inv {} nd2"
      using requested_tether_granted_ok [OF i slab st, where s = s] by (auto simp: returns_with_def split: sum.splits)
    moreover obtain nd3 where "bind_reject nd1 l x reason = Inr nd3" "node_inv {} nd3"
      using bind_reject_ok [OF i, of reason] by (auto simp: returns_with_def split: sum.splits)
    ultimately show ?thesis
      using res Inr b by (simp add: node_install_tether_def node_deny_tether_def)
  qed
  then show "returns_with (\<lambda>(_, nd'). node_inv {} nd') (node_install_tether env nd e t s)"
    and "returns_with (\<lambda>(_, nd'). node_inv {} nd') (node_deny_tether nd e t reason)" by simp_all
qed

lemma handle_stream_id_response_ok:
  assumes "node_inv {} nd" and "slab_ok PEER_FORWARDING_TABLE_SIZE (ne_vacant_key env)"
  shows "returns_with (\<lambda>(_, nd'). node_inv {} nd') (handle_stream_id_response env nd l x live s pkt)"
proof -
  have conv: "returns_with (\<lambda>(_, nd'). node_inv {} nd') (from_node_tether_result m)"
    if "returns_with (\<lambda>(_, nd'). node_inv {} nd') m" for m :: "((NodeInstallTetherError + unit) \<times> ('a, 'b) node) res"
    using that by (auto simp: from_node_tether_result_def returns_with_def split: sum.splits)
  show ?thesis
    using assms conv [OF tether_response_ok(1) [OF assms]] conv [OF tether_response_ok(2) [OF assms]]
    by (simp add: handle_stream_id_response_def Let_def split: option.split)
qed

section \<open>Visas come and go\<close>

definition visa_ok :: "('ip, 'lt) node \<Rightarrow> 'ip vsapi_visa \<Rightarrow> bool" where
  "visa_ok nd v \<longleftrightarrow> visa_full v \<and> dock_pep v \<noteq> None \<and> map_of (vt_table (nd_visas nd)) (issuer_id v) = None"

definition visa_hop :: "'ip vsapi_visa \<Rightarrow> 'ip option" where
  "visa_hop v = (case fwd_next_hop v of Some a \<Rightarrow> Some a | None \<Rightarrow> map_option dp_dest_addr (dock_pep v))"

definition reachable_visa :: "('ip, 'lt) node_env \<Rightarrow> ('ip, 'lt) node \<Rightarrow> 'ip vsapi_visa \<Rightarrow> bool" where
  "reachable_visa env nd v \<longleftrightarrow> (\<exists>a l. visa_hop v = Some a \<and> find_egress_link env nd a = Some l)"

lemma mgmt_insert_visa_ok:
  assumes inv: "node_inv exc nd" and v: "visa_ok nd v"
  shows "returns_with (\<lambda>(r, nd'). node_inv exc nd' \<and> nd_peers nd' = nd_peers nd
      \<and> (reachable_visa env nd v \<longrightarrow> r = Inr (issuer_id v))) (mgmt_insert_visa env nd v)"
proof -
  obtain pep where pep: "dock_pep v = Some pep" "visa_full v" "map_of (vt_table (nd_visas nd)) (issuer_id v) = None"
    using v by (auto simp: visa_ok_def)
  obtain w where w: "Visa_new (ne_visa env) v = Inr w" "visa w = v"
    using pep by (simp add: Visa_new_def)
  let ?vt = "nd_visas nd \<lparr> vt_table := AList.update (issuer_id v) w (vt_table (nd_visas nd)),
      timeout_queue := heap_push (VisaTimeout (issuer_id v) (expires v)) (timeout_queue (nd_visas nd)),
      lookup_table := lt_insert (ne_visa env) (lookup_table (nd_visas nd)) (issuer_id v) w \<rparr>"
  have table: "map_of (vt_table ?vt) = (map_of (vt_table (nd_visas nd))) (issuer_id v \<mapsto> w)"
    by (simp add: update_conv')
  have "linked (vt_table ?vt) l k i" if "linked (vt_table (nd_visas nd)) l k i" for l k i
    using that pep(3) unfolding linked_def table by auto
  then have "routes_ok ?vt (nd_peers nd)"
    using inv by (simp add: node_inv_def routes_ok_def)
  moreover have "visas_full ?vt"
    using inv w(2) pep unfolding node_inv_def visas_full_def table by (auto simp: get_tc_def)
  moreover have "binds_inv exc (nd \<lparr> nd_visas := ?vt \<rparr>)"
    using inv tables_peers [of "nd \<lparr> nd_visas := ?vt \<rparr>" nd] by (simp add: node_inv_def binds_inv_def)
  ultimately have "node_inv exc (nd \<lparr> nd_visas := ?vt \<rparr>)" by (simp add: node_inv_def)
  then show ?thesis
    using inv pep w(1)
    by (auto simp: mgmt_insert_visa_def insert_visa_def Let_def node_inv_send fields_count
        reachable_visa_def visa_hop_def split: option.splits)
qed

lemma opened_ok_peers: "nd_peers nd' = nd_peers nd \<Longrightarrow> opened_ok nd' opened = opened_ok nd opened"
  using tables_peers [of nd' nd] by (simp add: opened_ok_def)

lemma insert_and_grant_ok:
  assumes "node_inv {(l, x)} nd" and "visa_ok nd v" and "reachable_visa env nd v" and "opened_ok nd opened"
  shows "returns_with (node_inv {}) (insert_and_grant env nd l x v opened)"
proof -
  obtain nd1 where nd1: "mgmt_insert_visa env nd v = Inr (Inr (issuer_id v), nd1)"
      "node_inv {(l, x)} nd1" "nd_peers nd1 = nd_peers nd"
    using mgmt_insert_visa_ok [OF assms(1,2), of env] assms(3)
    by (auto simp: returns_with_def split: sum.splits)
  have "opened_ok (node_count M_VisaRequestSuccess nd1) opened"
    using assms(4) nd1(3) opened_ok_peers [of "node_count M_VisaRequestSuccess nd1" nd]
    by (simp add: fields_count)
  then show ?thesis
    using nd1 requested_visa_granted_ok [of l x "node_count M_VisaRequestSuccess nd1" opened env]
    by (simp add: insert_and_grant_def node_inv_send)
qed

lemma same_peers_tables:
  assumes "same_peers (nd_peers nd) (nd_peers nd')"
  shows "here nd' = here nd" "bst nd' = bst nd" "awt nd' = awt nd"
proof -
  have *: "(nd_peers nd l = None \<longleftrightarrow> nd_peers nd' l = None)
      \<and> (\<forall>p p'. nd_peers nd l = Some p \<longrightarrow> nd_peers nd' l = Some p' \<longrightarrow> p' = p \<lparr> pft := pft p' \<rparr>)" for l
    using assms unfolding same_peers_def by blast
  have "here nd' l = here nd l \<and> bst nd' l = bst nd l \<and> awt nd' l = awt nd l" for l
  proof (cases "nd_peers nd l")
    case None
    then show ?thesis using * [of l] by (simp add: here_def bst_def awt_def fun_eq_iff)
  next
    case (Some p)
    then obtain p' where p': "nd_peers nd' l = Some p'" "p' = p \<lparr> pft := pft p' \<rparr>"
      using * [of l] by auto
    have "bind_request_state p' = bind_request_state p"
      "awaiting_next_hop_bind_table p' = awaiting_next_hop_bind_table p"
      by (subst p'(2), simp)+
    then show ?thesis using Some p'(1) by (simp add: here_def bst_def awt_def fun_eq_iff)
  qed
  then show "here nd' = here nd" "bst nd' = bst nd" "awt nd' = awt nd" by (simp_all add: fun_eq_iff)
qed

lemma visas_full_sub:
  assumes "visas_full vt" and "\<And>i v. map_of (vt_table vt') i = Some v \<Longrightarrow> map_of (vt_table vt) i = Some v"
  shows "visas_full vt'"
  using assms unfolding visas_full_def by blast

lemma handle_revocation_ok:
  assumes inv: "node_inv {} nd"
  shows "node_inv {} (handle_revocation env nd i)"
    and "\<And>l k pep. route (nd_peers (handle_revocation env nd i)) l k = Some pep \<Longrightarrow> pep_visa_id pep \<noteq> i"
proof -
  obtain r vt ps where r: "revoke_no_rebuild (nd_visas nd) (nd_peers nd) i = (r, vt, ps)" by (metis prod_cases3)
  let ?nd' = "nd \<lparr> nd_visas := rebuild (ne_visa env) vt, nd_peers := ps \<rparr>"
  have nd': "handle_revocation env nd i = ?nd'" by (simp add: handle_revocation_def revoke_def r)
  have routes: "routes_ok (nd_visas nd) (nd_peers nd)" using inv by (simp add: node_inv_def)
  note rr = revoke_no_rebuild_routes [OF routes r]
  have "visas_full (nd_visas nd)" using inv by (simp add: node_inv_def)
  then have "visas_full vt" by (rule visas_full_sub) (simp add: rr(3) split: if_splits)
  moreover have "visas_full (rebuild (ne_visa env) vt) = visas_full vt" by (simp add: visas_full_def)
  moreover have same: "here ?nd' = here nd" "bst ?nd' = bst nd" "awt ?nd' = awt nd"
    using same_peers_revoke [OF r] by (simp_all add: same_peers_tables)
  then have "binds_inv {} ?nd'"
    using inv unfolding node_inv_def binds_inv_def same by simp
  ultimately show "node_inv {} (handle_revocation env nd i)"
    unfolding nd' using rr(1) by (simp add: node_inv_def)
  show "\<And>l k pep. route (nd_peers (handle_revocation env nd i)) l k = Some pep \<Longrightarrow> pep_visa_id pep \<noteq> i"
    unfolding nd' using rr(2) by simp
qed

lemma drop_peer_ok:
  assumes inv: "node_inv {} nd"
  shows "node_inv {} (drop_peer env nd l)"
proof -
  define ids where "ids = [i. (i, v) \<leftarrow> vt_table (nd_visas nd),
      i \<ge> MIN_VISA_ID \<and> list_ex (\<lambda>e. fe_link e = l) (streams v)]"
  obtain vt ps where r: "revoke_all (nd_visas nd) (nd_peers nd) ids = (vt, ps)" by fastforce
  have routes: "routes_ok (nd_visas nd) (nd_peers nd)" using inv by (simp add: node_inv_def)
  obtain vt' where d: "revoke_for_link (ne_visa env) (nd_visas nd) l (nd_peers nd) = (vt', ps)"
    and vt': "vt_table vt' = vt_table vt"
  proof (cases "ids = []")
    case True
    then have "revoke_for_link (ne_visa env) (nd_visas nd) l (nd_peers nd) = (nd_visas nd, nd_peers nd)"
      by (simp add: revoke_for_link_def ids_def [symmetric] Let_def)
    then show ?thesis using that r True by simp
  next
    case False
    then have "revoke_for_link (ne_visa env) (nd_visas nd) l (nd_peers nd) = (rebuild (ne_visa env) vt, ps)"
      using r by (simp add: revoke_for_link_def ids_def [symmetric] Let_def)
    then show ?thesis using that by simp
  qed
  let ?nd1 = "nd \<lparr> nd_visas := vt', nd_peers := ps \<rparr>"
  let ?nd' = "nd \<lparr> nd_visas := vt', nd_peers := ps (l := None) \<rparr>"
  have same: "here ?nd1 = here nd" "bst ?nd1 = bst nd" "awt ?nd1 = awt nd"
    using same_peers_revoke_all [OF r] by (simp_all add: same_peers_tables)
  have dropped: "here ?nd' = (\<lambda>k. k \<noteq> l \<and> here ?nd1 k)"
    "bst ?nd' = (\<lambda>k y. if k = l then None else bst ?nd1 k y)"
    "awt ?nd' = (\<lambda>k y. if k = l then None else awt ?nd1 k y)"
    by (auto simp: here_def bst_def awt_def fun_eq_iff)
  have "binds_inv {} ?nd'"
    using binds_ok_drop [of "here nd" "bst nd" "awt nd" "tasks nd" l] inv
    unfolding node_inv_def binds_inv_def dropped same by simp
  moreover have ok: "routes_ok vt ps"
      "map_of (vt_table vt) = (\<lambda>i. if i \<in> set ids then None else map_of (vt_table (nd_visas nd)) i)"
    using revoke_all_routes [OF routes r] by simp_all
  then have "routes_ok vt' (ps (l := None))"
    by (auto simp: routes_ok_def route_def vt' split: option.splits if_splits)
  moreover have "visas_full (nd_visas nd)" using inv by (simp add: node_inv_def)
  then have "visas_full vt'" by (rule visas_full_sub) (simp add: vt' ok(2) split: if_splits)
  ultimately show ?thesis by (simp add: drop_peer_def d node_inv_def)
qed

text \<open>Unbinding a stream removes the entry of its next hop from the visa's streams; here
  no visa lists that entry.\<close>

definition unlisted_next_hop :: "('ip, 'lt) node \<Rightarrow> u32 \<Rightarrow> u32 \<Rightarrow> bool" where
  "unlisted_next_hop nd l s \<longleftrightarrow>
     (\<forall>p pep i v. nd_peers nd l = Some p \<longrightarrow> Pft_get (pft p) s = Some pep \<longrightarrow>
        map_of (vt_table (nd_visas nd)) i = Some v \<longrightarrow> next_hop pep \<notin> set (streams v))"

lemma find_index_None: "e \<notin> set xs \<Longrightarrow> find_index (\<lambda>f. e = f) xs = None"
  by (induction xs) auto

lemma unlink_unlisted:
  assumes "\<And>v. map_of (vt_table vt) i = Some v \<Longrightarrow> e \<notin> set (streams v)"
  shows "map_of (vt_table (snd (unlink_forwarding_entry vt i e))) = map_of (vt_table vt)"
  using assms
  by (auto simp: unlink_forwarding_entry_def Visa_unlink_forwarding_entry_def find_index_None
      update_conv' fun_upd_idem split: option.split)

lemma unbind_ok:
  assumes inv: "node_inv {} nd" and u: "unlisted_next_hop nd l s"
  shows "node_inv {} (node_unbind_stream nd l s)"
proof (cases "nd_peers nd l")
  case None
  then show ?thesis using inv by (simp add: node_unbind_stream_def)
next
  case (Some p)
  show ?thesis
  proof (cases "Pft_get (pft p) s")
    case None
    then show ?thesis using inv Some by (simp add: node_unbind_stream_def)
  next
    case pep: (Some pep)
    let ?nd1 = "set_peer l (p \<lparr> pft := Pft_remove (pft p) s \<rparr>) nd"
    let ?vt = "snd (unlink_forwarding_entry (nd_visas ?nd1) (pep_visa_id pep) (next_hop pep))"
    let ?nd2 = "?nd1 \<lparr> nd_visas := ?vt \<rparr>"
    have table: "map_of (vt_table ?vt) = map_of (vt_table (nd_visas nd))"
      using u Some pep unlink_unlisted [of "nd_visas ?nd1" "pep_visa_id pep" "next_hop pep"]
      by (simp add: unlisted_next_hop_def fields_set_peer)
    have "here ?nd2 = here nd" "bst ?nd2 = bst nd" "awt ?nd2 = awt nd"
      using Some by (auto simp: here_def bst_def awt_def fields_set_peer fun_eq_iff)
    then have "binds_inv {} ?nd2"
      using inv by (simp add: node_inv_def binds_inv_def fields_set_peer)
    moreover have "routes_ok (nd_visas nd) (nd_peers ?nd2)"
      using inv Some unfolding node_inv_def routes_ok_def
      by (auto simp: route_def Pft_remove_def fields_set_peer split: option.splits if_splits)
    then have "routes_ok ?vt (nd_peers ?nd2)"
      unfolding routes_ok_def linked_def table .
    moreover have "visas_full ?vt" using inv unfolding node_inv_def visas_full_def table by simp
    ultimately have "node_inv {} ?nd2" by (simp add: node_inv_def)
    then show ?thesis using Some pep by (simp add: node_unbind_stream_def Let_def node_inv_send)
  qed
qed

definition fresh_link :: "('ip, 'lt) node \<Rightarrow> u32 \<Rightarrow> bool" where
  "fresh_link nd l \<longleftrightarrow> \<not> here nd l \<and> (\<forall>x. (l, x) \<notin> tasks nd)
     \<and> (\<forall>e t x. awt nd e t \<noteq> Some (l, x)) \<and> (\<forall>k x v t. bst nd k x \<noteq> Some (AwaitingNextHopBind v l t))"

lemma add_peer_ok:
  assumes inv: "node_inv {} nd" and l: "fresh_link nd l"
  shows "node_inv {} (set_peer l (PeerState_new ty) nd)"
proof -
  let ?nd' = "set_peer l (PeerState_new ty) nd"
  have "here ?nd' = (\<lambda>k. k = l \<or> here nd k)" "bst ?nd' = bst nd" "awt ?nd' = awt nd"
    using l by (auto simp: fresh_link_def here_def bst_def awt_def fields_set_peer PeerState_new_def fun_eq_iff)
  then have "binds_inv {} ?nd'"
    using inv l binds_ok_add [of "here nd" "bst nd" "awt nd" "tasks nd" l]
    by (simp add: node_inv_def binds_inv_def fresh_link_def fields_set_peer)
  moreover have "route (nd_peers ?nd') = route (nd_peers nd)"
    using l by (auto simp: fresh_link_def here_def route_def fields_set_peer PeerState_new_def Pft_new_def fun_eq_iff)
  then have "routes_ok (nd_visas nd) (nd_peers ?nd')"
    using inv routes_ok_route [of "nd_peers ?nd'" "nd_peers nd" "nd_visas nd"] by (simp add: node_inv_def)
  ultimately show ?thesis using inv by (simp add: node_inv_def fields_set_peer)
qed

lemma addresses_ok:
  assumes inv: "node_inv {} nd" and p: "nd_peers nd l = Some p"
  shows "node_inv {} (set_peer l (p \<lparr> ps_addresses := addrs, ps_aaa_address := aaa \<rparr>) nd)"
proof -
  let ?nd' = "set_peer l (p \<lparr> ps_addresses := addrs, ps_aaa_address := aaa \<rparr>) nd"
  have "here ?nd' = here nd" "bst ?nd' = bst nd" "awt ?nd' = awt nd"
    using p by (auto simp: here_def bst_def awt_def fields_set_peer fun_eq_iff)
  moreover have "route (nd_peers ?nd') = route (nd_peers nd)"
    using p by (auto simp: route_def fields_set_peer fun_eq_iff)
  then have "routes_ok (nd_visas nd) (nd_peers ?nd')"
    using inv routes_ok_route [of "nd_peers ?nd'" "nd_peers nd" "nd_visas nd"] by (simp add: node_inv_def)
  ultimately show ?thesis using inv by (simp add: node_inv_def binds_inv_def fields_set_peer)
qed

lemma end_task_ok:
  assumes inv: "node_inv {} nd" and t: "(l, x) \<in> tasks nd"
  shows "node_inv {(l, x)} (end_task l x nd)"
proof -
  let ?nd' = "end_task l x nd"
  have "tasks ?nd' = tasks nd - {(l, x)}" by (auto simp: end_task_def)
  moreover have "here ?nd' = here nd" "bst ?nd' = bst nd" "awt ?nd' = awt nd"
    by (auto simp: end_task_def intro!: tables_peers)
  ultimately have "binds_inv {(l, x)} ?nd'"
    using binds_ok_task [of "here nd" "bst nd" "awt nd" "tasks nd" l x] inv t
    by (simp add: node_inv_def binds_inv_def)
  then show ?thesis using inv by (simp add: node_inv_def end_task_def)
qed

section \<open>Runs of a disciplined environment\<close>

text \<open>The environment the next properties assume.  Peers number their requests without repetition and send packets
  with at least four bytes of payload; they unbind no stream whose next hop is itself an entry that a visa
  lists; the transaction managers have a free ID, which no open request names; a new link has an address no
  peer has, and is not numbered like one that old requests still name; the node has its connection to the visa
  service, which grants full visas under new IDs, and answers requests with visas to attached destinations.\<close>

fun disciplined :: "('ip, 'lt) node_env \<Rightarrow> ('ip, 'lt) node \<Rightarrow> 'ip node_event \<Rightarrow> bool" where
  "disciplined env nd (Bind_request l x pkt opened) \<longleftrightarrow>
     bst nd l x = None \<and> opened_ok nd opened
     \<and> 4 \<le> length (snd (l3_payload (take (unat (get_word (take 2 (drop 1 pkt)) :: u16)) (drop 3 pkt))))"
| "disciplined env nd (Stream_request l x pkt opened) \<longleftrightarrow> bst nd l x = None \<and> opened_ok nd opened"
| "disciplined env nd (Visa_answer l x answer opened) \<longleftrightarrow>
     (l, x) \<in> tasks nd \<and> opened_ok nd opened
     \<and> (case answer of Allowed v \<Rightarrow> visa_ok nd v \<and> reachable_visa env nd v | No_connection \<Rightarrow> False | _ \<Rightarrow> True)"
| "disciplined env nd (Push_answer l x i answer opened) \<longleftrightarrow>
     (l, x) \<in> tasks nd \<and> opened_ok nd opened
     \<and> (case answer of Push_error \<Rightarrow> True | Push_no_connection \<Rightarrow> False
        | Pushed visas \<Rightarrow> list_all (\<lambda>v. issuer_id v = i \<longrightarrow> visa_ok nd v \<and> reachable_visa env nd v) visas)"
| "disciplined env nd (Unbind l s) \<longleftrightarrow> unlisted_next_hop nd l s"
| "disciplined env nd (Visaop op) \<longleftrightarrow> (case op of Grant v \<Rightarrow> visa_ok nd v | RevokeVisaId _ \<Rightarrow> True)"
| "disciplined env nd (Peer_added known ty) \<longleftrightarrow>
     \<not> known \<and> (case ne_vacant_link env (nd_peers nd) of None \<Rightarrow> True | Some l \<Rightarrow> fresh_link nd l)"
| "disciplined env nd ev \<longleftrightarrow> True"

definition node_start :: "('ip, 'lt) VisaTable \<Rightarrow> 'ip list \<Rightarrow> ('ip, 'lt) node" where
  "node_start vt zpr_addr = \<lparr> nd_peers = Map.empty, nd_visas = vt, nd_zpr_addr = zpr_addr,
     nd_tasks = [], nd_sent = [], nd_counters = (\<lambda>_. 0) \<rparr>"

inductive node_reach :: "('ip, 'lt) node_env \<Rightarrow> ('ip, 'lt) node \<Rightarrow> bool" for env where
  start: "visas_full vt \<Longrightarrow> node_reach env (node_start vt zpr_addr)"
| step: "node_reach env nd \<Longrightarrow> disciplined env nd ev \<Longrightarrow> node_exec env nd ev = Inr nd' \<Longrightarrow> node_reach env nd'"

lemma node_inv_start:
  assumes "visas_full vt"
  shows "node_inv {} (node_start vt zpr_addr)"
proof -
  have "here (node_start vt zpr_addr) = (\<lambda>_. False)" "bst (node_start vt zpr_addr) = (\<lambda>_ _. None)"
    "awt (node_start vt zpr_addr) = (\<lambda>_ _. None)"
    by (simp_all add: here_def bst_def awt_def node_start_def fun_eq_iff)
  then have "binds_inv {} (node_start vt zpr_addr)"
    by (simp add: binds_inv_def binds_ok_def node_start_def)
  then show ?thesis using assms by (simp add: node_inv_def node_start_def routes_ok_def route_def)
qed

lemma node_inv_except:
  assumes "node_inv {} nd" and "here nd l" and "bst nd l x = None"
  shows "node_inv {(l, x)} nd"
  using assms binds_ok_except [of "here nd" "bst nd" "awt nd" "tasks nd" l x]
  by (simp add: node_inv_def binds_inv_def)

lemma bind_actor_address_ok:
  assumes inv: "node_inv {(l, x)} nd" and o: "opened_ok nd opened"
    and len: "4 \<le> length (snd (l3_payload body))"
  shows "returns_with (node_inv {}) (bind_actor_address env nd l x body opened)"
proof -
  let ?opts = "ClassifierOptions_default \<lparr> ignore_truncated_packets := True \<rparr>"
  obtain r ft where c: "classify_with_options (ne_cls env) ?opts (ne_default env) body = Inr (r, ft)"
    using classify_long [OF len] by blast
  note denied = requested_visa_denied_ok [OF inv] and granted = requested_visa_granted_ok [OF inv o]
  have denied': "returns_with (node_inv {}) (requested_visa_denied (node_count c nd) l x)" for c
    using inv by (intro requested_visa_denied_ok) (simp add: node_inv_send)
  show ?thesis
  proof (cases "nd_peers nd l")
    case None
    then show ?thesis using c denied node_inv_gone [OF inv] by (simp add: bind_actor_address_def here_def)
  next
    case (Some p)
    have egress: "get_egress_link_for_visa env nd i \<noteq> Inl (VT_ParseError m)"
      "get_egress_link_for_visa env nd i \<noteq> Inl VT_InsertError" for i m
      by (auto simp: get_egress_link_for_visa_def get_visa_next_hop_addr_def split: option.splits sum.splits)
    show ?thesis
      using c Some denied denied' granted request_visa_ok [OF inv Some] egress
      by (auto simp: bind_actor_address_def split: option.split sum.split VisaTableError.split)
  qed
qed

lemma request_stream_ok:
  assumes inv: "node_inv {(l, x)} nd" and o: "opened_ok nd opened"
  shows "returns_with (node_inv {}) (request_stream env nd l x i opened)"
proof (cases "nd_peers nd l")
  case None
  then show ?thesis using node_inv_gone [OF inv] by (simp add: request_stream_def here_def)
next
  case (Some p)
  have "node_inv {} (set_peer l (set_bind_state x (Some (AwaitingVisaPush i)) p)
      (node_count M_VisaByIdRequested nd \<lparr> nd_tasks := nd_tasks (node_count M_VisaByIdRequested nd)
         @ [Visa_push_request_task l x i] \<rparr>))"
    by (rule new_task_ok [OF inv Some, where st = "AwaitingVisaPush i"
          and ?nd1.0 = "node_count M_VisaByIdRequested nd" and tk = "Visa_push_request_task l x i"])
      (simp_all add: fields_count)
  then show ?thesis
    using Some requested_visa_granted_ok [OF inv o] by (simp add: request_stream_def Let_def)
qed

lemma handled_ok:
  "returns_with P m \<Longrightarrow> returns_with P
     (bindR (bindR m (\<lambda>nd1. Inr (Inr () :: HandleMgmtError + unit, nd1))) (\<lambda>(_, nd'). Inr nd'))"
  by (auto simp: returns_with_def split: sum.splits)

lemma bind_request_ok:
  assumes inv: "node_inv {} nd" and d: "disciplined env nd (Bind_request l x pkt opened)"
  shows "returns_with (node_inv {}) (node_exec env nd (Bind_request l x pkt opened))"
proof (cases "peer_type_by_id nd l = PT_Adapter")
  case True
  let ?body = "take (unat (get_word (take 2 (drop 1 pkt)) :: u16)) (drop 3 pkt)"
  have "here nd l" using True by (auto simp: peer_type_by_id_def here_def split: option.splits)
  then have "node_inv {(l, x)} nd" using node_inv_except [OF inv] d by simp
  then have "returns_with (node_inv {}) (bind_actor_address env nd l x ?body opened)"
    using d by (intro bind_actor_address_ok) simp_all
  from handled_ok [OF this] show ?thesis
    using inv by (simp add: handle_bind_actor_address_request_def Let_def)
qed (use inv in \<open>simp add: handle_bind_actor_address_request_def Let_def\<close>)

lemma stream_request_ok:
  assumes inv: "node_inv {} nd" and d: "disciplined env nd (Stream_request l x pkt opened)"
  shows "returns_with (node_inv {}) (node_exec env nd (Stream_request l x pkt opened))"
proof (cases "peer_type_by_id nd l = PT_Node")
  case True
  have "here nd l" using True by (auto simp: peer_type_by_id_def here_def split: option.splits)
  then have "node_inv {(l, x)} nd" using node_inv_except [OF inv] d by simp
  then have "returns_with (node_inv {}) (request_stream env nd l x (get_word (take 8 pkt)) opened)"
    using d by (intro request_stream_ok) simp_all
  from handled_ok [OF this] show ?thesis using inv by (simp add: handle_stream_id_request_def)
qed (use inv in \<open>simp add: handle_stream_id_request_def\<close>)

lemma end_task_peers:
  "nd_peers (end_task l x nd) = nd_peers nd" "nd_visas (end_task l x nd) = nd_visas nd"
  "nd_zpr_addr (end_task l x nd) = nd_zpr_addr nd"
  by (simp_all add: end_task_def)

lemma end_task_visa [simp]:
  "visa_ok (end_task l x nd) v = visa_ok nd v" "reachable_visa env (end_task l x nd) v = reachable_visa env nd v"
  "opened_ok (end_task l x nd) opened = opened_ok nd opened"
  using opened_ok_peers [of "end_task l x nd" nd]
  by (simp_all add: visa_ok_def reachable_visa_def find_egress_link_def end_task_peers)

lemma visa_answers_ok:
  assumes inv: "node_inv {} nd" and t: "(l, x) \<in> tasks nd" and o: "opened_ok nd opened"
  shows "case answer of Allowed v \<Rightarrow> visa_ok nd v \<and> reachable_visa env nd v | No_connection \<Rightarrow> False | _ \<Rightarrow> True \<Longrightarrow>
      returns_with (node_inv {}) (visa_request_task env (end_task l x nd) l x answer opened)"
    and "case visas of Push_error \<Rightarrow> True | Push_no_connection \<Rightarrow> False
      | Pushed vs \<Rightarrow> list_all (\<lambda>v. issuer_id v = i \<longrightarrow> visa_ok nd v \<and> reachable_visa env nd v) vs \<Longrightarrow>
      returns_with (node_inv {}) (visa_push_request_task env (end_task l x nd) l x i visas opened)"
proof -
  let ?nd = "end_task l x nd"
  have e: "node_inv {(l, x)} ?nd" by (rule end_task_ok [OF inv t])
  have denied: "returns_with (node_inv {}) (requested_visa_denied (node_count c ?nd) l x)" for c
    using e by (intro requested_visa_denied_ok) (simp add: node_inv_send)
  have grant: "returns_with (node_inv {}) (insert_and_grant env ?nd l x v opened)"
    if "visa_ok nd v" "reachable_visa env nd v" for v
    using that o e by (intro insert_and_grant_ok) simp_all
  show "returns_with (node_inv {}) (visa_request_task env ?nd l x answer opened)"
    if "case answer of Allowed v \<Rightarrow> visa_ok nd v \<and> reachable_visa env nd v | No_connection \<Rightarrow> False | _ \<Rightarrow> True"
    using that grant denied by (auto simp: visa_request_task_def split: visa_decision.splits)
  show "returns_with (node_inv {}) (visa_push_request_task env ?nd l x i visas opened)"
    if "case visas of Push_error \<Rightarrow> True | Push_no_connection \<Rightarrow> False
      | Pushed vs \<Rightarrow> list_all (\<lambda>v. issuer_id v = i \<longrightarrow> visa_ok nd v \<and> reachable_visa env nd v) vs"
  proof -
    have "visa_ok nd v \<and> reachable_visa env nd v"
      if "visas = Pushed vs" "List.find (\<lambda>v. issuer_id v = i) vs = Some v" for vs v
      using that \<open>case visas of Push_error \<Rightarrow> True | Push_no_connection \<Rightarrow> False | Pushed vs \<Rightarrow> _\<close>
      by (auto simp: find_Some_iff list_all_length)
    then show ?thesis
      using grant denied that by (auto simp: visa_push_request_task_def split: option.split push_decision.splits)
  qed
qed

lemma node_exec_ok:
  assumes inv: "node_inv {} nd" and slab: "slab_ok PEER_FORWARDING_TABLE_SIZE (ne_vacant_key env)"
    and d: "disciplined env nd ev"
  shows "returns_with (node_inv {}) (node_exec env nd ev)"
proof (cases ev)
  case (Bind_request l x pkt opened)
  then show ?thesis using bind_request_ok inv d by blast
next
  case (Stream_request l x pkt opened)
  then show ?thesis using stream_request_ok inv d by blast
next
  case (Visa_answer l x answer opened)
  then show ?thesis using visa_answers_ok(1) [OF inv] d by simp
next
  case (Push_answer l x i answer opened)
  then show ?thesis using visa_answers_ok(2) [OF inv] d by simp
next
  case (Tether_response e t live s pkt)
  then show ?thesis
    using handle_stream_id_response_ok [OF inv slab, of e t live s pkt]
    by (auto simp: returns_with_def split: sum.splits)
next
  case (Unbind l s)
  then show ?thesis
    using inv unbind_ok [OF inv, of l s] d by (auto simp: node_unbind_indication_def split: option.split PeerType.split)
next
  case (Visaop op)
  show ?thesis
  proof (cases op)
    case (Grant v)
    then show ?thesis
      using mgmt_insert_visa_ok [OF inv, of v env] d Visaop
      by (auto simp: process_visaop_def returns_with_def split: sum.splits)
  next
    case (RevokeVisaId i)
    then show ?thesis using handle_revocation_ok(1) [OF inv] Visaop by (simp add: process_visaop_def)
  qed
next
  case (Peer_added known ty)
  then show ?thesis using add_peer_ok [OF inv] inv d by (auto simp: add_peer_def split: option.splits)
next
  case (Peer_dropped l)
  then show ?thesis using drop_peer_ok [OF inv] by simp
next
  case (Addresses_set l addrs aaa)
  then show ?thesis using inv addresses_ok [OF inv] by (simp split: option.split)
qed

lemma node_reach_inv:
  assumes "node_reach env nd" and "slab_ok PEER_FORWARDING_TABLE_SIZE (ne_vacant_key env)"
  shows "node_inv {} nd"
  using assms
proof (induction rule: node_reach.induct)
  case (step nd ev nd')
  then show ?case using node_exec_ok [of nd env ev] by simp
qed (rule node_inv_start)

section \<open>What the node guarantees\<close>

text \<open>C6 (the bind machinery of a node does not panic): in every state a node reaches in a
  disciplined environment, the next event of a disciplined environment is handled without
  a panic; the answers of next hops are not restricted.\<close>

theorem node_never_panics:
  assumes "node_reach env nd" and "slab_ok PEER_FORWARDING_TABLE_SIZE (ne_vacant_key env)"
    and "disciplined env nd ev"
  shows "\<exists>nd'. node_exec env nd ev = Inr nd'"
  using node_exec_ok [OF node_reach_inv [OF assms(1,2)] assms(2,3)]
  by (auto simp: returns_with_def split: sum.splits)

text \<open>C3 (invariant). No route without a visa, in a disciplined environment: as long as the visa service grants each visa
ID once, a peer unbinds no stream whose next hop a visa lists, and links and transactions are not numbered like ones
that old requests still name, each forwarding entry of each peer belongs to a visa of the table that lists
it; and once a visa is revoked no forwarding entry of it is left.\<close>

theorem node_routes_have_visas:
  assumes "node_reach env nd" and "slab_ok PEER_FORWARDING_TABLE_SIZE (ne_vacant_key env)"
  shows "(\<forall>l k pep. route (nd_peers nd) l k = Some pep \<longrightarrow>
      (\<exists>v. map_of (vt_table (nd_visas nd)) (pep_visa_id pep) = Some v
         \<and> ForwardingEntry l (key_stream k) \<in> set (streams v)))
    \<and> (\<forall>l k pep. route (nd_peers (handle_revocation env nd i)) l k = Some pep \<longrightarrow> pep_visa_id pep \<noteq> i)"
proof -
  have inv: "node_inv {} nd" by (rule node_reach_inv [OF assms])
  then have "routes_ok (nd_visas nd) (nd_peers nd)" by (simp add: node_inv_def)
  then show ?thesis
    using handle_revocation_ok(2) [OF inv, of env i] by (fastforce simp: routes_ok_def linked_def)
qed

text \<open>A request that awaits the answer of a next hop which still has it on record.\<close>

definition lingering :: "('ip, 'lt) node \<Rightarrow> 'ip PeerState \<Rightarrow> u16 \<Rightarrow> bool" where
  "lingering nd p x \<longleftrightarrow>
     (\<exists>v e t pe. bind_request_state p x = Some (AwaitingNextHopBind v e t) \<and> nd_peers nd e = Some pe
        \<and> awaiting_next_hop_bind_table pe t \<noteq> None)"

lemma bind_reject_outcome:
  assumes "nd_peers nd l = Some p"
  shows "bind_reject nd l x reason =
    (if lingering nd p x then Inl (Assert_failed ''lingering next-hop bind'')
     else Inr (case ps_type p of
         PT_Adapter \<Rightarrow> send (Bind_actor_address_error_response l x reason) (set_peer l (set_bind_state x None p) nd)
       | PT_Node \<Rightarrow> send (Stream_id_error_response l x reason) (set_peer l (set_bind_state x None p) nd)
       | _ \<Rightarrow> set_peer l (set_bind_state x None p) nd))"
proof -
  let ?nd1 = "set_peer l (set_bind_state x None p) nd"
  have "(case nd_peers ?nd1 e of Some pe \<Rightarrow> assertR m (awaiting_next_hop_bind_table pe t = None) | None \<Rightarrow> Inr ())
      = (case nd_peers nd e of Some pe \<Rightarrow> assertR m (awaiting_next_hop_bind_table pe t = None) | None \<Rightarrow> Inr ())" for m e t
    using assms by (cases "e = l") (simp_all add: node_simps)
  then show ?thesis
    using assms
    by (auto simp: bind_reject_def lingering_def assertR_def Let_def
        split: option.splits BindRequestState.splits PeerType.splits)
qed

text \<open>C16 (safety). No bind for a foreign source: a bind request of an adapter for a packet whose source address the adapter
does not own never gets a visa or a route.  It is answered with a policy error, and all that changes is that the node forgets
the request it had under this transaction, if any; only if that request awaits the answer of a next hop, the node
panics.\<close>

theorem spoofed_bind_refused:
  assumes "classify_with_options (ne_cls env) (ClassifierOptions_default \<lparr> ignore_truncated_packets := True \<rparr>)
      (ne_default env) body = Inr (Inr CR_OK, five_tuple)"
    and "nd_peers nd l = Some p" and "ps_type p = PT_Adapter"
    and "src_address five_tuple \<notin> set (ps_addresses p)" and "ps_aaa_address p \<noteq> Some (src_address five_tuple)"
  shows "bind_actor_address env nd l x body opened =
    (if \<exists>v e t pe. bind_request_state p x = Some (AwaitingNextHopBind v e t) \<and> nd_peers nd e = Some pe
          \<and> awaiting_next_hop_bind_table pe t \<noteq> None
     then Inl (Assert_failed ''lingering next-hop bind'')
     else Inr (send (Bind_actor_address_error_response l x (ascii ''policy error''))
       (nd \<lparr> nd_peers := (nd_peers nd) (l \<mapsto> p \<lparr> bind_request_state := (bind_request_state p) (x := None) \<rparr>) \<rparr>)))"
proof -
  have "bind_actor_address env nd l x body opened = requested_visa_denied nd l x"
    using assms by (simp add: bind_actor_address_def owns_def)
  also have "\<dots> = (if lingering nd p x then Inl (Assert_failed ''lingering next-hop bind'')
      else Inr (send (Bind_actor_address_error_response l x (ascii ''policy error'')) (set_peer l (set_bind_state x None p) nd)))"
    unfolding requested_visa_denied_def using bind_reject_outcome [OF assms(2)] assms(3) by simp
  finally show ?thesis by (simp add: lingering_def set_peer_def set_bind_state_def)
qed

text \<open>C15 (what the answer of the next hop does): when the next hop grants the stream \<open>s\<close> for
  a bind request of an adapter, exactly one forwarding entry is added, in the vacant slot of
  the adapter's table, to that next hop and under the visa; the records of the request
  are gone and the adapter is told the stream of the slot.\<close>

theorem tether_installs_route:
  assumes reach: "node_reach env nd" and slab: "slab_ok PEER_FORWARDING_TABLE_SIZE (ne_vacant_key env)"
    and e: "awt nd e t = Some (l, x)" and p: "nd_peers nd l = Some p" and "ps_type p = PT_Adapter"
    and v: "bst nd l x = Some (AwaitingNextHopBind v e t)"
    and w: "map_of (vt_table (nd_visas nd)) v = Some w" and k: "ne_vacant_key env (pft p) = Some k"
  shows "\<exists>nd' tc. node_install_tether env nd e t s = Inr (Inr (), nd') \<and> get_tc w = Inr tc
    \<and> route (nd_peers nd') = (\<lambda>m j. if m = l \<and> j = k
         then Some \<lparr> next_hop = ForwardingEntry e s, pep_visa_id = v \<rparr> else route (nd_peers nd) m j)
    \<and> bst nd' l x = None \<and> awt nd' e t = None
    \<and> nd_sent nd' = nd_sent nd
        @ [Bind_actor_address_success_response l x (key_stream k) tc (get_egress_a2a_dh_pubkey w)]"
proof -
  have inv: "node_inv {} nd" by (rule node_reach_inv [OF reach slab])
  obtain pe where pe: "nd_peers nd e = Some pe" "awaiting_next_hop_bind_table pe t = Some (l, x)"
    using e by (auto simp: awt_def split: option.splits)
  obtain tc where tc: "get_tc w = Inr tc" using visas_fullD [OF _ w] inv by (auto simp: node_inv_def)
  let ?nd1 = "set_peer e (set_awaiting t None pe) nd"
  obtain q where q: "nd_peers ?nd1 l = Some q" "ps_type q = PT_Adapter" "pft q = pft p"
      "bind_request_state q x = Some (AwaitingNextHopBind v e t)"
    using p pe v assms(5) by (cases "l = e") (auto simp: fields_set_peer set_awaiting_sel bst_def)
  have "resolve_next_hop_bind_originator nd e t = Inr (Inr (l, x), ?nd1)"
    using pe q by (simp add: resolve_next_hop_bind_originator_def Let_def)
  moreover have "nd_peers ?nd1 e = Some (set_awaiting t None pe)" by (simp add: fields_set_peer)
  moreover have "get_egress_a2a_dh_pubkey (Visa_link_forwarding_entry w fe) = get_egress_a2a_dh_pubkey w" for fe
    by (simp add: get_egress_a2a_dh_pubkey_def Visa_link_forwarding_entry_def)
  ultimately have "node_install_tether env nd e t s = Inr (Inr (),
      send (Bind_actor_address_success_response l x (key_stream k) tc (get_egress_a2a_dh_pubkey w))
       (set_peer l (set_bind_state x None q
            \<lparr> pft := (pft p) (k \<mapsto> \<lparr> next_hop = ForwardingEntry e s, pep_visa_id = v \<rparr>) \<rparr>)
         (set_peer l (set_bind_state x None q) ?nd1
           \<lparr> nd_visas := nd_visas nd \<lparr> vt_table := AList.update v
               (Visa_link_forwarding_entry w (ForwardingEntry l (key_stream k))) (vt_table (nd_visas nd)) \<rparr> \<rparr>)))"
    using q k w tc
    by (simp add: node_install_tether_def requested_tether_granted_def Let_def Pft_vacant_entry_def
        Vacant_key_def Vacant_insert_def fields_set_peer set_bind_state_sel set_awaiting_sel)
  then show ?thesis
    using tc p pe q
    by (auto simp: fun_eq_iff route_def bst_def awt_def fields_send fields_set_peer set_bind_state_sel
        set_awaiting_sel send_def set_peer_def split: if_splits)
qed

section \<open>A bind, step by step\<close>

text \<open>Adapters with the addresses 10.0.0.1 and 10.0.0.2 on the links 3 and 4; the first
  binds a TCP flow to the second.\<close>

definition demo_node_env :: "(bytes, unit) node_env" where
  "demo_node_env = \<lparr> ne_visa = demo_visa_env, ne_cls = demo_cls, ne_default = demo_tc,
     ne_vacant_key = (\<lambda>t. if t 0 = None then Some 0 else if t 1 = None then Some 1 else None),
     ne_find = (\<lambda>ps P. List.find (\<lambda>l. case ps l of None \<Rightarrow> False | Some p \<Rightarrow> P l p) [1, 2, 3, 4, 5]),
     ne_local_actor_link = 1,
     ne_vacant_link = (\<lambda>ps. if ps 3 = None then Some 3 else if ps 4 = None then Some 4 else None) \<rparr>"

definition demo_tcp :: bytes where
  "demo_tcp = [0x45, 0, 0, 40, 0, 0, 0, 0, 64, 6, 0, 0, 10, 0, 0, 1, 10, 0, 0, 2]
     @ [0, 80, 1, 187, 0, 0, 0, 0, 0, 0, 0, 0, 0x50, 0, 0, 0, 0, 0, 0, 0]"

definition demo_bind :: "bytes" where
  "demo_bind = [4, 0, 40] @ demo_tcp"

definition demo_node :: "(bytes, unit) node" where
  "demo_node = node_start (VisaTable_new demo_visa_env) []"

definition demo_attach :: "bytes node_event list" where
  "demo_attach = [Peer_added False PT_Adapter, Peer_added False PT_Adapter,
     Addresses_set 3 [[10, 0, 0, 1]] None, Addresses_set 4 [[10, 0, 0, 2]] None]"

definition demo_asked :: "bytes node_event list" where
  "demo_asked = demo_attach @ [Bind_request 3 7 demo_bind (\<lambda>_. Some 0)]"

definition demo_granted :: "bytes node_event list" where
  "demo_granted = demo_asked @ [Visa_answer 3 7 (Allowed (demo_visa 1000 50)) (\<lambda>_. Some 0)]"

definition demo_routed :: "bytes node_event list" where
  "demo_routed = demo_granted @ [Tether_response 4 0 True 9 [0, 0]]"

primrec run :: "('ip, 'lt) node_env \<Rightarrow> ('ip, 'lt) node \<Rightarrow> 'ip node_event list \<Rightarrow> ('ip, 'lt) node res" where
  "run env nd [] = Inr nd"
| "run env nd (ev # evs) = bindR (node_exec env nd ev) (\<lambda>nd'. run env nd' evs)"

lemma demo_routed_run:
  "returns_with (\<lambda>nd. route (nd_peers nd) 3 0 = Some \<lparr> next_hop = ForwardingEntry 4 9, pep_visa_id = 1000 \<rparr>)
     (run demo_node_env demo_node demo_routed)"
  by code_simp

section \<open>What crashes a node, and what a revocation misses\<close>

text \<open>A bind request that is refused, malformed or for a foreign source, under the transaction of one that awaits
  its next hop panics the node.\<close>

lemma reused_transaction_panics:
  assumes reach: "node_reach env nd" and slab: "slab_ok PEER_FORWARDING_TABLE_SIZE (ne_vacant_key env)"
    and st: "bst nd l x = Some (AwaitingNextHopBind v e t)" and e: "here nd e"
    and p: "nd_peers nd l = Some p" "ps_type p = PT_Adapter"
    and c: "classify_with_options (ne_cls env) (ClassifierOptions_default \<lparr> ignore_truncated_packets := True \<rparr>)
      (ne_default env) body = Inr (r, ft)"
    and refused: "r \<noteq> Inr CR_OK \<or> \<not> owns p (src_address ft)"
  shows "bind_actor_address env nd l x body opened = Inl (Assert_failed ''lingering next-hop bind'')"
proof -
  have "binds_ok {} (here nd) (bst nd) (awt nd) (tasks nd)"
    using node_reach_inv [OF reach slab] by (simp add: node_inv_def binds_inv_def)
  from binds_okD(4) [OF this, of l x v e t] have "awt nd e t = Some (l, x)" using st e by simp
  then have "lingering nd p x"
    using st p(1) by (auto simp: lingering_def awt_def bst_def split: option.splits)
  then have "requested_visa_denied nd l x = Inl (Assert_failed ''lingering next-hop bind'')"
    by (simp add: requested_visa_denied_def bind_reject_outcome [OF p(1)])
  then show ?thesis using c p(1) refused by (auto simp: bind_actor_address_def)
qed

text \<open>So does the answer of a next hop when the requesting link has gone and a new peer got its number.\<close>

lemma link_reuse_panics:
  assumes a: "awt nd e t = Some (l, x)" and "l \<noteq> e" and b: "nd_peers nd l = Some p" "bind_request_state p x = None"
  shows "node_install_tether env nd e t s = Inl (Assert_failed ''dock state consistency error'')"
proof -
  obtain pe where pe: "nd_peers nd e = Some pe" "awaiting_next_hop_bind_table pe t = Some (l, x)"
    using a by (auto simp: awt_def split: option.splits)
  then show ?thesis
    using b assms(2)
    by (simp add: node_install_tether_def resolve_next_hop_bind_originator_def Let_def fields_set_peer)
qed

text \<open>And so does a granted visa whose destination has detached while the visa service decided.\<close>

lemma unreachable_grant_panics:
  assumes "visa_full v" and "visa_hop v = Some a" and "dock_pep v \<noteq> None" and "find_egress_link env nd a = None"
  shows "node_exec env nd (Visa_answer l x (Allowed v) opened) = Inl (Assert_failed ''Got unexpected error type'')"
proof -
  have "find_egress_link env (end_task l x nd) a = None"
    using assms(4) by (simp add: find_egress_link_def end_task_peers split: if_splits)
  then show ?thesis
    using assms
    by (auto simp: visa_request_task_def insert_and_grant_def mgmt_insert_visa_def visa_hop_def Let_def split: option.splits)
qed

text \<open>A grant makes a visa forget the routes an earlier grant of the same ID has, so that its revocation
  leaves every one of them in place.\<close>

lemma revocation_misses_routes:
  assumes "process_visaop env nd (Grant v) = Inr (Inr (), nd1)"
  shows "nd_peers (handle_revocation env nd1 (issuer_id v)) = nd_peers nd"
    and "map_of (vt_table (nd_visas (handle_revocation env nd1 (issuer_id v)))) (issuer_id v) = None"
proof -
  obtain pep where pep: "dock_pep v = Some pep" "visa_full v"
    using assms by (auto simp: process_visaop_def mgmt_insert_visa_def Let_def bindR_eq_Inr_iff
        split: option.splits if_splits sum.splits)
  obtain w where w: "Visa_new (ne_visa env) v = Inr w" "streams w = []" using pep by (simp add: Visa_new_def)
  have peers: "nd_peers nd1 = nd_peers nd" and table: "map_of (vt_table (nd_visas nd1)) (issuer_id v) = Some w"
    using assms pep w
    by (auto simp: process_visaop_def mgmt_insert_visa_def insert_visa_def Let_def update_conv' split: if_splits option.splits)
  then show "nd_peers (handle_revocation env nd1 (issuer_id v)) = nd_peers nd"
    and "map_of (vt_table (nd_visas (handle_revocation env nd1 (issuer_id v)))) (issuer_id v) = None"
    using w(2)
    by (simp_all add: handle_revocation_def revoke_def revoke_no_rebuild_def remove_forwarding_entries_def delete_conv')
qed

section \<open>The steps of the bind are disciplined\<close>

definition demo_ft :: "bytes FiveTuple" where
  "demo_ft = demo_tc \<lparr> src_port := 80 \<rparr>"

definition demo_peer :: "bytes \<Rightarrow> bytes PeerState" where
  "demo_peer a = PeerState_new PT_Adapter \<lparr> ps_addresses := [a] \<rparr>"

definition demo_attached :: "(bytes, unit) node" where
  "demo_attached = demo_node \<lparr> nd_peers := [3 \<mapsto> demo_peer [10, 0, 0, 1], 4 \<mapsto> demo_peer [10, 0, 0, 2]] \<rparr>"

definition demo_waiting :: "(bytes, unit) node" where
  "demo_waiting = request_visa demo_attached 3 7 (demo_peer [10, 0, 0, 1]) demo_ft"

definition demo_bound_node :: "(bytes, unit) node" where
  "demo_bound_node = projr (visa_request_task demo_node_env (end_task 3 7 demo_waiting) 3 7
     (Allowed (demo_visa 1000 50)) (\<lambda>_. Some 0))"

lemma demo_slab: "slab_ok PEER_FORWARDING_TABLE_SIZE (ne_vacant_key demo_node_env)"
  by (auto simp: slab_ok_def PEER_FORWARDING_TABLE_SIZE_def demo_node_env_def)

lemma demo_classified:
  "classify_with_options demo_cls (ClassifierOptions_default \<lparr> ignore_truncated_packets := True \<rparr>)
     demo_tc demo_tcp = Inr (Inr CR_OK, demo_ft)"
  by code_simp

lemma demo_attached_reach: "node_reach demo_node_env demo_attached"
proof -
  have start: "node_reach demo_node_env demo_node"
    unfolding demo_node_def by (rule start) (simp add: visas_full_def VisaTable_new_def)
  let ?n1 = "set_peer 3 (PeerState_new PT_Adapter) demo_node"
  let ?n2 = "set_peer 4 (PeerState_new PT_Adapter) ?n1"
  have "node_reach demo_node_env ?n1"
    by (rule step [OF start, of "Peer_added False PT_Adapter"])
      (simp_all add: fresh_link_def here_def bst_def awt_def demo_node_def node_start_def add_peer_def demo_node_env_def)
  then have "node_reach demo_node_env ?n2"
    by (rule step [of _ _ "Peer_added False PT_Adapter"])
      (simp_all add: fresh_link_def here_def bst_def awt_def add_peer_def set_peer_def demo_node_def demo_node_env_def
        node_start_def PeerState_new_def)
  then have "node_reach demo_node_env (set_peer 3 (demo_peer [10, 0, 0, 1]) ?n2)"
    by (rule step [of _ _ "Addresses_set 3 [[10, 0, 0, 1]] None"])
      (simp_all add: set_peer_def demo_peer_def PeerState_new_def)
  then have "node_reach demo_node_env (set_peer 4 (demo_peer [10, 0, 0, 2]) (set_peer 3 (demo_peer [10, 0, 0, 1]) ?n2))"
    by (rule step [of _ _ "Addresses_set 4 [[10, 0, 0, 2]] None"])
      (simp_all add: set_peer_def demo_peer_def PeerState_new_def)
  moreover have "set_peer 4 (demo_peer [10, 0, 0, 2]) (set_peer 3 (demo_peer [10, 0, 0, 1]) ?n2) = demo_attached"
    by (simp add: demo_attached_def set_peer_def demo_node_def node_start_def fun_eq_iff)
  ultimately show ?thesis by simp
qed

lemma demo_bind_exec:
  "node_exec demo_node_env demo_attached (Bind_request 3 7 demo_bind (\<lambda>_. Some 0)) = Inr demo_waiting"
proof -
  have "bind_actor_address demo_node_env demo_attached 3 7 demo_tcp (\<lambda>_. Some 0) = Inr demo_waiting"
    using demo_classified
    by (simp add: bind_actor_address_def demo_node_env_def demo_attached_def demo_node_def node_start_def
        demo_peer_def owns_def demo_ft_def demo_tc_def match_traffic_def demo_visa_env_def demo_waiting_def)
  moreover have "take 40 demo_tcp = demo_tcp" "length demo_tcp = 40" by (simp_all add: demo_tcp_def)
  ultimately show ?thesis
    by (simp add: handle_bind_actor_address_request_def demo_bind_def peer_type_by_id_def demo_attached_def
        demo_peer_def PeerState_new_def get_word_def be_dec_def Let_def)
qed

lemma demo_waiting_reach: "node_reach demo_node_env demo_waiting"
proof (rule step [OF demo_attached_reach _ demo_bind_exec])
  have "4 \<le> length (snd (l3_payload demo_tcp))" by code_simp
  moreover have "take 40 demo_tcp = demo_tcp" by (simp add: demo_tcp_def)
  ultimately show "disciplined demo_node_env demo_attached (Bind_request 3 7 demo_bind (\<lambda>_. Some 0))"
    by (auto simp: demo_bind_def get_word_def be_dec_def bst_def awt_def opened_ok_def demo_attached_def
        demo_peer_def PeerState_new_def)
qed

lemma demo_answer_disciplined:
  "disciplined demo_node_env demo_waiting (Visa_answer 3 7 (Allowed (demo_visa 1000 50)) (\<lambda>_. Some 0))"
proof -
  have "opened_ok demo_waiting (\<lambda>_. Some 0)"
    by (auto simp: opened_ok_def bst_def awt_def demo_waiting_def request_visa_def Let_def fields_set_peer
        fields_count set_bind_state_sel demo_attached_def demo_peer_def PeerState_new_def split: if_splits)
  moreover have "(3, 7) \<in> tasks demo_waiting"
    by (simp add: demo_waiting_def request_visa_def Let_def fields_set_peer)
  moreover have "visa_ok demo_waiting (demo_visa 1000 50)"
    by (simp add: visa_ok_def demo_visa_def demo_waiting_def request_visa_def Let_def fields_set_peer
        fields_count demo_attached_def demo_node_def node_start_def VisaTable_new_def)
  moreover have "visa_hop (demo_visa 1000 50) = Some [10, 0, 0, 2]"
    by (simp add: visa_hop_def demo_visa_def demo_tc_def)
  moreover have "find_egress_link demo_node_env demo_waiting [10, 0, 0, 2] = Some 4" by code_simp
  ultimately show ?thesis by (auto simp: reachable_visa_def)
qed

lemma demo_granted_reach: "node_reach demo_node_env demo_bound_node"
proof (rule step [OF demo_waiting_reach demo_answer_disciplined])
  let ?ev = "Visa_answer 3 7 (Allowed (demo_visa 1000 50)) (\<lambda>_. Some 0) :: bytes node_event"
  obtain nd where "node_exec demo_node_env demo_waiting ?ev = Inr nd"
    using node_exec_ok [OF node_reach_inv [OF demo_waiting_reach demo_slab] demo_slab demo_answer_disciplined]
    by (auto simp: returns_with_def split: sum.splits)
  then show "node_exec demo_node_env demo_waiting ?ev = Inr demo_bound_node"
    by (simp add: demo_bound_node_def)
qed

lemma demo_bound_tables:
  "awt demo_bound_node 4 0 = Some (3, 7)" "bst demo_bound_node 3 7 = Some (AwaitingNextHopBind 1000 4 0)"
  "map_option ps_type (nd_peers demo_bound_node 3) = Some PT_Adapter"
  "map_option (\<lambda>p. ne_vacant_key demo_node_env (pft p)) (nd_peers demo_bound_node 3) = Some (Some 0)"
  "map_option get_tc (map_of (vt_table (nd_visas demo_bound_node)) 1000) = Some (Inr demo_tc)"
  by code_simp+

theorem node_never_panics_witness:
  "\<exists>nd'. node_exec demo_node_env demo_waiting
     (Visa_answer 3 7 (Allowed (demo_visa 1000 50)) (\<lambda>_. Some 0)) = Inr nd'"
  by (rule node_never_panics [OF demo_waiting_reach demo_slab demo_answer_disciplined])

theorem tether_installs_route_witness:
  "\<exists>nd'. node_install_tether demo_node_env demo_bound_node 4 0 9 = Inr (Inr (), nd')
     \<and> route (nd_peers nd') 3 0 = Some \<lparr> next_hop = ForwardingEntry 4 9, pep_visa_id = 1000 \<rparr>"
proof -
  obtain p where p: "nd_peers demo_bound_node 3 = Some p" "ps_type p = PT_Adapter"
      "ne_vacant_key demo_node_env (pft p) = Some 0"
    using demo_bound_tables(3,4) by auto
  obtain w where w: "map_of (vt_table (nd_visas demo_bound_node)) 1000 = Some w"
    using demo_bound_tables(5) by auto
  show ?thesis
    using tether_installs_route [OF demo_granted_reach demo_slab demo_bound_tables(1) p(1,2)
        demo_bound_tables(2) w p(3), of 9] by auto
qed

definition demo_routed_node :: "(bytes, unit) node" where
  "demo_routed_node = projr (node_exec demo_node_env demo_bound_node (Tether_response 4 0 True 9 [0, 0]))"

lemma demo_routed_reach: "node_reach demo_node_env demo_routed_node"
proof (rule step [OF demo_granted_reach])
  let ?ev = "Tether_response 4 0 True 9 [0, 0] :: bytes node_event"
  show d: "disciplined demo_node_env demo_bound_node ?ev" by simp
  obtain nd where "node_exec demo_node_env demo_bound_node ?ev = Inr nd"
    using node_exec_ok [OF node_reach_inv [OF demo_granted_reach demo_slab] demo_slab d]
    by (auto simp: returns_with_def split: sum.splits)
  then show "node_exec demo_node_env demo_bound_node ?ev = Inr demo_routed_node"
    by (simp add: demo_routed_node_def)
qed

lemma demo_routed_route:
  "route (nd_peers demo_routed_node) 3 0 = Some \<lparr> next_hop = ForwardingEntry 4 9, pep_visa_id = 1000 \<rparr>"
  by code_simp

theorem node_routes_have_visas_witness:
  "(\<exists>v. map_of (vt_table (nd_visas demo_routed_node)) 1000 = Some v \<and> ForwardingEntry 3 1 \<in> set (streams v))
   \<and> (\<nexists>l k pep. route (nd_peers (handle_revocation demo_node_env demo_routed_node 1000)) l k = Some pep
        \<and> pep_visa_id pep = 1000)"
  using node_routes_have_visas [OF demo_routed_reach demo_slab, of 1000] demo_routed_route
  by (fastforce simp: key_stream_def)

theorem spoofed_bind_refused_witness:
  "bind_actor_address demo_node_env (demo_attached \<lparr> nd_peers := [4 \<mapsto> demo_peer [10, 0, 0, 2]] \<rparr>) 4 7 demo_tcp (\<lambda>_. None)
     = Inr (send (Bind_actor_address_error_response 4 7 (ascii ''policy error''))
         (demo_attached \<lparr> nd_peers := [4 \<mapsto> demo_peer [10, 0, 0, 2]] \<rparr>))"
proof -
  let ?nd = "demo_attached \<lparr> nd_peers := [4 \<mapsto> demo_peer [10, 0, 0, 2]] \<rparr>"
  have "classify_with_options (ne_cls demo_node_env) (ClassifierOptions_default \<lparr> ignore_truncated_packets := True \<rparr>)
      (ne_default demo_node_env) demo_tcp = Inr (Inr CR_OK, demo_ft)"
    using demo_classified by (simp add: demo_node_env_def)
  from spoofed_bind_refused [OF this, of ?nd 4 "demo_peer [10, 0, 0, 2]" 7 "\<lambda>_. None"]
  show ?thesis by (simp add: demo_peer_def PeerState_new_def demo_ft_def demo_tc_def fun_upd_idem)
qed

end
