(* ===== verification/Packet.thy ===== *)
theory Packet
  imports Tc
begin

text \<open>
  Packet buffers, \<open>adapter/ph/src/packet.rs\<close>.  A packet is a byte buffer that begins with
  the packet's metadata; the metadata tell at which offset of the buffer the body
  begins and how long it is.  The model keeps the metadata as a record and the rest of the
  buffer as its bytes, so that the byte at offset \<open>i\<close> of the buffer is the byte at
  \<open>i - MIN_BODY_OFFSET\<close> of \<open>pkt_area\<close>.  The last section gives the contract the rest of
  the program relies on: three adjacent sections of bytes, headroom, body and tailroom,
  whose borders the operations move.
\<close>

section \<open>The model\<close>

record 'ip PacketMetadata =
  md_offset :: nat
  md_len :: nat
  md_five_tuple :: "'ip FiveTuple"
  ingress_lane_id :: u8
  md_flags :: u8
  ingress_link_id :: u32
  egress_link_id :: u32
  ingress_stream_id :: u32
  seq_num :: u64

record 'ip Packet =
  pkt_md :: "'ip PacketMetadata"
  pkt_area :: bytes

text \<open>The size of the metadata: two words of 64 bits, the five-tuple (38 bytes), two bytes,
  four bytes of padding, three words of 32 bits and one of 64 bits.\<close>

definition MIN_BODY_OFFSET :: nat where
  "MIN_BODY_OFFSET = 8 + 8 + 38 + 1 + 1 + 4 + 4 + 4 + 4 + 8"

definition buf_len :: "'ip Packet \<Rightarrow> nat" where
  "buf_len pkt = MIN_BODY_OFFSET + length (pkt_area pkt)"

definition max_body_size :: "'ip Packet \<Rightarrow> nat" where
  "max_body_size pkt = buf_len pkt - MIN_BODY_OFFSET"

definition set_extent :: "'ip Packet \<Rightarrow> nat \<Rightarrow> nat \<Rightarrow> 'ip Packet" where
  "set_extent pkt offset len =
     pkt \<lparr> pkt_md := pkt_md pkt \<lparr> md_offset := offset, md_len := len \<rparr> \<rparr>"

definition extent_asserts :: "'ip Packet \<Rightarrow> nat \<Rightarrow> nat \<Rightarrow> unit res" where
  "extent_asserts pkt offset len =
     bindR (assertR ''offset >= Self::MIN_BODY_OFFSET'' (offset \<ge> MIN_BODY_OFFSET)) (\<lambda>_.
     bindR (assertR ''len <= buf.len()'' (len \<le> buf_len pkt)) (\<lambda>_.
     assertR ''offset <= buf.len() - len'' (offset \<le> buf_len pkt - len)))"

definition new_with_existing_data :: "'ip Packet \<Rightarrow> nat \<Rightarrow> nat \<Rightarrow> 'ip Packet res" where
  "new_with_existing_data buf offset len =
     bindR (extent_asserts buf offset len) (\<lambda>_.
       let pkt = set_extent buf offset len in
       Inr (pkt \<lparr> pkt_md := pkt_md pkt \<lparr> ingress_link_id := 0, ingress_stream_id := 0 \<rparr> \<rparr>))"

definition Packet_new :: "'ip Packet \<Rightarrow> nat \<Rightarrow> 'ip Packet res" where
  "Packet_new buf headroom =
     bindR (assertR ''packet buffer must be large enough to contain metadata'' (buf_len buf \<ge> MIN_BODY_OFFSET)) (\<lambda>_.
       new_with_existing_data buf (MIN_BODY_OFFSET + headroom) 0)"

definition metadata_is_valid :: "'ip Packet \<Rightarrow> bool" where
  "metadata_is_valid pkt \<longleftrightarrow>
     md_offset (pkt_md pkt) \<ge> MIN_BODY_OFFSET \<and> md_len (pkt_md pkt) \<le> buf_len pkt
     \<and> md_offset (pkt_md pkt) \<le> buf_len pkt - md_len (pkt_md pkt)"

definition try_new_with_existing_metadata :: "'ip Packet \<Rightarrow> 'ip Packet option" where
  "try_new_with_existing_metadata buf = (if metadata_is_valid buf then Some buf else None)"

definition body_start :: "'ip Packet \<Rightarrow> nat" where
  "body_start pkt = md_offset (pkt_md pkt) - MIN_BODY_OFFSET"

definition pkt_len :: "'ip Packet \<Rightarrow> nat" where
  "pkt_len pkt = md_len (pkt_md pkt)"

definition body :: "'ip Packet \<Rightarrow> bytes" where
  "body pkt = take (pkt_len pkt) (drop (body_start pkt) (pkt_area pkt))"

definition write_area :: "'ip Packet \<Rightarrow> nat \<Rightarrow> bytes \<Rightarrow> 'ip Packet" where
  "write_area pkt i bs =
     pkt \<lparr> pkt_area := take i (pkt_area pkt) @ bs @ drop (i + length bs) (pkt_area pkt) \<rparr>"

text \<open>A write through \<open>body_mut\<close>, to the bytes of the body from \<open>i\<close> on.\<close>

definition body_mut :: "'ip Packet \<Rightarrow> nat \<Rightarrow> bytes \<Rightarrow> 'ip Packet res" where
  "body_mut pkt i bs =
     (if i + length bs > pkt_len pkt then Inl Index_out_of_bounds
      else Inr (write_area pkt (body_start pkt + i) bs))"

definition tailroom_available :: "'ip Packet \<Rightarrow> nat" where
  "tailroom_available pkt = buf_len pkt - (md_offset (pkt_md pkt) + md_len (pkt_md pkt))"

definition headroom_available :: "'ip Packet \<Rightarrow> nat" where
  "headroom_available pkt = md_offset (pkt_md pkt) - MIN_BODY_OFFSET"

definition set_body_extent :: "'ip Packet \<Rightarrow> nat \<Rightarrow> nat \<Rightarrow> 'ip Packet res" where
  "set_body_extent pkt offset len =
     bindR (extent_asserts pkt offset len) (\<lambda>_. Inr (set_extent pkt offset len))"

definition adopt_tailroom_with_header :: "'ip Packet \<Rightarrow> nat \<Rightarrow> nat \<Rightarrow> 'ip Packet res" where
  "adopt_tailroom_with_header pkt header_len written =
     bindR (assertR ''header_len <= self.metadata().len'' (header_len \<le> pkt_len pkt)) (\<lambda>_.
     bindR (assertR ''written <= self.tailroom_available()'' (written \<le> tailroom_available pkt)) (\<lambda>_.
       let old_offset = md_offset (pkt_md pkt);
           output_offset = old_offset + pkt_len pkt;
           new_offset = output_offset - header_len;
           hdr = take header_len (drop (old_offset - MIN_BODY_OFFSET) (pkt_area pkt))
       in set_body_extent (write_area pkt (new_offset - MIN_BODY_OFFSET) hdr) new_offset (header_len + written)))"

definition grow_front :: "'ip Packet \<Rightarrow> bytes \<Rightarrow> 'ip Packet res" where
  "grow_front pkt bs =
     bindR (assertR ''cnt <= self.headroom_available()'' (length bs \<le> headroom_available pkt)) (\<lambda>_.
       let pkt1 = set_extent pkt (md_offset (pkt_md pkt) - length bs) (md_len (pkt_md pkt) + length bs)
       in body_mut pkt1 0 bs)"

definition alloc_zeroed_headroom :: "'ip Packet \<Rightarrow> nat \<Rightarrow> 'ip Packet res" where
  "alloc_zeroed_headroom pkt cnt = grow_front pkt (replicate cnt 0)"

definition push_header :: "'ip Packet \<Rightarrow> bytes \<Rightarrow> 'ip Packet res" where
  "push_header pkt header = grow_front pkt header"

definition push_u8 :: "'ip Packet \<Rightarrow> u8 \<Rightarrow> 'ip Packet res" where
  "push_u8 pkt data = push_header pkt [data]"

definition push_u16 :: "'ip Packet \<Rightarrow> u16 \<Rightarrow> 'ip Packet res" where
  "push_u16 pkt data = push_header pkt (put_word 2 data)"

definition push_u32 :: "'ip Packet \<Rightarrow> u32 \<Rightarrow> 'ip Packet res" where
  "push_u32 pkt data = push_header pkt (put_word 4 data)"

definition push_u64 :: "'ip Packet \<Rightarrow> u64 \<Rightarrow> 'ip Packet res" where
  "push_u64 pkt data = push_header pkt (put_word 8 data)"

definition shrink_by :: "'ip Packet \<Rightarrow> nat \<Rightarrow> 'ip Packet res" where
  "shrink_by pkt cnt =
     bindR (assertR ''cnt <= md.len'' (cnt \<le> pkt_len pkt)) (\<lambda>_.
       Inr (set_extent pkt (md_offset (pkt_md pkt)) (md_len (pkt_md pkt) - cnt)))"

definition advance :: "'ip Packet \<Rightarrow> nat \<Rightarrow> 'ip Packet res" where
  "advance pkt cnt =
     bindR (assertR ''cnt <= self.remaining()'' (cnt \<le> pkt_len pkt)) (\<lambda>_.
       Inr (set_extent pkt (md_offset (pkt_md pkt) + cnt) (md_len (pkt_md pkt) - cnt)))"

definition advance_mut :: "'ip Packet \<Rightarrow> nat \<Rightarrow> 'ip Packet res" where
  "advance_mut pkt cnt =
     bindR (assertR ''cnt <= self.remaining_mut()'' (cnt \<le> tailroom_available pkt)) (\<lambda>_.
       Inr (set_extent pkt (md_offset (pkt_md pkt)) (md_len (pkt_md pkt) + cnt)))"

text \<open>\<open>BufMut::put_slice\<close> over the tailroom.\<close>

definition put_slice :: "'ip Packet \<Rightarrow> bytes \<Rightarrow> 'ip Packet res" where
  "put_slice pkt bs =
     (if length bs > tailroom_available pkt then Inl (Assert_failed ''put_slice'')
      else advance_mut (write_area pkt (body_start pkt + pkt_len pkt) bs) (length bs))"

text \<open>Copies.  A buffer too small for the copy panics: the subtraction of the assertion wraps
  around and a slice is out of range.\<close>

definition clone_prefix_into_with_headroom :: "'ip Packet \<Rightarrow> 'ip Packet \<Rightarrow> nat \<Rightarrow> nat \<Rightarrow> 'ip Packet res" where
  "clone_prefix_into_with_headroom pkt buf headroom len =
     bindR (assertR ''len <= body.len()'' (len \<le> length (body pkt))) (\<lambda>_.
       if buf_len buf < len + MIN_BODY_OFFSET then Inl Index_out_of_bounds
       else bindR (assertR ''headroom <= buf.len() - len - Self::MIN_BODY_OFFSET''
           (headroom \<le> buf_len buf - len - MIN_BODY_OFFSET)) (\<lambda>_.
         bindR (assertR ''copy_from_slice'' (length (body pkt) = len)) (\<lambda>_.
           Inr (set_extent (write_area (buf \<lparr> pkt_md := pkt_md pkt \<rparr>) headroom (body pkt))
             (MIN_BODY_OFFSET + headroom) len))))"

definition clone_prefix_into :: "'ip Packet \<Rightarrow> 'ip Packet \<Rightarrow> nat \<Rightarrow> 'ip Packet res" where
  "clone_prefix_into pkt buf len = clone_prefix_into_with_headroom pkt buf (headroom_available pkt) len"

definition clone_into_with_headroom :: "'ip Packet \<Rightarrow> 'ip Packet \<Rightarrow> nat \<Rightarrow> 'ip Packet res" where
  "clone_into_with_headroom pkt buf headroom =
     clone_prefix_into_with_headroom pkt buf headroom (length (body pkt))"

definition clone_into :: "'ip Packet \<Rightarrow> 'ip Packet \<Rightarrow> 'ip Packet res" where
  "clone_into pkt buf =
     clone_prefix_into_with_headroom pkt buf (headroom_available pkt) (length (body pkt))"

text \<open>The serialized form; the bytes of the metadata (\<open>zerocopy\<close>) are the pair of functions
  \<open>codec\<close>.\<close>

type_synonym 'ip md_codec = "('ip PacketMetadata \<Rightarrow> bytes) \<times> (bytes \<Rightarrow> 'ip PacketMetadata)"

definition md_codec_ok :: "'ip md_codec \<Rightarrow> 'ip PacketMetadata \<Rightarrow> bool" where
  "md_codec_ok codec md \<longleftrightarrow> length (fst codec md) = MIN_BODY_OFFSET \<and> snd codec (fst codec md) = md"

definition pkt_serialize :: "'ip md_codec \<Rightarrow> 'ip Packet \<Rightarrow> nat \<Rightarrow> bytes option" where
  "pkt_serialize codec pkt remaining_mut =
     (if MIN_BODY_OFFSET + pkt_len pkt > remaining_mut then None
      else Some (fst codec (pkt_md pkt) @ body pkt))"

datatype DeserializeError = InvalidSerialization | BufferTooSmall

definition deserialize_into :: "'ip md_codec \<Rightarrow> bytes \<Rightarrow> 'ip Packet \<Rightarrow> DeserializeError + 'ip Packet" where
  "deserialize_into codec src buf =
     (if length src < MIN_BODY_OFFSET then Inl InvalidSerialization
      else if buf_len buf < MIN_BODY_OFFSET then Inl BufferTooSmall
      else case try_new_with_existing_metadata (buf \<lparr> pkt_md := snd codec (take MIN_BODY_OFFSET src) \<rparr>) of
        None \<Rightarrow> Inl BufferTooSmall
      | Some pkt \<Rightarrow>
          let rest = drop MIN_BODY_OFFSET src in
          if length rest < pkt_len pkt then Inl InvalidSerialization
          else Inr (write_area pkt (body_start pkt) (take (pkt_len pkt) rest)))"

text \<open>Equality of packets: metadata but for the sequence number, buffer size and body.\<close>

definition Packet_eq :: "'ip Packet \<Rightarrow> 'ip Packet \<Rightarrow> bool" where
  "Packet_eq p q \<longleftrightarrow>
     (pkt_md p) \<lparr> seq_num := 0 \<rparr> = (pkt_md q) \<lparr> seq_num := 0 \<rparr> \<and> buf_len p = buf_len q \<and> body p = body q"

section \<open>The contract: three sections of bytes\<close>

record sections =
  head_room :: bytes
  content :: bytes
  tail_room :: bytes

definition view :: "'ip Packet \<Rightarrow> sections" where
  "view pkt = \<lparr> head_room = take (body_start pkt) (pkt_area pkt), content = body pkt,
     tail_room = drop (body_start pkt + pkt_len pkt) (pkt_area pkt) \<rparr>"

definition s_push :: "sections \<Rightarrow> bytes \<Rightarrow> sections res" where
  "s_push s hdr =
     bindR (assertR ''cnt <= self.headroom_available()'' (length hdr \<le> length (head_room s))) (\<lambda>_.
       Inr (s \<lparr> head_room := take (length (head_room s) - length hdr) (head_room s),
                content := hdr @ content s \<rparr>))"

definition s_shrink :: "sections \<Rightarrow> nat \<Rightarrow> sections res" where
  "s_shrink s cnt =
     bindR (assertR ''cnt <= md.len'' (cnt \<le> length (content s))) (\<lambda>_.
       let n = length (content s) - cnt in
       Inr (s \<lparr> content := take n (content s), tail_room := drop n (content s) @ tail_room s \<rparr>))"

definition s_advance :: "sections \<Rightarrow> nat \<Rightarrow> sections res" where
  "s_advance s cnt =
     bindR (assertR ''cnt <= self.remaining()'' (cnt \<le> length (content s))) (\<lambda>_.
       Inr (s \<lparr> head_room := head_room s @ take cnt (content s), content := drop cnt (content s) \<rparr>))"

definition s_put :: "sections \<Rightarrow> bytes \<Rightarrow> sections res" where
  "s_put s bs =
     (if length bs > length (tail_room s) then Inl (Assert_failed ''put_slice'')
      else Inr (s \<lparr> content := content s @ bs, tail_room := drop (length bs) (tail_room s) \<rparr>))"

definition s_write :: "sections \<Rightarrow> nat \<Rightarrow> bytes \<Rightarrow> sections res" where
  "s_write s i bs =
     (if i + length bs > length (content s) then Inl Index_out_of_bounds
      else Inr (s \<lparr> content := take i (content s) @ bs @ drop (i + length bs) (content s) \<rparr>))"

definition s_adopt :: "sections \<Rightarrow> nat \<Rightarrow> nat \<Rightarrow> sections res" where
  "s_adopt s header_len written =
     bindR (assertR ''header_len <= self.metadata().len'' (header_len \<le> length (content s))) (\<lambda>_.
     bindR (assertR ''written <= self.tailroom_available()'' (written \<le> length (tail_room s))) (\<lambda>_.
       Inr \<lparr> head_room = head_room s @ take (length (content s) - header_len) (content s),
             content = take header_len (content s) @ take written (tail_room s),
             tail_room = drop written (tail_room s) \<rparr>))"

text \<open>The operations that change a packet, on the buffer and on the sections.\<close>

datatype packet_op =
    Push_header bytes | Alloc_zeroed nat | Shrink nat | Advance nat | Put bytes | Write nat bytes
  | Adopt nat nat

fun pkt_exec :: "'ip Packet \<Rightarrow> packet_op \<Rightarrow> 'ip Packet res" where
  "pkt_exec p (Push_header hdr) = push_header p hdr"
| "pkt_exec p (Alloc_zeroed n) = alloc_zeroed_headroom p n"
| "pkt_exec p (Shrink n) = shrink_by p n"
| "pkt_exec p (Advance n) = advance p n"
| "pkt_exec p (Put bs) = put_slice p bs"
| "pkt_exec p (Write i bs) = body_mut p i bs"
| "pkt_exec p (Adopt h w) = adopt_tailroom_with_header p h w"

fun s_exec :: "sections \<Rightarrow> packet_op \<Rightarrow> sections res" where
  "s_exec s (Push_header hdr) = s_push s hdr"
| "s_exec s (Alloc_zeroed n) = s_push s (replicate n 0)"
| "s_exec s (Shrink n) = s_shrink s n"
| "s_exec s (Advance n) = s_advance s n"
| "s_exec s (Put bs) = s_put s bs"
| "s_exec s (Write i bs) = s_write s i bs"
| "s_exec s (Adopt h w) = s_adopt s h w"

primrec runR :: "('s \<Rightarrow> 'o \<Rightarrow> 's res) \<Rightarrow> 's \<Rightarrow> 'o list \<Rightarrow> 's res" where
  "runR f s [] = Inr s"
| "runR f s (x # xs) = bindR (f s x) (\<lambda>s'. runR f s' xs)"

section \<open>The buffer implements the contract\<close>

definition layout :: "'ip Packet \<Rightarrow> bytes \<Rightarrow> bytes \<Rightarrow> bytes \<Rightarrow> bool" where
  "layout p h b t \<longleftrightarrow> pkt_area p = h @ b @ t \<and> md_offset (pkt_md p) = MIN_BODY_OFFSET + length h
     \<and> md_len (pkt_md p) = length b"

lemma layout_valid: "layout p h b t \<Longrightarrow> metadata_is_valid p"
  by (simp add: layout_def metadata_is_valid_def buf_len_def)

lemma layout_view: "layout p h b t \<Longrightarrow> view p = \<lparr> head_room = h, content = b, tail_room = t \<rparr>"
  by (simp add: layout_def view_def body_def pkt_len_def body_start_def)

lemma valid_layout:
  assumes "metadata_is_valid p"
  obtains h b t where "layout p h b t"
proof -
  let ?o = "md_offset (pkt_md p) - MIN_BODY_OFFSET" and ?l = "md_len (pkt_md p)"
  have "?o + ?l \<le> length (pkt_area p)" "md_offset (pkt_md p) = MIN_BODY_OFFSET + ?o"
    using assms by (auto simp: metadata_is_valid_def buf_len_def)
  moreover have "pkt_area p = take ?o (pkt_area p) @ take ?l (drop ?o (pkt_area p)) @ drop (?o + ?l) (pkt_area p)"
    by (metis append_take_drop_id drop_drop add.commute)
  ultimately have "layout p (take ?o (pkt_area p)) (take ?l (drop ?o (pkt_area p))) (drop (?o + ?l) (pkt_area p))"
    by (simp add: layout_def)
  then show thesis by (rule that)
qed

lemma layout_sel:
  assumes "layout p h b t"
  shows "body p = b" "pkt_len p = length b" "headroom_available p = length h"
    "tailroom_available p = length t" "buf_len p = MIN_BODY_OFFSET + length h + length b + length t"
    "body_start p = length h" "pkt_area p = h @ b @ t" "md_len (pkt_md p) = length b"
    "md_offset (pkt_md p) = MIN_BODY_OFFSET + length h"
  using assms
  by (simp_all add: layout_def body_def pkt_len_def body_start_def headroom_available_def
      tailroom_available_def buf_len_def)

lemma set_extent_sel [simp]:
  "pkt_area (set_extent p off n) = pkt_area p" "md_offset (pkt_md (set_extent p off n)) = off"
  "md_len (pkt_md (set_extent p off n)) = n"
  by (simp_all add: set_extent_def)

lemma write_area_sel [simp]: "pkt_md (write_area p i bs) = pkt_md p"
  by (simp add: write_area_def)

lemma write_area_layout: "pkt_area p = xs @ old @ ys \<Longrightarrow> length old = length bs \<Longrightarrow> i = length xs
    \<Longrightarrow> pkt_area (write_area p i bs) = xs @ bs @ ys"
  by (simp add: write_area_def)

text \<open>One lemma per operation: it returns exactly when the contract does, with that layout.\<close>

definition implements :: "'ip Packet res \<Rightarrow> sections res \<Rightarrow> bool" where
  "implements m a \<longleftrightarrow> (case a of
       Inl e \<Rightarrow> m = Inl e
     | Inr s \<Rightarrow> (\<exists>p. m = Inr p \<and> layout p (head_room s) (content s) (tail_room s)))"

lemma implementsI:
  "m = Inr p \<Longrightarrow> layout p (head_room s) (content s) (tail_room s) \<Longrightarrow> implements m (Inr s)"
  by (simp add: implements_def)

lemma implements_assert:
  "(\<And>u. c \<Longrightarrow> implements (f u) (g u)) \<Longrightarrow> implements (bindR (assertR msg c) f) (bindR (assertR msg c) g)"
  by (cases c) (simp_all add: implements_def assertR_def)

lemma grow_front_implements:
  assumes "layout p h b t"
  shows "implements (grow_front p bs) (s_push \<lparr> head_room = h, content = b, tail_room = t \<rparr> bs)"
  unfolding grow_front_def s_push_def layout_sel [OF assms] sections.simps
proof (rule implements_assert)
  fix u assume c: "length bs \<le> length h"
  let ?n = "length h - length bs"
  let ?p1 = "set_extent p (MIN_BODY_OFFSET + length h - length bs) (length b + length bs)"
  have split: "h = take ?n h @ drop ?n h" by simp
  have "pkt_area p = take ?n h @ drop ?n h @ b @ t" using layout_sel(7) [OF assms] by simp
  then have area: "pkt_area (write_area ?p1 ?n bs) = take ?n h @ bs @ b @ t"
    using c by (intro write_area_layout [where old = "drop ?n h"]) simp_all
  have start: "body_start ?p1 = ?n" using c by (simp add: body_start_def MIN_BODY_OFFSET_def)
  show "implements (let pkt1 = ?p1 in body_mut pkt1 0 bs)
      (Inr \<lparr> head_room = take (length h - length bs) h, content = bs @ b, tail_room = t \<rparr>)"
    by (rule implementsI [where p = "write_area ?p1 ?n bs"])
      (use c area start in \<open>simp_all add: body_mut_def pkt_len_def layout_def\<close>)
qed

lemma advance_implements:
  assumes "layout p h b t"
  shows "implements (advance p n) (s_advance \<lparr> head_room = h, content = b, tail_room = t \<rparr> n)"
  unfolding advance_def s_advance_def layout_sel [OF assms] sections.simps
  by (rule implements_assert, rule implementsI [OF refl])
    (use layout_sel [OF assms] in \<open>simp add: layout_def\<close>)

lemma shrink_implements:
  assumes "layout p h b t"
  shows "implements (shrink_by p n) (s_shrink \<lparr> head_room = h, content = b, tail_room = t \<rparr> n)"
  unfolding shrink_by_def s_shrink_def layout_sel [OF assms] sections.simps Let_def
  by (rule implements_assert, rule implementsI [OF refl])
    (use layout_sel [OF assms] in \<open>simp add: layout_def\<close>)

lemma put_implements:
  assumes "layout p h b t"
  shows "implements (put_slice p bs) (s_put \<lparr> head_room = h, content = b, tail_room = t \<rparr> bs)"
proof (cases "length bs \<le> length t")
  case True
  have "pkt_area p = (h @ b) @ take (length bs) t @ drop (length bs) t"
    using layout_sel(7) [OF assms] by simp
  then have area: "pkt_area (write_area p (length h + length b) bs) = (h @ b) @ bs @ drop (length bs) t"
    using True by (intro write_area_layout [where old = "take (length bs) t"]) simp_all
  then have "tailroom_available (write_area p (length h + length b) bs) = length t"
    using True layout_sel [OF assms] by (simp add: tailroom_available_def buf_len_def)
  then show ?thesis
    using True area layout_sel [OF assms]
    by (simp add: put_slice_def s_put_def advance_mut_def implements_def layout_def)
qed (use layout_sel [OF assms] in \<open>simp add: put_slice_def s_put_def implements_def\<close>)

lemma write_implements:
  assumes "layout p h b t"
  shows "implements (body_mut p i bs) (s_write \<lparr> head_room = h, content = b, tail_room = t \<rparr> i bs)"
proof (cases "i + length bs \<le> length b")
  case True
  have "b = take i b @ take (length bs) (drop i b) @ drop (i + length bs) b"
    by (metis append_take_drop_id drop_drop add.commute)
  then have "pkt_area p = (h @ take i b) @ take (length bs) (drop i b) @ drop (i + length bs) b @ t"
    using layout_sel(7) [OF assms] by (metis append.assoc)
  then have "pkt_area (write_area p (length h + i) bs) = (h @ take i b) @ bs @ drop (i + length bs) b @ t"
    using True by (intro write_area_layout [where old = "take (length bs) (drop i b)"]) simp_all
  then show ?thesis
    using True layout_sel [OF assms] by (simp add: body_mut_def s_write_def implements_def layout_def)
qed (use layout_sel [OF assms] in \<open>simp add: body_mut_def s_write_def implements_def\<close>)

lemma adopt_implements:
  assumes "layout p h b t"
  shows "implements (adopt_tailroom_with_header p hl w)
    (s_adopt \<lparr> head_room = h, content = b, tail_room = t \<rparr> hl w)"
  unfolding adopt_tailroom_with_header_def s_adopt_def layout_sel [OF assms] sections.simps
proof (intro implements_assert)
  fix u u' assume c: "hl \<le> length b" "w \<le> length t"
  let ?n = "length b - hl"
  let ?q = "write_area p (length h + ?n) (take hl b)"
  let ?off = "MIN_BODY_OFFSET + length h + length b - hl"
  have split: "?off - MIN_BODY_OFFSET = length h + ?n" "?off = MIN_BODY_OFFSET + (length h + ?n)"
    using c by simp_all
  have "pkt_area p = (h @ take ?n b) @ drop ?n b @ t" using layout_sel(7) [OF assms] by simp
  then have area: "pkt_area ?q = (h @ take ?n b) @ take hl b @ t"
    using c by (intro write_area_layout [where old = "drop ?n b"]) simp_all
  then have "extent_asserts ?q ?off (hl + w) = Inr ()"
    using c by (simp add: extent_asserts_def buf_len_def assertR_def MIN_BODY_OFFSET_def) linarith
  moreover have "layout (set_extent ?q ?off (hl + w)) (h @ take ?n b) (take hl b @ take w t) (drop w t)"
    using area c split by (simp add: layout_def)
  ultimately show "implements (let old_offset = MIN_BODY_OFFSET + length h; output_offset = old_offset + length b;
           new_offset = output_offset - hl; hdr = take hl (drop (old_offset - MIN_BODY_OFFSET) (h @ b @ t))
       in set_body_extent (write_area p (new_offset - MIN_BODY_OFFSET) hdr) new_offset (hl + w))
      (Inr \<lparr> head_room = h @ take (length b - hl) b, content = take hl b @ take w t, tail_room = drop w t \<rparr>)"
    using c split by (simp add: Let_def set_body_extent_def implements_def)
qed

lemma pkt_exec_implements:
  assumes "layout p h b t"
  shows "implements (pkt_exec p op) (s_exec \<lparr> head_room = h, content = b, tail_room = t \<rparr> op)"
  using assms
  by (cases op) (simp_all add: push_header_def alloc_zeroed_headroom_def grow_front_implements
      shrink_implements advance_implements put_implements write_implements adopt_implements)

lemma run_implements:
  assumes "layout p h b t"
  shows "implements (runR pkt_exec p ops) (runR s_exec \<lparr> head_room = h, content = b, tail_room = t \<rparr> ops)"
  using assms
proof (induction ops arbitrary: p h b t)
  case (Cons op ops)
  show ?case
  proof (cases "s_exec \<lparr> head_room = h, content = b, tail_room = t \<rparr> op")
    case (Inl e)
    then show ?thesis using pkt_exec_implements [OF Cons.prems, of op] by (simp add: implements_def)
  next
    case (Inr s)
    obtain h' b' t' where s: "s = \<lparr> head_room = h', content = b', tail_room = t' \<rparr>" by (cases s)
    then obtain q where "pkt_exec p op = Inr q" "layout q h' b' t'"
      using pkt_exec_implements [OF Cons.prems, of op] Inr by (auto simp: implements_def)
    then show ?thesis using Cons.IH Inr s by simp
  qed
qed (simp add: implements_def)

text \<open>C7 (packets are three sections of bytes): on a valid packet, every sequence of pushing,
  allocating, shrinking, consuming, appending, overwriting and adopting behaves as on the
  three sections of bytes the buffer is divided into: it panics exactly if they do, and
  otherwise leaves a valid packet with those sections.\<close>

theorem packet_refines:
  assumes "metadata_is_valid p"
  shows "case runR s_exec (view p) ops of
      Inl e \<Rightarrow> runR pkt_exec p ops = Inl e
    | Inr s \<Rightarrow> \<exists>q. runR pkt_exec p ops = Inr q \<and> metadata_is_valid q \<and> view q = s"
proof -
  obtain h b t where l: "layout p h b t" using valid_layout [OF assms] .
  show ?thesis
    using run_implements [OF l, of ops] layout_view [OF l]
    by (auto simp: implements_def layout_valid layout_view split: sum.splits)
qed

definition demo_md :: "bytes PacketMetadata" where
  "demo_md = \<lparr> md_offset = 0, md_len = 0, md_five_tuple = demo_tc, ingress_lane_id = 0, md_flags = 0,
     ingress_link_id = 0, egress_link_id = 0, ingress_stream_id = 0, seq_num = 0 \<rparr>"

definition demo_pkt :: "bytes Packet" where
  "demo_pkt = set_extent \<lparr> pkt_md = demo_md, pkt_area = [1, 2, 3, 4, 5, 6, 7, 8] \<rparr> (MIN_BODY_OFFSET + 2) 3"

theorem packet_refines_witness:
  "\<exists>q. runR pkt_exec demo_pkt [Push_header [9], Put [10, 11], Adopt 2 1, Advance 1] = Inr q
     \<and> metadata_is_valid q
     \<and> view q = \<lparr> head_room = [1, 9, 3, 4, 5, 9], content = [3, 8], tail_room = [] \<rparr>"
proof -
  have "metadata_is_valid demo_pkt" by code_simp
  moreover have "runR s_exec (view demo_pkt) [Push_header [9], Put [10, 11], Adopt 2 1, Advance 1]
      = Inr \<lparr> head_room = [1, 9, 3, 4, 5, 9], content = [3, 8], tail_room = [] \<rparr>"
    by code_simp
  ultimately show ?thesis
    using packet_refines [of demo_pkt "[Push_header [9], Put [10, 11], Adopt 2 1, Advance 1]"] by simp
qed

section \<open>Serialization and copies\<close>

lemma serialize_layout:
  assumes "md_codec_ok codec (pkt_md p)" and "layout p h b t" and "buf_len buf = buf_len p"
    and "pkt_serialize codec p n = Some bs"
  shows "\<exists>h' t'. deserialize_into codec (bs @ rest) buf = Inr \<lparr> pkt_md = pkt_md p, pkt_area = h' @ b @ t' \<rparr>
    \<and> length h' = length h \<and> length t' = length t"
proof -
  have bs: "bs = fst codec (pkt_md p) @ b"
    using assms(4) layout_sel [OF assms(2)] by (auto simp: pkt_serialize_def split: if_splits)
  have md: "length (fst codec (pkt_md p)) = MIN_BODY_OFFSET" "snd codec (fst codec (pkt_md p)) = pkt_md p"
    using assms(1) by (simp_all add: md_codec_ok_def)
  let ?q = "buf \<lparr> pkt_md := pkt_md p \<rparr>"
  have len: "length (pkt_area buf) = length h + length b + length t"
    using assms(3) layout_sel [OF assms(2)] by (simp add: buf_len_def)
  have "metadata_is_valid ?q"
    using layout_sel [OF assms(2)] len by (simp add: metadata_is_valid_def buf_len_def)
  moreover have "pkt_len ?q = length b" "body_start ?q = length h"
    using layout_sel [OF assms(2)] by (simp_all add: pkt_len_def body_start_def)
  ultimately have "deserialize_into codec (bs @ rest) buf = Inr (write_area ?q (length h) b)"
    using md by (simp add: deserialize_into_def bs try_new_with_existing_metadata_def buf_len_def)
  also have "write_area ?q (length h) b = \<lparr> pkt_md = pkt_md p,
      pkt_area = take (length h) (pkt_area buf) @ b @ drop (length h + length b) (pkt_area buf) \<rparr>"
    by (cases buf) (simp add: write_area_def)
  finally show ?thesis
    using len by (intro exI [of _ "take (length h) (pkt_area buf)"]
        exI [of _ "drop (length h + length b) (pkt_area buf)"]) simp
qed

text \<open>Serialized packets come back: a valid packet that was serialized is read back, into
  a buffer of the same size, as an equal packet with the same headroom and tailroom.\<close>

theorem packet_round_trip:
  assumes "md_codec_ok codec (pkt_md p)" and "metadata_is_valid p" and "buf_len buf = buf_len p"
    and "pkt_serialize codec p n = Some bs"
  shows "\<exists>q. deserialize_into codec (bs @ rest) buf = Inr q \<and> Packet_eq q p
    \<and> headroom_available q = headroom_available p \<and> tailroom_available q = tailroom_available p"
proof -
  obtain h b t where l: "layout p h b t" using valid_layout [OF assms(2)] .
  obtain h' t' where q: "deserialize_into codec (bs @ rest) buf = Inr \<lparr> pkt_md = pkt_md p, pkt_area = h' @ b @ t' \<rparr>"
      "length h' = length h" "length t' = length t"
    using serialize_layout [OF assms(1) l assms(3,4)] by blast
  have "layout \<lparr> pkt_md = pkt_md p, pkt_area = h' @ b @ t' \<rparr> h' b t'"
    using l q(2) by (simp add: layout_def)
  from layout_sel [OF this] layout_sel [OF l] q show ?thesis by (auto simp: Packet_eq_def)
qed

text \<open>No prefix can be copied: copying a proper prefix of a packet's body panics, whatever
  the buffer and the headroom.\<close>

theorem clone_prefix_panics:
  assumes "len < length (body pkt)"
  shows "isl (clone_prefix_into_with_headroom pkt buf headroom len)"
  using assms by (auto simp: clone_prefix_into_with_headroom_def assertR_def)

text \<open>A codec that is right for the metadata of one packet.\<close>

definition demo_md_codec :: "bytes md_codec" where
  "demo_md_codec = (\<lambda>_. replicate MIN_BODY_OFFSET 0, \<lambda>_. pkt_md demo_pkt)"

theorem packet_round_trip_witness:
  "\<exists>q. deserialize_into demo_md_codec (replicate MIN_BODY_OFFSET 0 @ [3, 4, 5]) (demo_pkt \<lparr> pkt_area := replicate 8 0 \<rparr>) = Inr q
     \<and> Packet_eq q demo_pkt"
proof -
  have c: "md_codec_ok demo_md_codec (pkt_md demo_pkt)" by (simp add: md_codec_ok_def demo_md_codec_def)
  have v: "metadata_is_valid demo_pkt" by code_simp
  have b: "buf_len (demo_pkt \<lparr> pkt_area := replicate 8 0 \<rparr>) = buf_len demo_pkt" by code_simp
  have s: "pkt_serialize demo_md_codec demo_pkt 100 = Some (replicate MIN_BODY_OFFSET 0 @ [3, 4, 5])" by code_simp
  show ?thesis using packet_round_trip [OF c v b s, of "[]"] by auto
qed

theorem clone_prefix_panics_witness:
  "isl (clone_prefix_into_with_headroom demo_pkt demo_pkt 0 1)"
proof (rule clone_prefix_panics)
  show "1 < length (body demo_pkt)" by code_simp
qed

end
