(* ===== verification/Compress.thy ===== *)
theory Compress
  imports Packet Classifier
begin

unbundle bit_operations_syntax

text \<open>
  Header compression, \<open>adapter/ph/src/compress.rs\<close>, over the three sections of a packet
  buffer that the theory \<open>Packet\<close> shows the buffer to implement.  The checksums, the
  address type and the two flags of the compression mode belong to other crates: they are
  the record \<open>comp_env\<close>.
\<close>

section \<open>The model\<close>

record 'ip comp_env =
  ce_ip :: "'ip ip_ops"
  ce_checksum :: "bytes \<Rightarrow> u16"
  ce_l4_checksum :: "L3Type \<Rightarrow> 'ip \<Rightarrow> 'ip \<Rightarrow> u8 \<Rightarrow> bytes \<Rightarrow> bytes"
  ce_src_present :: u8
  ce_dst_present :: u8

definition ZDP_V4_FRAG_INFO_PRESENT :: u8 where
  "ZDP_V4_FRAG_INFO_PRESENT = 8"

text \<open>\<open>Buf::get_*\<close> consumes bytes of the front; \<open>copy_within\<close> moves bytes of the body.\<close>

definition s_get :: "nat \<Rightarrow> sections \<Rightarrow> (bytes \<times> sections) res" where
  "s_get n s = bindR (s_advance s n) (\<lambda>s'. Inr (take n (content s), s'))"

definition s_get_u16 :: "sections \<Rightarrow> (u16 \<times> sections) res" where
  "s_get_u16 s = bindR (s_get 2 s) (\<lambda>(bs, s'). Inr (get_word bs, s'))"

definition s_copy_within :: "sections \<Rightarrow> nat \<Rightarrow> nat \<Rightarrow> nat \<Rightarrow> sections res" where
  "s_copy_within s start stop dest =
     (if stop > length (content s) then Inl Index_out_of_bounds
      else s_write s dest (take (stop - start) (drop start (content s))))"

definition compress_ports ::
  "'ip comp_env \<Rightarrow> u8 \<Rightarrow> u16 \<Rightarrow> u16 \<Rightarrow> sections \<Rightarrow> sections res" where
  "compress_ports env mode sp dp s =
     bindR (if mode AND ce_dst_present env = 0 then s_push s (put_word 2 dp) else Inr s)
       (\<lambda>s1. if mode AND ce_src_present env = 0 then s_push s1 (put_word 2 sp) else Inr s1)"

definition expand_ports ::
  "'ip comp_env \<Rightarrow> u8 \<Rightarrow> 'ip FiveTuple \<Rightarrow> sections \<Rightarrow> (u16 \<times> u16 \<times> sections) res" where
  "expand_ports env mode five_tuple s =
     bindR (if mode AND ce_src_present env \<noteq> 0 then Inr (src_port five_tuple, s) else s_get_u16 s)
       (\<lambda>(sp, s1).
        bindR (if mode AND ce_dst_present env \<noteq> 0 then Inr (dst_port five_tuple, s1) else s_get_u16 s1)
          (\<lambda>(dp, s2). Inr (sp, dp, s2)))"

definition compress_tcp :: "'ip comp_env \<Rightarrow> u8 \<Rightarrow> sections \<Rightarrow> sections res" where
  "compress_tcp env mode s =
     bindR (s_get_u16 s) (\<lambda>(sp, s1).
     bindR (s_get_u16 s1) (\<lambda>(dp, s2).
     bindR (s_copy_within s2 0 12 2) (\<lambda>s3.
     bindR (s_advance s3 2) (\<lambda>s4.
       compress_ports env mode sp dp s4))))"

definition expand_tcp :: "'ip comp_env \<Rightarrow> u8 \<Rightarrow> 'ip FiveTuple \<Rightarrow> sections \<Rightarrow> sections res" where
  "expand_tcp env mode five_tuple s =
     bindR (expand_ports env mode five_tuple s) (\<lambda>(sp, dp, s1).
     bindR (s_push s1 (replicate 2 0)) (\<lambda>s2.
     bindR (s_copy_within s2 2 14 0) (\<lambda>s3.
     bindR (s_push s3 (put_word 2 dp)) (\<lambda>s4.
     bindR (s_push s4 (put_word 2 sp)) (\<lambda>s5.
     if length (content s5) < 20 then Inl (Unwrap_failed ''TCPHeader::mut_from_prefix'')
     else bindR (s_write s5 16 [0, 0]) (\<lambda>s6.
       s_write s6 16 (ce_l4_checksum env (l3_type five_tuple) (src_address five_tuple)
         (dst_address five_tuple) TCP (content s6))))))))"

definition compress_udp :: "'ip comp_env \<Rightarrow> u8 \<Rightarrow> sections \<Rightarrow> sections res" where
  "compress_udp env mode s =
     bindR (s_get_u16 s) (\<lambda>(sp, s1).
     bindR (s_get_u16 s1) (\<lambda>(dp, s2).
     bindR (s_advance s2 2) (\<lambda>s3.
       compress_ports env mode sp dp s3)))"

definition expand_udp :: "'ip comp_env \<Rightarrow> u8 \<Rightarrow> 'ip FiveTuple \<Rightarrow> sections \<Rightarrow> sections res" where
  "expand_udp env mode five_tuple s =
     bindR (expand_ports env mode five_tuple s) (\<lambda>(sp, dp, s1).
       let payload_len = (of_nat (length (content s1)) :: u64) - 2 in
     bindR (s_push s1 (put_word 2 (ucast (payload_len + 8) :: u16))) (\<lambda>s2.
     bindR (s_push s2 (put_word 2 dp)) (\<lambda>s3.
       s_push s3 (put_word 2 sp))))"

definition compress_l4 :: "'ip comp_env \<Rightarrow> u8 \<Rightarrow> u8 \<Rightarrow> sections \<Rightarrow> sections res" where
  "compress_l4 env mode l4 s =
     (if l4 = TCP then compress_tcp env mode s
      else if l4 = UDP then compress_udp env mode s
      else Inr s)"

definition expand_l4 :: "'ip comp_env \<Rightarrow> u8 \<Rightarrow> 'ip FiveTuple \<Rightarrow> sections \<Rightarrow> sections res" where
  "expand_l4 env mode five_tuple s =
     (if l4_protocol five_tuple = TCP then expand_tcp env mode five_tuple s
      else if l4_protocol five_tuple = UDP then expand_udp env mode five_tuple s
      else Inr s)"

text \<open>The first octet of a compressed IPv4 header.\<close>

definition pack_zdpflags :: "u8 \<Rightarrow> bool \<Rightarrow> u16 \<Rightarrow> u8" where
  "pack_zdpflags hl present fl = push_bit 4 hl OR (if present then ZDP_V4_FRAG_INFO_PRESENT else 0) OR ucast fl"

definition compress_ipv4 :: "'ip comp_env \<Rightarrow> u8 \<Rightarrow> u8 \<Rightarrow> sections \<Rightarrow> sections res" where
  "compress_ipv4 env mode l4 s =
     (if length (content s) < 20 then Inl (Unwrap_failed ''IPv4Header::ref_from_prefix'')
      else
        let hdr = take 20 (content s);
            hl = hdr ! 0 AND IPV4_HEADER_LENGTH_MASK;
            dscp = hdr ! 1;
            frag = (get_word (take 2 (drop 6 hdr)) :: u16);
            frag_flags = drop_bit 13 frag;
            frag_id = take 2 (drop 4 hdr);
            frag_offset = frag AND 0x1fff;
            ttl = hdr ! 8;
            frag_info_present = (frag_offset \<noteq> 0)
        in bindR (s_advance s 20) (\<lambda>s1.
           bindR (compress_l4 env mode l4 s1) (\<lambda>s2.
           bindR (s_push s2 [ttl]) (\<lambda>s3.
           bindR (if frag_info_present then s_push s3 (put_word 2 frag_offset) else Inr s3) (\<lambda>s4.
           bindR (s_push s4 frag_id) (\<lambda>s5.
             s_push s5 [pack_zdpflags hl frag_info_present frag_flags, dscp]))))))"

definition expand_ipv4 :: "'ip comp_env \<Rightarrow> u8 \<Rightarrow> 'ip FiveTuple \<Rightarrow> sections \<Rightarrow> sections res" where
  "expand_ipv4 env mode five_tuple s =
     bindR (s_get 2 s) (\<lambda>(hl_zdpflags_tos, s1).
       let hl_zdpflags = hl_zdpflags_tos ! 0; tos = hl_zdpflags_tos ! 1;
           hl = drop_bit 4 hl_zdpflags;
           frag_info_present = (hl_zdpflags AND ZDP_V4_FRAG_INFO_PRESENT \<noteq> 0);
           frag_flags = hl_zdpflags AND 0x07
       in
     bindR (s_get 2 s1) (\<lambda>(frag_id, s2).
     bindR (if frag_info_present then s_get_u16 s2 else Inr (0, s2)) (\<lambda>(frag_offset0, s3).
       let frag_offset = frag_offset0 OR push_bit 13 (ucast frag_flags) in
     bindR (s_get 1 s3) (\<lambda>(ttl, s4).
     bindR (expand_l4 env mode five_tuple s4) (\<lambda>s5.
       let hdr = [0x40 OR hl, tos] @ put_word 2 (of_nat (length (content s5) + 20) :: u16)
             @ frag_id @ put_word 2 frag_offset @ [ttl ! 0, l4_protocol five_tuple, 0, 0]
             @ read_as_v4 (ce_ip env) (src_address five_tuple) @ read_as_v4 (ce_ip env) (dst_address five_tuple);
           header_len = unat hl * 4
       in
     bindR (s_push s5 hdr) (\<lambda>s6.
       if header_len > length (content s6) then Inl Index_out_of_bounds
       else s_write s6 10 (put_word 2 (ce_checksum env (take header_len (content s6))))))))))"

definition compress_ipv6 :: "'ip comp_env \<Rightarrow> u8 \<Rightarrow> u8 \<Rightarrow> sections \<Rightarrow> sections res" where
  "compress_ipv6 env mode l4 s =
     (if length (content s) < 40 then Inl (Unwrap_failed ''IPv6Header::ref_from_prefix'')
      else
        let hdr = take 40 (content s) in
        bindR (s_advance s 40) (\<lambda>s1.
        bindR (compress_l4 env mode l4 s1) (\<lambda>s2.
          s_push s2 (take 4 hdr @ [hdr ! 7]))))"

definition expand_ipv6 :: "'ip comp_env \<Rightarrow> u8 \<Rightarrow> 'ip FiveTuple \<Rightarrow> sections \<Rightarrow> sections res" where
  "expand_ipv6 env mode five_tuple s =
     (if length (content s) < 5 then Inl (Unwrap_failed ''CompressedIPv6Header::ref_from_prefix'')
      else
        let chdr = take 5 (content s) in
        bindR (s_advance s 5) (\<lambda>s1.
        bindR (expand_l4 env mode five_tuple s1) (\<lambda>s2.
          s_push s2 (take 4 chdr @ put_word 2 (of_nat (length (content s2)) :: u16)
            @ [l4_protocol five_tuple, chdr ! 4]
            @ v6 (ce_ip env) (src_address five_tuple) @ v6 (ce_ip env) (dst_address five_tuple)))))"

definition compress :: "'ip comp_env \<Rightarrow> u8 \<Rightarrow> L3Type \<Rightarrow> u8 \<Rightarrow> sections \<Rightarrow> sections res" where
  "compress env mode l3 l4 s =
     (case l3 of
        Ipv4 \<Rightarrow> compress_ipv4 env mode l4 s
      | Ipv6 \<Rightarrow> compress_ipv6 env mode l4 s
      | L3_other _ \<Rightarrow> Inr s)"

definition expand :: "'ip comp_env \<Rightarrow> u8 \<Rightarrow> 'ip FiveTuple \<Rightarrow> sections \<Rightarrow> sections res" where
  "expand env mode five_tuple s =
     (case l3_type five_tuple of
        Ipv4 \<Rightarrow> expand_ipv4 env mode five_tuple s
      | Ipv6 \<Rightarrow> expand_ipv6 env mode five_tuple s
      | L3_other _ \<Rightarrow> Inr s)"

section \<open>Tracking a packet through the operations\<close>

text \<open>Moving the front of the body keeps the tailroom and the sum of headroom and body.\<close>

definition sees :: "sections \<Rightarrow> nat \<Rightarrow> bytes \<Rightarrow> bytes \<Rightarrow> bool" where
  "sees s f b t \<longleftrightarrow> length (head_room s) + length (content s) = f \<and> content s = b \<and> tail_room s = t"

definition does :: "sections res \<Rightarrow> nat \<Rightarrow> bytes \<Rightarrow> bytes \<Rightarrow> bool" where
  "does m f b t \<longleftrightarrow> (\<exists>s. m = Inr s \<and> sees s f b t)"

lemma does_bind:
  "does m f b t \<Longrightarrow> (\<And>s. sees s f b t \<Longrightarrow> does (k s) f b' t) \<Longrightarrow> does (bindR m k) f b' t"
  by (auto simp: does_def)

lemma does_Inr: "sees s f b t \<Longrightarrow> does (Inr s) f b t"
  by (simp add: does_def)

lemma does_push: "sees s f b t \<Longrightarrow> length hdr + length b \<le> f \<Longrightarrow> does (s_push s hdr) f (hdr @ b) t"
  by (auto simp: does_def sees_def s_push_def)

lemma does_advance: "sees s f b t \<Longrightarrow> n \<le> length b \<Longrightarrow> does (s_advance s n) f (drop n b) t"
  by (auto simp: does_def sees_def s_advance_def)

lemma does_write: "sees s f b t \<Longrightarrow> i + length bs \<le> length b
    \<Longrightarrow> does (s_write s i bs) f (take i b @ bs @ drop (i + length bs) b) t"
  by (auto simp: does_def sees_def s_write_def)

lemma does_get:
  assumes "sees s f b t" and "n \<le> length b" and "\<And>s'. sees s' f (drop n b) t \<Longrightarrow> does (k (take n b) s') f b' t"
  shows "does (bindR (s_get n s) (\<lambda>(x, s'). k x s')) f b' t"
  using assms does_advance [OF assms(1,2)] by (auto simp: does_def s_get_def sees_def)

lemma does_get_u16:
  assumes "sees s f b t" and "2 \<le> length b"
    and "\<And>s'. sees s' f (drop 2 b) t \<Longrightarrow> does (k (get_word (take 2 b)) s') f b' t"
  shows "does (bindR (s_get_u16 s) (\<lambda>(x, s'). k x s')) f b' t"
  using assms does_advance [OF assms(1,2)] by (auto simp: does_def s_get_u16_def s_get_def sees_def)

lemma does_copy_within:
  assumes "sees s f b t" and "start \<le> stop" and "stop \<le> length b" and "dest + (stop - start) \<le> length b"
  shows "does (s_copy_within s start stop dest) f
    (take dest b @ take (stop - start) (drop start b) @ drop (dest + (stop - start)) b) t"
proof -
  have "length (take (stop - start) (drop start b)) = stop - start" using assms by simp
  then show ?thesis
    using does_write [OF assms(1), of dest "take (stop - start) (drop start b)"] assms
    by (simp add: s_copy_within_def sees_def)
qed

section \<open>What the operations make of a body\<close>

text \<open>
  The bytes that the compressed transport header has in front of the rest: the ports
  that the compression mode does not announce as part of the traffic classifier.
\<close>

definition kept_ports :: "'ip comp_env \<Rightarrow> u8 \<Rightarrow> bytes \<Rightarrow> bytes \<Rightarrow> bytes" where
  "kept_ports env mode sp dp =
     (if mode AND ce_src_present env = 0 then sp else [])
     @ (if mode AND ce_dst_present env = 0 then dp else [])"

lemma length_kept_ports:
  "length sp = 2 \<Longrightarrow> length dp = 2 \<Longrightarrow> length (kept_ports env mode sp dp) \<le> 4"
  by (simp add: kept_ports_def)

lemma does_compress_ports:
  assumes "sees s f b t" and "4 + length b \<le> f"
  shows "does (compress_ports env mode sp dp s) f (kept_ports env mode (put_word 2 sp) (put_word 2 dp) @ b) t"
  unfolding compress_ports_def
proof (rule does_bind)
  show "does (if mode AND ce_dst_present env = 0 then s_push s (put_word 2 dp) else Inr s) f
      ((if mode AND ce_dst_present env = 0 then put_word 2 dp else []) @ b) t"
    using does_push [OF assms(1), of "put_word 2 dp"] assms by (auto simp: does_Inr)
next
  fix s'
  assume s': "sees s' f ((if mode AND ce_dst_present env = 0 then put_word 2 dp else []) @ b) t"
  show "does (if mode AND ce_src_present env = 0 then s_push s' (put_word 2 sp) else Inr s') f
      (kept_ports env mode (put_word 2 sp) (put_word 2 dp) @ b) t"
    using does_push [OF s', of "put_word 2 sp"] does_Inr [OF s'] assms
    by (simp add: kept_ports_def)
qed

section \<open>Canonical packets\<close>

text \<open>
  The packets that survive compression: those whose length, checksum and, where the
  classifier fixes them, port and address fields are the ones that expansion recomputes,
  and whose transport header directly follows an IP header without options.
\<close>

lemma frag_flags_lt: "drop_bit 13 (x :: u16) < 8"
proof -
  have "unat x < 2 ^ 16" using unsigned_less [of x] by simp
  then have "unat (drop_bit 13 x) < 8" by (simp add: unsigned_drop_bit_eq drop_bit_eq_div unat_div)
  then show ?thesis by (simp add: word_less_nat_alt)
qed

lemma word_less_8_cases:
  assumes "(x :: u16) < 8"
  shows "x \<in> set [0, 1, 2, 3, 4, 5, 6, 7]"
proof -
  have "unat x < 8" using assms by (simp add: word_less_nat_alt)
  then have "unat x \<in> {0, 1, 2, 3, 4, 5, 6, 7}" by auto
  then show ?thesis by (auto simp: word_unat_eq_iff)
qed

lemma frag_join: "((x :: u16) AND 0x1fff) OR push_bit 13 (drop_bit 13 x) = x"
proof -
  have "(0x1fff :: u16) = mask 13" by (simp add: mask_eq_exp_minus_1)
  then have "x AND 0x1fff = take_bit 13 x" by (simp add: take_bit_eq_mask)
  then show ?thesis by (auto intro!: bit_word_eqI simp: bit_simps)
qed

lemma pack_zdpflags_all:
  "list_all (\<lambda>hl. list_all (\<lambda>fl. list_all (\<lambda>p. drop_bit 4 (pack_zdpflags hl p fl) = hl
     \<and> (pack_zdpflags hl p fl AND 8 \<noteq> 0) = p \<and> ucast (pack_zdpflags hl p fl AND 0x07) = fl) [True, False])
     [0, 1, 2, 3, 4, 5, 6, 7]) [5, 6]"
  by code_simp

lemma pack_zdpflags_split:
  assumes "(fl :: u16) < 8" and "hl = 5 \<or> hl = 6"
  shows "drop_bit 4 (pack_zdpflags hl p fl) = hl" "pack_zdpflags hl p fl AND 8 = 0 \<longleftrightarrow> \<not> p"
    "ucast (pack_zdpflags hl p fl AND 0x07) = fl"
proof -
  have "hl \<in> set [5, 6]" using assms(2) by auto
  note all = bspec [OF bspec [OF pack_zdpflags_all [unfolded list_all_iff] this] word_less_8_cases [OF assms(1)]]
  show "drop_bit 4 (pack_zdpflags hl p fl) = hl" "pack_zdpflags hl p fl AND 8 = 0 \<longleftrightarrow> \<not> p"
    "ucast (pack_zdpflags hl p fl AND 0x07) = fl"
    using all by (cases p; simp)+
qed

definition ports_fixed :: "'ip FiveTuple \<Rightarrow> bytes \<Rightarrow> bool" where
  "ports_fixed tc l4 \<longleftrightarrow>
     (src_port tc = 0 \<or> take 2 l4 = put_word 2 (src_port tc))
     \<and> (dst_port tc = 0 \<or> take 2 (drop 2 l4) = put_word 2 (dst_port tc))"

definition canonical_l4 :: "'ip comp_env \<Rightarrow> 'ip FiveTuple \<Rightarrow> bytes \<Rightarrow> bool" where
  "canonical_l4 env tc l4 \<longleftrightarrow>
     (if l4_protocol tc = TCP then
        20 \<le> length l4 \<and> ports_fixed tc l4
        \<and> take 2 (drop 16 l4) = ce_l4_checksum env (l3_type tc) (src_address tc) (dst_address tc) TCP
             (take 16 l4 @ [0, 0] @ drop 18 l4)
      else if l4_protocol tc = UDP then
        8 \<le> length l4 \<and> ports_fixed tc l4
        \<and> take 2 (drop 4 l4) = put_word 2 (of_nat (length l4) :: u16)
      else True)"

definition mode_of :: "'ip comp_env \<Rightarrow> 'ip FiveTuple \<Rightarrow> u8" where
  "mode_of env tc = compression_mode (ce_src_present env) (ce_dst_present env) tc"

definition flags_ok :: "'ip comp_env \<Rightarrow> bool" where
  "flags_ok env \<longleftrightarrow> ce_src_present env \<noteq> 0 \<and> ce_dst_present env \<noteq> 0
     \<and> ce_src_present env AND ce_dst_present env = 0"

definition c_l4 :: "'ip comp_env \<Rightarrow> u8 \<Rightarrow> u8 \<Rightarrow> bytes \<Rightarrow> bytes" where
  "c_l4 env mode p l4 =
     (if p = TCP then kept_ports env mode (take 2 l4) (take 2 (drop 2 l4)) @ take 12 (drop 4 l4) @ drop 18 l4
      else if p = UDP then kept_ports env mode (take 2 l4) (take 2 (drop 2 l4)) @ drop 6 l4
      else l4)"

lemma mode_of_ports:
  assumes "flags_ok env"
  shows "mode_of env tc AND ce_src_present env = 0 \<longleftrightarrow> src_port tc = 0"
    and "mode_of env tc AND ce_dst_present env = 0 \<longleftrightarrow> dst_port tc = 0"
  using assms
  by (auto simp: mode_of_def compression_mode_def flags_ok_def Let_def bit.conj_disj_distrib2
      and.commute)

lemma put_get_take2: "2 \<le> length bs \<Longrightarrow> put_word 2 (get_word (take 2 bs) :: u16) = take 2 bs"
  using put_get_word [of "take 2 bs", where 'a = 16] by simp

lemma get_put_u16: "get_word (put_word 2 (w :: u16)) = w"
  by (simp add: get_put_word)

lemma does_cong: "does m f b t \<Longrightarrow> b = b' \<Longrightarrow> does m f b' t"
  by simp

lemma does_compress_tcp:
  assumes s: "sees s f l4 t" and len: "18 \<le> length l4"
  shows "does (compress_tcp env mode s) f (c_l4 env mode TCP l4) t"
proof -
  have f: "length l4 \<le> f" using s by (auto simp: sees_def)
  have tail: "drop 2 (take 2 (drop 4 l4) @ take 12 (drop 4 l4) @ drop 14 (drop 4 l4))
      = take 12 (drop 4 l4) @ drop 18 l4"
    using len by simp
  show ?thesis
    unfolding compress_tcp_def
    apply (rule does_get_u16 [OF s])
     apply (use len in simp)
    apply (erule does_get_u16)
     apply (use len in simp)
    apply (rule does_bind)
     apply (erule does_copy_within)
       apply (use len in simp_all) [3]
    apply (rule does_bind)
     apply (erule does_advance)
     apply (use len in simp)
    apply (rule does_cong)
     apply (erule does_compress_ports)
     apply (use len f in simp)
    apply (use len tail in \<open>simp add: c_l4_def put_get_take2\<close>)
    done
qed

lemma does_compress_udp:
  assumes s: "sees s f l4 t" and len: "6 \<le> length l4"
  shows "does (compress_udp env mode s) f (c_l4 env mode UDP l4) t"
proof -
  have f: "length l4 \<le> f" using s by (auto simp: sees_def)
  show ?thesis
    unfolding compress_udp_def
    apply (rule does_get_u16 [OF s])
     apply (use len in simp)
    apply (erule does_get_u16)
     apply (use len in simp)
    apply (rule does_bind)
     apply (erule does_advance)
     apply (use len in simp)
    apply (rule does_cong)
     apply (erule does_compress_ports)
     apply (use len f in simp)
    apply (use len in \<open>simp add: c_l4_def put_get_take2 TCP_def UDP_def\<close>)
    done
qed

lemma does_compress_l4:
  assumes "sees s f l4 t" and "p = TCP \<Longrightarrow> 18 \<le> length l4" and "p = UDP \<Longrightarrow> 6 \<le> length l4"
  shows "does (compress_l4 env mode p s) f (c_l4 env mode p l4) t"
  using does_compress_tcp [OF assms(1)] does_compress_udp [OF assms(1)] does_Inr [OF assms(1)] assms
  by (auto simp: compress_l4_def) (simp add: c_l4_def)

section \<open>Expanding the transport header\<close>

lemma does_expand_ports:
  assumes s: "sees s f (kept_ports env (mode_of env tc) (take 2 l4) (take 2 (drop 2 l4)) @ b) t"
    and ok: "flags_ok env" "ports_fixed tc l4" "4 \<le> length l4"
    and k: "\<And>s'. sees s' f b t \<Longrightarrow> does (k (get_word (take 2 l4)) (get_word (take 2 (drop 2 l4))) s') f b' t"
  shows "does (bindR (expand_ports env (mode_of env tc) tc s) (\<lambda>(sp, dp, s'). k sp dp s')) f b' t"
proof -
  have port: "(get_word (take 2 bs) :: u16) = x"
    if "x = 0 \<or> take 2 bs = put_word 2 x" "x \<noteq> 0" for x bs
    using that by (auto simp: get_put_u16)
  have sp: "src_port tc \<noteq> 0 \<Longrightarrow> get_word (take 2 l4) = src_port tc"
    and dp: "dst_port tc \<noteq> 0 \<Longrightarrow> get_word (take 2 (drop 2 l4)) = dst_port tc"
    using ok(2) port by (auto simp: ports_fixed_def)
  show ?thesis
    using s ok(3) k sp dp
    by (cases "src_port tc = 0"; cases "dst_port tc = 0")
      (auto simp: expand_ports_def mode_of_ports [OF ok(1)] kept_ports_def s_get_u16_def s_get_def
        s_advance_def sees_def)
qed

lemma does_expand_tcp:
  assumes s: "sees s f (c_l4 env (mode_of env tc) TCP l4) t" and f: "length l4 \<le> f"
    and ok: "flags_ok env" "l4_protocol tc = TCP" "canonical_l4 env tc l4"
    and csum: "\<And>b. length (ce_l4_checksum env (l3_type tc) (src_address tc) (dst_address tc) TCP b) = 2"
  shows "does (expand_tcp env (mode_of env tc) tc s) f l4 t"
proof -
  let ?b = "take 12 (drop 4 l4) @ drop 18 l4"
  let ?h = "take 2 l4 @ take 2 (drop 2 l4) @ take 12 (drop 4 l4)"
  let ?c = "ce_l4_checksum env (l3_type tc) (src_address tc) (dst_address tc) TCP"
  have len: "20 \<le> length l4" and pf: "ports_fixed tc l4"
    and ck: "take 2 (drop 16 l4) = ?c (take 16 l4 @ [0, 0] @ drop 18 l4)"
    using ok by (simp_all add: canonical_l4_def)
  have h: "?h = take 16 l4"
    using take_add [of 2 2 l4] take_add [of 4 12 l4] by simp
  have whole: "take 16 l4 @ ?c (take 16 l4 @ [0, 0] @ drop 18 l4) @ drop 18 l4 = l4"
    unfolding ck [symmetric] using take_add [of 16 2 l4] append_take_drop_id [of 18 l4] by simp
  have s': "sees s f (kept_ports env (mode_of env tc) (take 2 l4) (take 2 (drop 2 l4)) @ ?b) t"
    using s by (simp add: c_l4_def)
  have fin: "does (if length (content s5) < 20 then Inl (Unwrap_failed ''TCPHeader::mut_from_prefix'')
       else bindR (s_write s5 16 [0, 0]) (\<lambda>s6. s_write s6 16 (?c (content s6)))) f l4 t"
    if "sees s5 f (take 16 l4 @ j @ drop 18 l4) t" "length j = 2" for s5 j
  proof -
    have w1: "does (s_write s5 16 [0, 0]) f (take 16 l4 @ [0, 0] @ drop 18 l4) t"
      using does_write [OF that(1), of 16 "[0, 0]"] len that(2) by simp
    have w2: "does (s_write s6 16 (?c (content s6))) f l4 t"
      if "sees s6 f (take 16 l4 @ [0, 0] @ drop 18 l4) t" for s6
    proof -
      have "content s6 = take 16 l4 @ [0, 0] @ drop 18 l4" using that by (simp add: sees_def)
      then show ?thesis
        using does_write [OF that, of 16 "?c (content s6)"] len csum whole by simp
    qed
    have "\<not> length (content s5) < 20" using that len by (simp add: sees_def)
    then show ?thesis using does_bind [OF w1 w2] by simp
  qed
  have x: "put_word 2 (get_word (take 2 l4) :: u16) @ put_word 2 (get_word (take 2 (drop 2 l4)) :: u16)
      @ take 0 (replicate 2 0 @ ?b) @ take (14 - 2) (drop 2 (replicate 2 0 @ ?b)) @ drop (0 + (14 - 2)) (replicate 2 0 @ ?b)
    = take 16 l4 @ drop 10 (take 12 (drop 4 l4)) @ drop 18 l4"
    using len unfolding h [symmetric] by (simp add: put_get_take2)
  show ?thesis
    unfolding expand_tcp_def
    apply (rule does_expand_ports [OF s' ok(1) pf])
     apply (use len in simp)
    apply (rule does_bind)
     apply (erule does_push)
     apply (use len f in simp)
    apply (rule does_bind)
     apply (erule does_copy_within)
       apply (use len in simp_all) [3]
    apply (rule does_bind)
     apply (erule does_push)
     apply (use len f in simp)
    apply (rule does_bind)
     apply (erule does_push)
     apply (use len f in simp)
    apply (unfold x)
    apply (erule fin)
    apply (use len in simp)
    done
qed

lemma udp_length_word:
  assumes "6 \<le> n"
  shows "ucast ((of_nat (n - 6) :: u64) - 2 + 8) = (of_nat n :: u16)"
proof -
  have "(of_nat (n - 6) :: u64) - 2 + 8 = of_nat (n - 6) + of_nat 6" by simp
  also have "\<dots> = of_nat n" unfolding of_nat_add [symmetric] using assms by simp
  finally show ?thesis by (simp add: unsigned_of_nat word_of_nat_eq_iff)
qed

lemma does_expand_udp:
  assumes s: "sees s f (c_l4 env (mode_of env tc) UDP l4) t" and f: "length l4 \<le> f"
    and ok: "flags_ok env" "l4_protocol tc = UDP" "canonical_l4 env tc l4"
  shows "does (expand_udp env (mode_of env tc) tc s) f l4 t"
proof -
  have len: "8 \<le> length l4" and pf: "ports_fixed tc l4"
    and ul: "take 2 (drop 4 l4) = put_word 2 (of_nat (length l4) :: u16)"
    using ok by (simp_all add: canonical_l4_def TCP_def UDP_def)
  have s': "sees s f (kept_ports env (mode_of env tc) (take 2 l4) (take 2 (drop 2 l4)) @ drop 6 l4) t"
    using s by (simp add: c_l4_def TCP_def UDP_def)
  have le: "6 \<le> length l4" using len by simp
  note pl = udp_length_word
  have whole: "take 2 l4 @ take 2 (drop 2 l4) @ take 2 (drop 4 l4) @ drop 6 l4 = l4"
    using take_add [of 2 2 l4] take_add [of 4 2 l4] append_take_drop_id [of 6 l4] by simp
  show ?thesis
    unfolding expand_udp_def
  proof (rule does_expand_ports [OF s' ok(1) pf])
    show "4 \<le> length l4" using len by simp
  next
    fix s1
    assume s1: "sees s1 f (drop 6 l4) t"
    then have c: "length (content s1) = length l4 - 6" by (simp add: sees_def)
    show "does (let payload_len = (of_nat (length (content s1)) :: u64) - 2 in
        bindR (s_push s1 (put_word 2 (ucast (payload_len + 8) :: u16))) (\<lambda>s2.
        bindR (s_push s2 (put_word 2 (get_word (take 2 (drop 2 l4)) :: u16))) (\<lambda>s3.
          s_push s3 (put_word 2 (get_word (take 2 l4) :: u16))))) f l4 t"
      unfolding Let_def c pl [OF le] ul [symmetric]
      apply (rule does_bind)
       apply (rule does_push [OF s1])
       apply (use len f in simp)
      apply (rule does_bind)
       apply (erule does_push)
       apply (use len f in simp)
      apply (rule does_cong)
       apply (erule does_push)
       apply (use len f in simp)
      apply (use len whole in \<open>simp add: put_get_take2\<close>)
      done
  qed
qed

lemma does_expand_l4:
  assumes "sees s f (c_l4 env (mode_of env tc) (l4_protocol tc) l4) t" and "length l4 \<le> f"
    and "flags_ok env" and "canonical_l4 env tc l4"
    and "\<And>b. length (ce_l4_checksum env (l3_type tc) (src_address tc) (dst_address tc) TCP b) = 2"
  shows "does (expand_l4 env (mode_of env tc) tc s) f l4 t"
  using assms does_expand_tcp [of s f env tc l4 t] does_expand_udp [of s f env tc l4 t]
  by (auto simp: expand_l4_def c_l4_def does_Inr)

lemma length_c_l4:
  assumes "p = TCP \<Longrightarrow> 18 \<le> length l4" and "p = UDP \<Longrightarrow> 6 \<le> length l4"
  shows "length (c_l4 env mode p l4) \<le> length l4" and "length l4 \<le> length (c_l4 env mode p l4) + 6"
  using assms by (auto simp: c_l4_def kept_ports_def)

section \<open>The IP headers\<close>

definition canonical_ipv4 :: "'ip comp_env \<Rightarrow> 'ip FiveTuple \<Rightarrow> bytes \<Rightarrow> bool" where
  "canonical_ipv4 env tc bd \<longleftrightarrow>
     20 \<le> length bd \<and> bd ! 0 = 0x45
     \<and> take 2 (drop 2 bd) = put_word 2 (of_nat (length bd) :: u16)
     \<and> bd ! 9 = l4_protocol tc
     \<and> take 2 (drop 10 bd) = put_word 2 (ce_checksum env (take 10 bd @ [0, 0] @ take 8 (drop 12 bd)))
     \<and> take 4 (drop 12 bd) = read_as_v4 (ce_ip env) (src_address tc)
     \<and> take 4 (drop 16 bd) = read_as_v4 (ce_ip env) (dst_address tc)
     \<and> canonical_l4 env tc (drop 20 bd)"

definition canonical_ipv6 :: "'ip comp_env \<Rightarrow> 'ip FiveTuple \<Rightarrow> bytes \<Rightarrow> bool" where
  "canonical_ipv6 env tc bd \<longleftrightarrow>
     40 \<le> length bd
     \<and> take 2 (drop 4 bd) = put_word 2 (of_nat (length bd - 40) :: u16)
     \<and> bd ! 6 = l4_protocol tc
     \<and> take 16 (drop 8 bd) = v6 (ce_ip env) (src_address tc)
     \<and> take 16 (drop 24 bd) = v6 (ce_ip env) (dst_address tc)
     \<and> canonical_l4 env tc (drop 40 bd)"

definition canonical :: "'ip comp_env \<Rightarrow> 'ip FiveTuple \<Rightarrow> bytes \<Rightarrow> bool" where
  "canonical env tc bd \<longleftrightarrow>
     (case l3_type tc of
        Ipv4 \<Rightarrow> canonical_ipv4 env tc bd
      | Ipv6 \<Rightarrow> canonical_ipv6 env tc bd
      | L3_other _ \<Rightarrow> True)"

text \<open>The lengths that keep the transport compressors from running out of bytes.\<close>

definition l4_long :: "u8 \<Rightarrow> bytes \<Rightarrow> bool" where
  "l4_long p l4 \<longleftrightarrow> (p = TCP \<longrightarrow> 18 \<le> length l4) \<and> (p = UDP \<longrightarrow> 6 \<le> length l4)"

lemma canonical_l4_long: "canonical_l4 env tc l4 \<Longrightarrow> l4_long (l4_protocol tc) l4"
  by (auto simp: canonical_l4_def l4_long_def split: if_splits)

definition frag_word :: "bytes \<Rightarrow> u16" where
  "frag_word bd = get_word (take 2 (drop 6 bd))"

definition c_ipv4 :: "'ip comp_env \<Rightarrow> u8 \<Rightarrow> u8 \<Rightarrow> bytes \<Rightarrow> bytes" where
  "c_ipv4 env mode p bd =
     (let off = frag_word bd AND 0x1fff in
      [pack_zdpflags (bd ! 0 AND IPV4_HEADER_LENGTH_MASK) (off \<noteq> 0) (drop_bit 13 (frag_word bd)), bd ! 1]
      @ take 2 (drop 4 bd) @ (if off \<noteq> 0 then put_word 2 off else []) @ [bd ! 8]
      @ c_l4 env mode p (drop 20 bd))"

definition c_ipv6 :: "'ip comp_env \<Rightarrow> u8 \<Rightarrow> u8 \<Rightarrow> bytes \<Rightarrow> bytes" where
  "c_ipv6 env mode p bd = take 4 bd @ [bd ! 7] @ c_l4 env mode p (drop 40 bd)"

lemma does_compress_ipv4:
  assumes s: "sees s f bd t" and len: "20 \<le> length bd" and long: "l4_long p (drop 20 bd)"
  shows "does (compress_ipv4 env mode p s) f (c_ipv4 env mode p bd) t"
proof -
  let ?off = "frag_word bd AND 0x1fff"
  have f: "length bd \<le> f" and c: "content s = bd" using s by (auto simp: sees_def)
  have short: "length (c_l4 env mode p (drop 20 bd)) \<le> length bd - 20"
    using length_c_l4(1) [of p "drop 20 bd" env mode] long by (simp add: l4_long_def)
  have fr: "get_word (take 2 (drop 6 (take 20 bd))) = frag_word bd" "take 2 (drop 4 (take 20 bd)) = take 2 (drop 4 bd)"
    by (simp_all add: drop_take min_def frag_word_def)
  have nth: "take 20 bd ! 0 = bd ! 0" "take 20 bd ! 1 = bd ! 1" "take 20 bd ! 8 = bd ! 8" by simp_all
  have c': "\<not> length bd < 20" using len by simp
  show ?thesis
    unfolding compress_ipv4_def Let_def c if_not_P [OF c']
    unfolding fr nth
    apply (rule does_bind [OF does_advance [OF s len]])
    apply (rule does_bind)
     apply (erule does_compress_l4)
      apply (use long in \<open>simp_all add: l4_long_def\<close>) [2]
    apply (rule does_bind)
     apply (erule does_push)
     apply (use short len f in simp)
    apply (rule does_bind [where b = "(if ?off \<noteq> 0 then put_word 2 ?off else []) @ [bd ! 8]
        @ c_l4 env mode p (drop 20 bd)"])
    subgoal for s1 s2 s3
      using does_push [of s3 f _ t "put_word 2 ?off"] short len f by (auto simp: does_Inr)
    apply (rule does_bind)
     apply (erule does_push)
     apply (use short len f in auto) [1]
    apply (rule does_cong)
     apply (erule does_push)
     apply (use short len f in auto) [1]
    apply (simp add: c_ipv4_def Let_def)
    done
qed

lemma does_compress_ipv6:
  assumes s: "sees s f bd t" and len: "40 \<le> length bd" and long: "l4_long p (drop 40 bd)"
  shows "does (compress_ipv6 env mode p s) f (c_ipv6 env mode p bd) t"
proof -
  have f: "length bd \<le> f" and c: "content s = bd" using s by (auto simp: sees_def)
  have short: "length (c_l4 env mode p (drop 40 bd)) \<le> length bd - 40"
    using length_c_l4(1) [of p "drop 40 bd" env mode] long by (simp add: l4_long_def)
  have c': "\<not> length bd < 40" using len by simp
  show ?thesis
    unfolding compress_ipv6_def Let_def c if_not_P [OF c']
    apply (rule does_bind [OF does_advance [OF s len]])
    apply (rule does_bind)
     apply (erule does_compress_l4)
      apply (use long in \<open>simp_all add: l4_long_def\<close>) [2]
    apply (rule does_cong)
     apply (erule does_push)
     apply (use short len f in simp)
    apply (simp add: c_ipv6_def)
    done
qed

lemma does_get_append:
  assumes "sees s f (x @ b) t" and "length x = n" and "\<And>s'. sees s' f b t \<Longrightarrow> does (k x s') f b' t"
  shows "does (bindR (s_get n s) (\<lambda>(x, s'). k x s')) f b' t"
  using does_get [OF assms(1), of n k b'] assms(2,3) by simp

lemma take2_nth: "Suc i < length xs \<Longrightarrow> take 2 (drop i xs) = [xs ! i, xs ! Suc i]"
  by (simp add: numeral_2_eq_2 Cons_nth_drop_Suc [symmetric])

lemma ipv4_header_fields:
  assumes "20 \<le> length bd"
  shows "take 10 bd = [bd ! 0, bd ! 1] @ take 2 (drop 2 bd) @ take 2 (drop 4 bd) @ take 2 (drop 6 bd)
      @ [bd ! 8, bd ! 9]"
    and "take 8 (drop 12 bd) = take 4 (drop 12 bd) @ take 4 (drop 16 bd)"
    and "take 10 bd @ take 2 (drop 10 bd) @ take 8 (drop 12 bd) @ drop 20 bd = bd"
proof -
  show "take 10 bd = [bd ! 0, bd ! 1] @ take 2 (drop 2 bd) @ take 2 (drop 4 bd) @ take 2 (drop 6 bd)
      @ [bd ! 8, bd ! 9]"
    using take_add [of 2 2 bd] take_add [of 4 2 bd] take_add [of 6 2 bd] take_add [of 8 2 bd] assms
      take2_nth [of 0 bd] take2_nth [of 8 bd] by simp
  show "take 8 (drop 12 bd) = take 4 (drop 12 bd) @ take 4 (drop 16 bd)"
    using take_add [of 4 4 "drop 12 bd"] by simp
  show "take 10 bd @ take 2 (drop 10 bd) @ take 8 (drop 12 bd) @ drop 20 bd = bd"
    using take_add [of 10 2 bd] take_add [of 12 8 bd] append_take_drop_id [of 20 bd] by simp
qed

lemma does_expand_ipv4:
  assumes s: "sees s f (c_ipv4 env (mode_of env tc) (l4_protocol tc) bd) t" and f: "length bd \<le> f"
    and fl: "flags_ok env" and canon: "canonical_ipv4 env tc bd"
    and csum: "\<And>b. length (ce_l4_checksum env (l3_type tc) (src_address tc) (dst_address tc) TCP b) = 2"
  shows "does (expand_ipv4 env (mode_of env tc) tc s) f bd t"
proof -
  let ?m = "mode_of env tc" and ?p = "l4_protocol tc" and ?w = "frag_word bd"
  let ?off = "?w AND 0x1fff" and ?l4 = "drop 20 bd"
  let ?z = "pack_zdpflags 5 (?off \<noteq> 0) (drop_bit 13 ?w)"
  let ?hdr = "take 10 bd @ [0, 0] @ take 8 (drop 12 bd)"
  note z = pack_zdpflags_split [OF frag_flags_lt [of ?w], of 5 "?off \<noteq> 0", simplified]
  have len: "20 \<le> length bd" and l4: "canonical_l4 env tc ?l4" and b0: "bd ! 0 = 0x45"
    using canon by (simp_all add: canonical_ipv4_def)
  have frag: "(if ?off \<noteq> 0 then ?off else 0) OR push_bit 13 (ucast (?z AND 0x07)) = ?w"
    using frag_join [of ?w] z(3) by auto
  have hdr: "[0x40 OR 5, bd ! 1] @ put_word 2 (of_nat (length ?l4 + 20) :: u16) @ take 2 (drop 4 bd)
      @ put_word 2 ?w @ [bd ! 8, ?p, 0, 0] @ read_as_v4 (ce_ip env) (src_address tc)
      @ read_as_v4 (ce_ip env) (dst_address tc) = ?hdr"
  proof -
    have "(0x40 OR 5 :: u8) = bd ! 0" unfolding b0 by simp
    moreover have "put_word 2 ?w = take 2 (drop 6 bd)"
      unfolding frag_word_def using put_get_take2 [of "drop 6 bd"] len by simp
    moreover have "put_word 2 (of_nat (length ?l4 + 20) :: u16) = take 2 (drop 2 bd)"
      using canon len by (simp add: canonical_ipv4_def del: of_nat_add)
    ultimately show ?thesis
      using canon ipv4_header_fields [OF len] by (simp add: canonical_ipv4_def)
  qed
  have fin: "does (bindR (s_push s5 ?hdr) (\<lambda>s6. if 20 > length (content s6) then Inl Index_out_of_bounds
       else s_write s6 10 (put_word 2 (ce_checksum env (take 20 (content s6)))))) f bd t"
    if "sees s5 f ?l4 t" for s5
  proof (rule does_bind)
    show "does (s_push s5 ?hdr) f (?hdr @ ?l4) t" by (rule does_push [OF that]) (use len f in simp)
  next
    fix s6
    assume s6: "sees s6 f (?hdr @ ?l4) t"
    then have c: "content s6 = ?hdr @ ?l4" by (simp add: sees_def)
    have "put_word 2 (ce_checksum env ?hdr) = take 2 (drop 10 bd)"
      using canon by (simp add: canonical_ipv4_def)
    moreover have "take 20 (?hdr @ ?l4) = ?hdr" using len by simp
    ultimately show "does (if 20 > length (content s6) then Inl Index_out_of_bounds
        else s_write s6 10 (put_word 2 (ce_checksum env (take 20 (content s6))))) f bd t"
      using does_write [OF s6, of 10 "take 2 (drop 10 bd)"] ipv4_header_fields(3) [OF len] len
      unfolding c by auto
  qed
  have fin': "does (bindR (s_push s5 ([0x40 OR 5, bd ! 1] @ put_word 2 (of_nat (length (content s5) + 20) :: u16)
      @ take 2 (drop 4 bd) @ put_word 2 ?w @ [bd ! 8, ?p, 0, 0] @ read_as_v4 (ce_ip env) (src_address tc)
      @ read_as_v4 (ce_ip env) (dst_address tc))) (\<lambda>s6. if 20 > length (content s6) then Inl Index_out_of_bounds
       else s_write s6 10 (put_word 2 (ce_checksum env (take 20 (content s6)))))) f bd t"
    if "sees s5 f ?l4 t" for s5
  proof -
    have c: "content s5 = ?l4" using that by (simp add: sees_def)
    show ?thesis unfolding c hdr by (rule fin [OF that])
  qed
  have l4': "does (bindR (expand_l4 env ?m tc s4) k) f bd t"
    if "sees s4 f (c_l4 env ?m ?p ?l4) t" "\<And>s5. sees s5 f ?l4 t \<Longrightarrow> does (k s5) f bd t" for s4 k
    by (rule does_bind [OF does_expand_l4 [OF that(1) _ fl l4 csum]]) (use f that(2) in simp_all)
  have hl: "bd ! 0 AND IPV4_HEADER_LENGTH_MASK = 5" unfolding b0 by (simp add: IPV4_HEADER_LENGTH_MASK_def)
  have s': "sees s f ([?z, bd ! 1] @ take 2 (drop 4 bd) @ (if ?off \<noteq> 0 then put_word 2 ?off else [])
      @ [bd ! 8] @ c_l4 env ?m ?p ?l4) t"
    using s by (simp add: c_ipv4_def hl Let_def)
  have opt: "does (bindR (if ?z AND ZDP_V4_FRAG_INFO_PRESENT \<noteq> 0 then s_get_u16 s2 else Inr (0, s2))
      (\<lambda>(x, s3). k x s3)) f bd t"
    if "sees s2 f ((if ?off \<noteq> 0 then put_word 2 ?off else []) @ b) t"
      "\<And>s3. sees s3 f b t \<Longrightarrow> does (k (if ?off \<noteq> 0 then ?off else 0) s3) f bd t" for s2 b k
    using does_get_u16 [of s2 f "put_word 2 ?off @ b" t k bd] that
    by (cases "?off = 0") (simp_all add: ZDP_V4_FRAG_INFO_PRESENT_def pack_zdpflags_split(2) [OF frag_flags_lt] get_put_u16)
  have nth1: "(a # b # xs) ! 1 = b" for a b :: u8 and xs by simp
  have hl4: "unat (5 :: u8) * 4 = 20" by simp
  show ?thesis
    unfolding expand_ipv4_def
    apply (rule does_get_append [OF s'])
     apply simp
    apply (unfold Let_def nth_Cons_0 nth1)
    apply (erule does_get_append)
     apply (use len in simp)
    apply (erule opt)
    apply (erule does_get_append)
     apply simp
    apply (unfold nth_Cons_0 frag z(1) hl4)
    apply (erule l4')
    apply (erule fin')
    done
qed

lemma ipv6_header_fields:
  assumes "40 \<le> length bd"
  shows "take 4 bd @ take 2 (drop 4 bd) @ [bd ! 6, bd ! 7] @ take 16 (drop 8 bd) @ take 16 (drop 24 bd)
      @ drop 40 bd = bd"
  using take_add [of 4 2 bd] take_add [of 6 2 bd] take_add [of 8 16 bd] take_add [of 24 16 bd]
    append_take_drop_id [of 40 bd] take2_nth [of 6 bd] assms by simp

lemma does_expand_ipv6:
  assumes s: "sees s f (c_ipv6 env (mode_of env tc) (l4_protocol tc) bd) t" and f: "length bd \<le> f"
    and fl: "flags_ok env" and canon: "canonical_ipv6 env tc bd"
    and csum: "\<And>b. length (ce_l4_checksum env (l3_type tc) (src_address tc) (dst_address tc) TCP b) = 2"
  shows "does (expand_ipv6 env (mode_of env tc) tc s) f bd t"
proof -
  let ?m = "mode_of env tc" and ?p = "l4_protocol tc" and ?l4 = "drop 40 bd"
  let ?c = "take 4 bd @ [bd ! 7]"
  have len: "40 \<le> length bd" and l4: "canonical_l4 env tc ?l4"
    using canon by (simp_all add: canonical_ipv6_def)
  have s': "sees s f (?c @ c_l4 env ?m ?p ?l4) t" using s by (simp add: c_ipv6_def)
  have c: "content s = ?c @ c_l4 env ?m ?p ?l4" using s' by (simp add: sees_def)
  have "length ?c = 5" using len by simp
  then have c5: "\<not> length (content s) < 5" "take 5 (content s) = ?c" "drop 5 (content s) = c_l4 env ?m ?p ?l4"
    unfolding c by simp_all
  have adv: "does (s_advance s 5) f (c_l4 env ?m ?p ?l4) t"
    using does_advance [OF s', of 5] c5 c by simp
  have fin: "does (s_push s2 (take 4 ?c @ put_word 2 (of_nat (length (content s2)) :: u16)
      @ [?p, ?c ! 4] @ v6 (ce_ip env) (src_address tc) @ v6 (ce_ip env) (dst_address tc))) f bd t"
    if "sees s2 f ?l4 t" for s2
  proof -
    have "take 4 ?c @ put_word 2 (of_nat (length (content s2)) :: u16)
        @ [?p, ?c ! 4] @ v6 (ce_ip env) (src_address tc) @ v6 (ce_ip env) (dst_address tc)
      = take 4 bd @ take 2 (drop 4 bd) @ [bd ! 6, bd ! 7] @ take 16 (drop 8 bd) @ take 16 (drop 24 bd)"
      using canon that len by (simp add: canonical_ipv6_def sees_def nth_append min_def)
    then show ?thesis
      using does_push [OF that, of "take 4 bd @ take 2 (drop 4 bd) @ [bd ! 6, bd ! 7] @ take 16 (drop 8 bd)
        @ take 16 (drop 24 bd)"] ipv6_header_fields [OF len] len f by simp
  qed
  show ?thesis
    unfolding expand_ipv6_def if_not_P [OF c5(1)] Let_def c5(2)
    by (rule does_bind [OF adv], rule does_bind [OF does_expand_l4 [OF _ _ fl l4 csum] fin])
      (use f in simp_all)
qed

section \<open>Properties\<close>

definition c_packet :: "'ip comp_env \<Rightarrow> u8 \<Rightarrow> L3Type \<Rightarrow> u8 \<Rightarrow> bytes \<Rightarrow> bytes" where
  "c_packet env mode l3 p bd =
     (case l3 of Ipv4 \<Rightarrow> c_ipv4 env mode p bd | Ipv6 \<Rightarrow> c_ipv6 env mode p bd | L3_other _ \<Rightarrow> bd)"

text \<open>The packets that are long enough for the headers they claim to have.\<close>

definition compressible :: "L3Type \<Rightarrow> u8 \<Rightarrow> bytes \<Rightarrow> bool" where
  "compressible l3 p bd \<longleftrightarrow>
     (case l3 of
        Ipv4 \<Rightarrow> 20 \<le> length bd \<and> l4_long p (drop 20 bd)
      | Ipv6 \<Rightarrow> 40 \<le> length bd \<and> l4_long p (drop 40 bd)
      | L3_other _ \<Rightarrow> True)"

lemma canonical_compressible: "canonical env tc bd \<Longrightarrow> compressible (l3_type tc) (l4_protocol tc) bd"
  by (auto simp: canonical_def compressible_def canonical_ipv4_def canonical_ipv6_def canonical_l4_long
      split: L3Type.splits)

lemma c_packet_length:
  assumes "compressible l3 p bd" and "l3 = Ipv4 \<or> l3 = Ipv6"
  shows "length (c_packet env mode l3 p bd) + (if l3 = Ipv4 then 13 else 35) \<le> length bd"
    and "length bd \<le> length (c_packet env mode l3 p bd) + 41"
proof -
  have l4: "length (c_l4 env mode p (drop n bd)) \<le> length bd - n \<and> length bd - n \<le> length (c_l4 env mode p (drop n bd)) + 6"
    if "l4_long p (drop n bd)" for n
    using length_c_l4 [of p "drop n bd" env mode] that by (simp add: l4_long_def)
  show "length (c_packet env mode l3 p bd) + (if l3 = Ipv4 then 13 else 35) \<le> length bd"
    and "length bd \<le> length (c_packet env mode l3 p bd) + 41"
    using assms l4 [of 20] l4 [of 40]
    by (auto simp: c_packet_def compressible_def c_ipv4_def c_ipv6_def Let_def)
qed

lemma does_compress:
  assumes "sees s f bd t" and "compressible l3 p bd"
  shows "does (compress env mode l3 p s) f (c_packet env mode l3 p bd) t"
  using assms by (cases l3) (simp_all add: compress_def compressible_def c_packet_def does_Inr
      does_compress_ipv4 does_compress_ipv6)

lemma does_expand:
  assumes "sees s f (c_packet env (mode_of env tc) (l3_type tc) (l4_protocol tc) bd) t" and "length bd \<le> f"
    and "flags_ok env" and "canonical env tc bd"
    and "\<And>b. length (ce_l4_checksum env (l3_type tc) (src_address tc) (dst_address tc) TCP b) = 2"
  shows "does (expand env (mode_of env tc) tc s) f bd t"
  using assms does_expand_ipv4 [of s f env tc bd t] does_expand_ipv6 [of s f env tc bd t]
  by (cases "l3_type tc") (simp_all add: expand_def canonical_def c_packet_def does_Inr)

lemma sees_self: "sees s (length (head_room s) + length (content s)) (content s) (tail_room s)"
  by (simp add: sees_def)

definition demo_comp_env :: "bytes comp_env" where
  "demo_comp_env = \<lparr> ce_ip = \<lparr> read_as_v4 = (\<lambda>a. a), v6 = (\<lambda>a. a), from_v4 = (\<lambda>a. a), from_v6 = (\<lambda>a. a) \<rparr>,
     ce_checksum = (\<lambda>b. of_nat (length b)), ce_l4_checksum = (\<lambda>_ _ _ _ b. [0, of_nat (length b)]),
     ce_src_present = 2, ce_dst_present = 1 \<rparr>"

definition demo_comp_tc :: "u8 \<Rightarrow> bytes FiveTuple" where
  "demo_comp_tc p = \<lparr> src_address = [10, 0, 0, 1], dst_address = [10, 0, 0, 2], l3_type = Ipv4,
     l4_protocol = p, src_port = 0, dst_port = 80 \<rparr>"

text \<open>A TCP segment of 21 bytes with fragment information, from any port to port 80.\<close>

definition demo_tcp_body :: bytes where
  "demo_tcp_body = [0x45, 7, 0, 41, 1, 2, 0x20, 3, 64, 6, 0, 20, 10, 0, 0, 1, 10, 0, 0, 2]
     @ [4, 210, 0, 80, 0, 0, 0, 1, 0, 0, 0, 2, 0x50, 0x10, 1, 0, 0, 21, 0, 0, 99]"

text \<open>C8 (round trip). A packet that a traffic classifier describes, with canonical length and
checksum fields, an IP header without options and a transport header right behind it, is
compressed without a panic whatever its headroom, to a packet that is not longer; expanding
those bytes in any buffer that has room for the packet returns it unchanged.\<close>

theorem compress_round_trip:
  fixes env :: "'ip comp_env"
  assumes "flags_ok env"
    and "\<And>b. length (ce_l4_checksum env (l3_type tc) (src_address tc) (dst_address tc) TCP b) = 2"
    and "canonical env tc (content s)"
  shows "\<exists>s1. compress env (mode_of env tc) (l3_type tc) (l4_protocol tc) s = Inr s1
    \<and> tail_room s1 = tail_room s
    \<and> (\<forall>r. content r = content s1 \<and> length (content s) \<le> length (head_room r) + length (content r)
         \<longrightarrow> (\<exists>r'. expand env (mode_of env tc) tc r = Inr r' \<and> content r' = content s
               \<and> tail_room r' = tail_room r))"
proof -
  obtain s1 where s1: "compress env (mode_of env tc) (l3_type tc) (l4_protocol tc) s = Inr s1"
      "content s1 = c_packet env (mode_of env tc) (l3_type tc) (l4_protocol tc) (content s)"
      "tail_room s1 = tail_room s"
    using does_compress [OF sees_self canonical_compressible [OF assms(3)]]
    by (auto simp: does_def sees_def)
  have "\<exists>r'. expand env (mode_of env tc) tc r = Inr r' \<and> content r' = content s \<and> tail_room r' = tail_room r"
    if "content r = content s1" "length (content s) \<le> length (head_room r) + length (content r)" for r
  proof -
    have "sees r (length (head_room r) + length (content r))
        (c_packet env (mode_of env tc) (l3_type tc) (l4_protocol tc) (content s)) (tail_room r)"
      using sees_self [of r] that(1) s1(2) by simp
    from does_expand [OF this that(2) assms(1,3,2)] show ?thesis by (auto simp: does_def sees_def)
  qed
  then show ?thesis using s1 by blast
qed

theorem compress_round_trip_witness:
  "\<exists>s1 r. compress demo_comp_env (mode_of demo_comp_env (demo_comp_tc 6)) Ipv4 6
      \<lparr> head_room = [], content = demo_tcp_body, tail_room = [] \<rparr> = Inr s1
    \<and> expand demo_comp_env (mode_of demo_comp_env (demo_comp_tc 6)) (demo_comp_tc 6)
        (s1 \<lparr> head_room := replicate 41 0 \<rparr>) = Inr r
    \<and> content r = demo_tcp_body"
proof -
  let ?s = "\<lparr> head_room = [], content = demo_tcp_body, tail_room = [] \<rparr>"
  have 1: "flags_ok demo_comp_env" by code_simp
  have 2: "length (ce_l4_checksum demo_comp_env (l3_type (demo_comp_tc 6)) (src_address (demo_comp_tc 6))
      (dst_address (demo_comp_tc 6)) TCP b) = 2" for b
    by (simp add: demo_comp_env_def)
  have 3: "canonical demo_comp_env (demo_comp_tc 6) (content ?s)" by code_simp
  have 4: "l3_type (demo_comp_tc 6) = Ipv4" "l4_protocol (demo_comp_tc 6) = 6" by (simp_all add: demo_comp_tc_def)
  have 5: "length demo_tcp_body = 41" by (simp add: demo_tcp_body_def)
  obtain s1 where s1: "compress demo_comp_env (mode_of demo_comp_env (demo_comp_tc 6)) Ipv4 6 ?s = Inr s1"
    and ret: "\<forall>r. content r = content s1 \<and> length (content ?s) \<le> length (head_room r) + length (content r)
      \<longrightarrow> (\<exists>r'. expand demo_comp_env (mode_of demo_comp_env (demo_comp_tc 6)) (demo_comp_tc 6) r = Inr r'
            \<and> content r' = content ?s \<and> tail_room r' = tail_room r)"
    using compress_round_trip [OF 1 2 3] unfolding 4 by blast
  show ?thesis using s1 spec [OF ret, of "s1 \<lparr> head_room := replicate 41 0 \<rparr>"] 5 by auto
qed

text \<open>C28 (bounds). Compression never asks for headroom it does not have: any IPv4 packet with room for
the headers it claims becomes at least 13 bytes shorter, any such IPv6 packet at least 35, and
the bytes saved are added to the headroom.\<close>

theorem compress_saves:
  assumes "compressible l3 p (content s)" and "l3 = Ipv4 \<or> l3 = Ipv6"
  shows "\<exists>s1. compress env mode l3 p s = Inr s1
    \<and> length (content s1) + (if l3 = Ipv4 then 13 else 35) \<le> length (content s)
    \<and> length (head_room s1) + length (content s1) = length (head_room s) + length (content s)"
  using does_compress [OF sees_self assms(1), of env mode] c_packet_length(1) [OF assms, of env mode]
  by (auto simp: does_def sees_def)

theorem compress_saves_witness:
  "compressible Ipv4 6 demo_tcp_body \<and> (\<exists>s1. compress demo_comp_env 1 Ipv4 6
      \<lparr> head_room = [], content = demo_tcp_body, tail_room = [] \<rparr> = Inr s1
    \<and> length (content s1) + 13 \<le> 41)"
proof -
  have 1: "compressible Ipv4 6 demo_tcp_body" by code_simp
  have "length demo_tcp_body = 41" by (simp add: demo_tcp_body_def)
  then show ?thesis
    using 1 compress_saves [of Ipv4 6 "\<lparr> head_room = [], content = demo_tcp_body, tail_room = [] \<rparr>"
        demo_comp_env 1]
    by auto
qed

section \<open>IP options\<close>

text \<open>What expansion makes of a UDP packet that compression took for one without options.\<close>

definition port_or :: "u16 \<Rightarrow> bytes \<Rightarrow> u16" where
  "port_or fixed bs = (if fixed = 0 then get_word bs else fixed)"

lemma expand_ports_any:
  assumes "sees s f (kept_ports env (mode_of env tc) sp dp @ b) t" and "flags_ok env"
    and "length sp = 2" and "length dp = 2"
  obtains s' where "expand_ports env (mode_of env tc) tc s
      = Inr (port_or (src_port tc) sp, port_or (dst_port tc) dp, s')" and "sees s' f b t"
  using assms that
  by (cases "src_port tc = 0"; cases "dst_port tc = 0")
    (auto simp: expand_ports_def mode_of_ports [OF assms(2)] kept_ports_def s_get_u16_def s_get_def
      s_advance_def sees_def port_or_def)

lemma expand_udp_any:
  assumes s: "sees s f (c_l4 env (mode_of env tc) UDP l4) t" and fl: "flags_ok env"
    and len: "8 \<le> length l4" and f: "length l4 \<le> f"
  shows "does (expand_udp env (mode_of env tc) tc s) f
    (put_word 2 (port_or (src_port tc) (take 2 l4)) @ put_word 2 (port_or (dst_port tc) (take 2 (drop 2 l4)))
       @ put_word 2 (of_nat (length l4) :: u16) @ drop 6 l4) t"
proof -
  let ?x = "port_or (src_port tc) (take 2 l4)" and ?y = "port_or (dst_port tc) (take 2 (drop 2 l4))"
  have le: "6 \<le> length l4" using len by simp
  have "sees s f (kept_ports env (mode_of env tc) (take 2 l4) (take 2 (drop 2 l4)) @ drop 6 l4) t"
    using s by (simp add: c_l4_def TCP_def UDP_def)
  then obtain s1 where p: "expand_ports env (mode_of env tc) tc s = Inr (?x, ?y, s1)" "sees s1 f (drop 6 l4) t"
    by (rule expand_ports_any [OF _ fl]) (use len in simp_all)
  have c: "length (content s1) = length l4 - 6" using p(2) by (simp add: sees_def)
  show ?thesis
    unfolding expand_udp_def p(1) bindR_Inr prod.case Let_def c udp_length_word [OF le]
    apply (rule does_bind)
     apply (rule does_push [OF p(2)])
     apply (use len f in simp)
    apply (rule does_bind)
     apply (erule does_push)
     apply (use len f in simp)
    apply (erule does_push)
    apply (use len f in simp)
    done
qed

lemma get_append:
  assumes "sees s f (x @ b) t" and "length x = n"
  obtains s' where "s_get n s = Inr (x, s')" and "sees s' f b t"
  using assms that by (auto simp: s_get_def s_advance_def sees_def)

text \<open>An expanded IPv4 packet is a header of 20 bytes and what expansion made of the transport part.\<close>

lemma expand_ipv4_any:
  assumes s: "sees s f ([z, tos] @ fid @ fo @ [ttl] @ b) t" and fid: "length fid = 2"
    and fo: "length fo = (if z AND ZDP_V4_FRAG_INFO_PRESENT \<noteq> 0 then 2 else 0)"
    and l4: "\<And>s4. sees s4 f b t \<Longrightarrow> does (expand_l4 env mode tc s4) f b' t"
    and adr: "length (read_as_v4 (ce_ip env) (src_address tc)) = 4" "length (read_as_v4 (ce_ip env) (dst_address tc)) = 4"
    and f: "20 + length b' \<le> f" and hl: "unat (drop_bit 4 z) * 4 \<le> 20 + length b'"
  shows "\<exists>s' h. expand_ipv4 env mode tc s = Inr s' \<and> length h = 20 \<and> content s' = h @ b'"
proof -
  obtain s1 where s1: "s_get 2 s = Inr ([z, tos], s1)" "sees s1 f (fid @ fo @ [ttl] @ b) t"
    by (rule get_append [OF s, of 2]) simp_all
  obtain s2 where s2: "s_get 2 s1 = Inr (fid, s2)" "sees s2 f (fo @ [ttl] @ b) t"
    by (rule get_append [OF s1(2) fid])
  obtain w s3 where s3: "(if z AND ZDP_V4_FRAG_INFO_PRESENT \<noteq> 0 then s_get_u16 s2 else Inr (0, s2)) = Inr (w, s3)"
    "sees s3 f ([ttl] @ b) t"
  proof (cases "z AND ZDP_V4_FRAG_INFO_PRESENT = 0")
    case True
    then show ?thesis using that [of 0 s2] s2(2) fo by simp
  next
    case False
    then have "length fo = 2" using fo by simp
    from get_append [OF s2(2) this] obtain s3 where "s_get 2 s2 = Inr (fo, s3)" "sees s3 f ([ttl] @ b) t" by blast
    then show ?thesis using that [of "get_word fo" s3] False by (simp add: s_get_u16_def)
  qed
  obtain s4 where s4: "s_get 1 s3 = Inr ([ttl], s4)" "sees s4 f b t"
    by (rule get_append [OF s3(2), of 1]) simp_all
  obtain s5 where s5: "expand_l4 env mode tc s4 = Inr s5" "sees s5 f b' t"
    using l4 [OF s4(2)] by (auto simp: does_def)
  define hdr where "hdr = [0x40 OR drop_bit 4 z, tos] @ put_word 2 (of_nat (length (content s5) + 20) :: u16)
    @ fid @ put_word 2 (w OR push_bit 13 (ucast (z AND 0x07))) @ [ttl, l4_protocol tc, 0, 0]
    @ read_as_v4 (ce_ip env) (src_address tc) @ read_as_v4 (ce_ip env) (dst_address tc)"
  have len: "length hdr = 20" using adr fid by (simp add: hdr_def)
  obtain s6 where s6: "s_push s5 hdr = Inr s6" "sees s6 f (hdr @ b') t"
    using does_push [OF s5(2), of hdr] f len by (auto simp: does_def)
  let ?c = "put_word 2 (ce_checksum env (take (unat (drop_bit 4 z) * 4) (content s6)))"
  obtain s7 where s7: "s_write s6 10 ?c = Inr s7" "sees s7 f (take 10 (hdr @ b') @ ?c @ drop 12 (hdr @ b')) t"
    using does_write [OF s6(2), of 10 ?c] len by (auto simp: does_def)
  have nth1: "(x # y # xs) ! 1 = y" for x y :: u8 and xs by simp
  have "expand_ipv4 env mode tc s
      = (if unat (drop_bit 4 z) * 4 > length (content s6) then Inl Index_out_of_bounds else s_write s6 10 ?c)"
    by (simp only: expand_ipv4_def s1(1) s2(1) s3(1) s4(1) s5(1) bindR_Inr prod.case Let_def nth_Cons_0 nth1
        hdr_def [symmetric] s6(1))
  then have run: "expand_ipv4 env mode tc s = Inr s7"
    using hl s6(2) s7(1) len by (simp add: sees_def)
  have "content s7 = (take 10 hdr @ ?c @ drop 12 hdr) @ b'" using s7(2) len by (simp add: sees_def)
  moreover have "length (take 10 hdr @ ?c @ drop 12 hdr) = 20" using len by simp
  ultimately show ?thesis using run by blast
qed

text \<open>A UDP packet with four bytes of options, from port 1234 to port 80.\<close>

definition demo_options_body :: bytes where
  "demo_options_body = [0x46, 0, 0, 33, 1, 2, 0, 0, 64, 17, 0, 24, 10, 0, 0, 1, 10, 0, 0, 2, 1, 1, 1, 0]
     @ [4, 210, 0, 80, 0, 9, 7, 7, 99]"

text \<open>C38 (error). A UDP packet with one word of IPv4 options is not restored: compression takes the
options for the ports and the source port for the UDP length, which it drops, so the expanded
packet carries a length where the sender's source port was.\<close>

theorem options_not_restored:
  fixes env :: "'ip comp_env"
  assumes "flags_ok env" and "l3_type tc = Ipv4" and "l4_protocol tc = UDP"
    and "length (read_as_v4 (ce_ip env) (src_address tc)) = 4"
    and "length (read_as_v4 (ce_ip env) (dst_address tc)) = 4"
    and "28 \<le> length (content s)" and "content s ! 0 = 0x46"
    and "take 2 (drop 24 (content s)) \<noteq> put_word 2 (of_nat (length (content s) - 20) :: u16)"
  shows "\<exists>s1 s2. compress env (mode_of env tc) Ipv4 UDP s = Inr s1
    \<and> expand env (mode_of env tc) tc s1 = Inr s2
    \<and> take 2 (drop 24 (content s2)) = put_word 2 (of_nat (length (content s) - 20) :: u16)
    \<and> content s2 \<noteq> content s"
proof -
  let ?m = "mode_of env tc" and ?l4 = "drop 20 (content s)" and ?w = "frag_word (content s)"
  let ?f = "length (head_room s) + length (content s)" and ?off = "frag_word (content s) AND 0x1fff"
  let ?len = "put_word 2 (of_nat (length (content s) - 20) :: u16)"
  let ?z = "pack_zdpflags 6 (?off \<noteq> 0) (drop_bit 13 ?w)"
  have hl: "content s ! 0 AND IPV4_HEADER_LENGTH_MASK = 6" unfolding assms(7) by (simp add: IPV4_HEADER_LENGTH_MASK_def)
  have "compressible Ipv4 UDP (content s)" using assms(6) by (simp add: compressible_def l4_long_def TCP_def UDP_def)
  from does_compress [OF sees_self this, of env ?m] obtain s1
    where s1: "compress env ?m Ipv4 UDP s = Inr s1"
      "sees s1 ?f ([?z, content s ! 1] @ take 2 (drop 4 (content s)) @ (if ?off \<noteq> 0 then put_word 2 ?off else [])
        @ [content s ! 8] @ c_l4 env ?m UDP ?l4) (tail_room s)"
    by (auto simp: does_def c_packet_def c_ipv4_def hl Let_def)
  define q where "q = put_word 2 (port_or (src_port tc) (take 2 ?l4))
    @ put_word 2 (port_or (dst_port tc) (take 2 (drop 2 ?l4)))"
  have q: "length q = 4" by (simp add: q_def)
  note z = pack_zdpflags_split [OF frag_flags_lt [of ?w], of 6]
  have l4: "does (expand_l4 env ?m tc s4) ?f (q @ ?len @ drop 6 ?l4) (tail_room s)"
    if "sees s4 ?f (c_l4 env ?m UDP ?l4) (tail_room s)" for s4
    using expand_udp_any [OF that assms(1)] assms(3,6)
    by (simp add: expand_l4_def TCP_def UDP_def q_def)
  have "\<exists>s2 h. expand_ipv4 env ?m tc s1 = Inr s2 \<and> length h = 20 \<and> content s2 = h @ q @ ?len @ drop 6 ?l4"
    by (rule expand_ipv4_any [OF s1(2) _ _ l4 assms(4,5)])
      (use assms(6) q z in \<open>simp_all add: ZDP_V4_FRAG_INFO_PRESENT_def\<close>)
  then obtain s2 h where s2: "expand_ipv4 env ?m tc s1 = Inr s2" "length h = 20"
      "content s2 = h @ q @ ?len @ drop 6 ?l4" by blast
  have "take 2 (drop 24 (content s2)) = ?len" using s2(2,3) q by simp
  then show ?thesis using s1(1) s2(1) assms(2,8) by (auto simp: expand_def)
qed

theorem options_not_restored_witness:
  "content \<lparr> head_room = [], content = demo_options_body, tail_room = [] \<rparr> ! 0 = 0x46
   \<and> (\<exists>s1 s2. compress demo_comp_env (mode_of demo_comp_env (demo_comp_tc 17)) Ipv4 UDP
      \<lparr> head_room = [], content = demo_options_body, tail_room = [] \<rparr> = Inr s1
    \<and> expand demo_comp_env (mode_of demo_comp_env (demo_comp_tc 17)) (demo_comp_tc 17) s1 = Inr s2
    \<and> content s2 \<noteq> demo_options_body)"
proof -
  let ?s = "\<lparr> head_room = [], content = demo_options_body, tail_room = [] \<rparr>"
  have "flags_ok demo_comp_env" "l3_type (demo_comp_tc 17) = Ipv4" "l4_protocol (demo_comp_tc 17) = UDP"
    "length (read_as_v4 (ce_ip demo_comp_env) (src_address (demo_comp_tc 17))) = 4"
    "length (read_as_v4 (ce_ip demo_comp_env) (dst_address (demo_comp_tc 17))) = 4"
    "28 \<le> length (content ?s)" "content ?s ! 0 = 0x46"
    "take 2 (drop 24 (content ?s)) \<noteq> put_word 2 (of_nat (length (content ?s) - 20) :: u16)"
    by code_simp+
  from options_not_restored [OF this] this(7) show ?thesis by auto
qed

end
