(* ===== verification/Peer_Table.thy ===== *)
theory Peer_Table
  imports Forwarding_Tables
begin

text \<open>
  The peer table, \<open>adapter/ph/src/peer_table.rs\<close>, with the security associations
  (\<open>km.rs\<close>) that it keeps for the links.  Of a peer the model has the fields that the
  data path reads: its addresses, the state of its link and of its actor, its forwarding
  table and its security association.  A socket address is that of the standard library;
  interface addresses, certificates and key manager handles are types of other crates, and an
  identifier of a security association is a number.  The
  slab of the \<open>cslab\<close> crate is as in the theory \<open>Adapter_Tables\<close>; the table's locks make
  each operation atomic.
\<close>

section \<open>Security associations\<close>

datatype EncryptionError = EE_InternalError string | EE_MessageTooLarge | EE_ParseError
datatype DecryptionError = DE_InternalError string | DE_MessageTooShort | DE_ParseError

text \<open>A codec writes to a buffer of the given size; its result is what it wrote.\<close>

record Codec =
  max_overhead :: nat
  encrypt_transport_stateless :: "bytes \<Rightarrow> nat \<Rightarrow> EncryptionError + bytes"
  decrypt_transport_stateless :: "bytes \<Rightarrow> nat \<Rightarrow> DecryptionError + bytes"

record ZPIPair =
  zpi_encr :: u8
  zpi_hmac :: u8

definition ZPIPair_new_zero :: ZPIPair where
  "ZPIPair_new_zero = \<lparr> zpi_encr = 0, zpi_hmac = 0 \<rparr>"

record 'c KmTransportSA =
  sa_id :: nat
  recv_zpis :: ZPIPair
  send_zpis :: ZPIPair
  send_hmac_key :: bytes
  recv_hmac_key :: bytes
  codec :: Codec
  peer_cert :: "'c option"

definition KmTransportSA_eq :: "'c KmTransportSA \<Rightarrow> 'c KmTransportSA \<Rightarrow> bool" where
  "KmTransportSA_eq a b \<longleftrightarrow>
     send_zpis a = send_zpis b \<and> recv_zpis a = recv_zpis b
     \<and> send_hmac_key a = send_hmac_key b \<and> recv_hmac_key a = recv_hmac_key b"

section \<open>Peers\<close>

datatype SocketAddr =
    V4 (sa_ip: bytes) (sa_port: u16)
  | V6 (sa_ip: bytes) (sa_port: u16) (sa_flowinfo: u32) (sa_scope_id: u32)

definition is_unspecified :: "SocketAddr \<Rightarrow> bool" where
  "is_unspecified a \<longleftrightarrow> list_all (\<lambda>b. b = 0) (sa_ip a)"

record ('ia, 'ip, 'c, 'k) LinkPeer =
  substrate_addr :: SocketAddr
  interface_addr :: 'ia
  link_type :: LinkType
  link_ready :: bool
  link_aaa_address :: "'ip option"
  actor_addresses :: "'ip list"
  link_pft :: PeerForwardingTable
  transport_sa :: "'c KmTransportSA option"
  km_handle :: "'k option"

definition LinkPeer_new :: "LinkType \<Rightarrow> SocketAddr \<Rightarrow> 'ia \<Rightarrow> ('ia, 'ip, 'c, 'k) LinkPeer" where
  "LinkPeer_new ltype sa ia = \<lparr> substrate_addr = sa, interface_addr = ia, link_type = ltype,
     link_ready = False, link_aaa_address = None, actor_addresses = [], link_pft = Pft_new,
     transport_sa = None, km_handle = None \<rparr>"

definition new_internal_peer :: "'ia \<Rightarrow> ('ia, 'ip, 'c, 'k) LinkPeer" where
  "new_internal_peer unspecified_ia = LinkPeer_new Internal (V6 (replicate 16 0) 0 0 0) unspecified_ia"

definition get_established_transport_association ::
  "('ia, 'ip, 'c, 'k) LinkPeer \<Rightarrow> 'c KmTransportSA option" where
  "get_established_transport_association p = transport_sa p"

section \<open>The table\<close>

datatype SpecialPeerName = VisaServiceAdapter

definition PEER_TABLE_SIZE :: nat where
  "PEER_TABLE_SIZE = 1024"

record ('ia, 'ip, 'c, 'k) PeerTable =
  peer_slab :: "('ia, 'ip, 'c, 'k) LinkPeer slab"
  sa_to_link :: "SocketAddr \<times> 'ia \<Rightarrow> u32 option"
  special_peers :: "SpecialPeerName \<Rightarrow> u32"

datatype PeerUpdateError = NoAssociationForLink

definition PeerTable_new :: "('ia, 'ip, 'c, 'k) PeerTable" where
  "PeerTable_new = \<lparr> peer_slab = Map.empty, sa_to_link = Map.empty, special_peers = (\<lambda>_. 0) \<rparr>"

definition peer_get :: "('ia, 'ip, 'c, 'k) PeerTable \<Rightarrow> u32 \<Rightarrow> ('ia, 'ip, 'c, 'k) LinkPeer option" where
  "peer_get t link_id = peer_slab t (slab_key link_id)"

definition vacant_entry ::
  "(('ia, 'ip, 'c, 'k) LinkPeer slab \<Rightarrow> nat option) \<Rightarrow> ('ia, 'ip, 'c, 'k) PeerTable \<Rightarrow> PeerInsertError + nat" where
  "vacant_entry vacant_key t = (case vacant_key (peer_slab t) of None \<Rightarrow> Inl TableFull | Some k \<Rightarrow> Inr k)"

definition VacantPeerTableEntry_insert ::
  "('ia, 'ip, 'c, 'k) PeerTable \<Rightarrow> nat \<Rightarrow> ('ia, 'ip, 'c, 'k) LinkPeer
   \<Rightarrow> (u32 \<times> ('ia, 'ip, 'c, 'k) PeerTable) res" where
  "VacantPeerTableEntry_insert t k p =
     (let link_id = key_stream k;
          a = (substrate_addr p, interface_addr p);
          t1 = t \<lparr> peer_slab := (peer_slab t) (k \<mapsto> p) \<rparr>
      in if is_unspecified (substrate_addr p) then Inr (link_id, t1)
         else if sa_to_link t a \<noteq> None then Inl (Assert_failed ''duplicate peer substrate address'')
         else Inr (link_id, t1 \<lparr> sa_to_link := (sa_to_link t) (a \<mapsto> link_id) \<rparr>))"

text \<open>\<open>add_peer\<close> of \<open>assembly.rs\<close>, without the tasks it spawns for the link.\<close>

definition PeerTable_add_peer ::
  "(('ia, 'ip, 'c, 'k) LinkPeer slab \<Rightarrow> nat option) \<Rightarrow> ('ia, 'ip, 'c, 'k) PeerTable \<Rightarrow> LinkType \<Rightarrow> SocketAddr \<Rightarrow> 'ia
   \<Rightarrow> ((PeerInsertError + u32) \<times> ('ia, 'ip, 'c, 'k) PeerTable) res" where
  "PeerTable_add_peer vacant_key t ltype sa ia =
     (case vacant_entry vacant_key t of
        Inl e \<Rightarrow> Inr (Inl e, t)
      | Inr k \<Rightarrow>
          bindR (VacantPeerTableEntry_insert t k (LinkPeer_new ltype sa ia))
            (\<lambda>(link_id, t'). Inr (Inr link_id, t')))"

definition insert_internal_peer ::
  "(('ia, 'ip, 'c, 'k) LinkPeer slab \<Rightarrow> nat option) \<Rightarrow> 'ia \<Rightarrow> ('ia, 'ip, 'c, 'k) PeerTable
   \<Rightarrow> (u32 \<times> ('ia, 'ip, 'c, 'k) PeerTable) res" where
  "insert_internal_peer vacant_key unspecified_ia t =
     (case vacant_entry vacant_key t of
        Inl _ \<Rightarrow> Inl (Unwrap_failed ''vacant_entry'')
      | Inr k \<Rightarrow> VacantPeerTableEntry_insert t k (new_internal_peer unspecified_ia))"

definition insert_internal_peer_pair ::
  "(('ia, 'ip, 'c, 'k) LinkPeer slab \<Rightarrow> nat option) \<Rightarrow> 'ia \<Rightarrow> ('ia, 'ip, 'c, 'k) PeerTable
   \<Rightarrow> (u32 \<times> u32 \<times> ('ia, 'ip, 'c, 'k) PeerTable) res" where
  "insert_internal_peer_pair vacant_key unspecified_ia t =
     bindR (insert_internal_peer vacant_key unspecified_ia t) (\<lambda>(link_id1, t1).
       if link_id1 + 1 = 0 then Inl (Unwrap_failed ''checked_add'')
       else bindR (insert_internal_peer vacant_key unspecified_ia t1) (\<lambda>(link_id2, t2).
         bindR (assertR ''entry2.key() == link_id2'' (link_id2 = link_id1 + 1)) (\<lambda>_.
           Inr (link_id1, link_id2, t2))))"

definition peer_remove ::
  "u32 \<Rightarrow> ('ia, 'ip, 'c, 'k) PeerTable \<Rightarrow> u32 \<Rightarrow> ('ia, 'ip, 'c, 'k) PeerTable" where
  "peer_remove link_unknown t link_id =
     (case peer_get t link_id of
        None \<Rightarrow> t
      | Some p \<Rightarrow>
          t \<lparr> sa_to_link := (sa_to_link t) ((substrate_addr p, interface_addr p) := None),
              special_peers := (\<lambda>n. if special_peers t n = link_id then link_unknown else special_peers t n),
              peer_slab := (peer_slab t) (slab_key link_id := None) \<rparr>)"

definition lookup_peer :: "('ia, 'ip, 'c, 'k) PeerTable \<Rightarrow> SocketAddr \<Rightarrow> 'ia \<Rightarrow> u32 option" where
  "lookup_peer t sa ia = sa_to_link t (sa, ia)"

definition lookup_special_peer :: "('ia, 'ip, 'c, 'k) PeerTable \<Rightarrow> SpecialPeerName \<Rightarrow> u32 option" where
  "lookup_special_peer t name = (if special_peers t name = 0 then None else Some (special_peers t name))"

text \<open>The operations that change one peer, all through the entry that \<open>get\<close> finds.\<close>

definition update_peer ::
  "('ia, 'ip, 'c, 'k) PeerTable \<Rightarrow> u32 \<Rightarrow> (('ia, 'ip, 'c, 'k) LinkPeer \<Rightarrow> ('ia, 'ip, 'c, 'k) LinkPeer)
   \<Rightarrow> PeerUpdateError + ('ia, 'ip, 'c, 'k) PeerTable" where
  "update_peer t link_id f =
     (case peer_get t link_id of
        None \<Rightarrow> Inl NoAssociationForLink
      | Some p \<Rightarrow> Inr (t \<lparr> peer_slab := (peer_slab t) (slab_key link_id \<mapsto> f p) \<rparr>))"

definition set_security_association ::
  "('ia, 'ip, 'c, 'k) PeerTable \<Rightarrow> u32 \<Rightarrow> 'c KmTransportSA
   \<Rightarrow> PeerUpdateError + ('ia, 'ip, 'c, 'k) PeerTable" where
  "set_security_association t link_id sa = update_peer t link_id (\<lambda>p. p \<lparr> transport_sa := Some sa \<rparr>)"

definition set_km_handle ::
  "('ia, 'ip, 'c, 'k) PeerTable \<Rightarrow> u32 \<Rightarrow> 'k \<Rightarrow> PeerUpdateError + ('ia, 'ip, 'c, 'k) PeerTable" where
  "set_km_handle t link_id h = update_peer t link_id (\<lambda>p. p \<lparr> km_handle := Some h \<rparr>)"

definition clear_security_association ::
  "('ia, 'ip, 'c, 'k) PeerTable \<Rightarrow> u32 \<Rightarrow> PeerUpdateError + ('ia, 'ip, 'c, 'k) PeerTable" where
  "clear_security_association t link_id = update_peer t link_id (\<lambda>p. p \<lparr> transport_sa := None \<rparr>)"

definition is_security_association_established :: "('ia, 'ip, 'c, 'k) PeerTable \<Rightarrow> u32 \<Rightarrow> bool" where
  "is_security_association_established t link_id =
     (case peer_get t link_id of None \<Rightarrow> False | Some p \<Rightarrow> \<not> Option.is_none (transport_sa p))"

definition remove_km_state ::
  "('ia, 'ip, 'c, 'k) PeerTable \<Rightarrow> u32 \<Rightarrow> 'k option \<times> ('ia, 'ip, 'c, 'k) PeerTable" where
  "remove_km_state t link_id =
     (let t1 = (case clear_security_association t link_id of Inl _ \<Rightarrow> t | Inr t' \<Rightarrow> t') in
      case peer_get t1 link_id of
        None \<Rightarrow> (None, t1)
      | Some p \<Rightarrow>
          (case km_handle p of
             None \<Rightarrow> (None, t1)
           | Some h \<Rightarrow>
               (Some h, (case update_peer t1 link_id (\<lambda>p. p \<lparr> km_handle := None \<rparr>) of
                  Inl _ \<Rightarrow> t1 | Inr t' \<Rightarrow> t'))))"

definition assign_special_name ::
  "u32 \<Rightarrow> ('ia, 'ip, 'c, 'k) PeerTable \<Rightarrow> SpecialPeerName \<Rightarrow> u32
   \<Rightarrow> PeerUpdateError + ('ia, 'ip, 'c, 'k) PeerTable" where
  "assign_special_name link_unknown t name link_id =
     (if special_peers t name = link_unknown
      then Inr (t \<lparr> special_peers := (special_peers t) (name := link_id) \<rparr>)
      else Inl NoAssociationForLink)"

definition clear_peer_state ::
  "('ia, 'ip, 'c, 'k) PeerTable \<Rightarrow> u32 \<Rightarrow> ('ia, 'ip, 'c, 'k) PeerTable" where
  "clear_peer_state t link_id =
     (case update_peer t link_id (\<lambda>p. p \<lparr> link_pft := Pft_clear (link_pft p) \<rparr>) of
        Inl _ \<Rightarrow> t | Inr t' \<Rightarrow> t')"

definition PeerTable_remove_route ::
  "('ia, 'ip, 'c, 'k) PeerTable \<Rightarrow> ForwardingEntry \<Rightarrow> ('ia, 'ip, 'c, 'k) PeerTable" where
  "PeerTable_remove_route t route =
     (case update_peer t (fe_link route) (\<lambda>p. p \<lparr> link_pft := Pft_remove (link_pft p) (fe_stream route) \<rparr>) of
        Inl _ \<Rightarrow> t | Inr t' \<Rightarrow> t')"

section \<open>Histories of a table\<close>

datatype ('ia, 'ip, 'c, 'k) peer_op =
    Insert_peer "('ia, 'ip, 'c, 'k) LinkPeer"
  | Add_peer LinkType SocketAddr 'ia
  | Insert_internal_pair 'ia
  | Remove_peer u32
  | Set_sa u32 "'c KmTransportSA"
  | Clear_sa u32
  | Set_handle u32 'k
  | Remove_km u32
  | Assign_name SpecialPeerName u32
  | Clear_state u32
  | Remove_route ForwardingEntry

definition or_keep :: "'t \<Rightarrow> 'e + 't \<Rightarrow> 't" where
  "or_keep t r = (case r of Inl _ \<Rightarrow> t | Inr t' \<Rightarrow> t')"

fun peer_exec ::
  "(('ia, 'ip, 'c, 'k) LinkPeer slab \<Rightarrow> nat option) \<Rightarrow> ('ia, 'ip, 'c, 'k) PeerTable
   \<Rightarrow> ('ia, 'ip, 'c, 'k) peer_op \<Rightarrow> ('ia, 'ip, 'c, 'k) PeerTable res" where
  "peer_exec vk t (Insert_peer p) =
     (case vacant_entry vk t of
        Inl _ \<Rightarrow> Inr t
      | Inr k \<Rightarrow> bindR (VacantPeerTableEntry_insert t k p) (\<lambda>(_, t'). Inr t'))"
| "peer_exec vk t (Add_peer ltype sa ia) = bindR (PeerTable_add_peer vk t ltype sa ia) (\<lambda>(_, t'). Inr t')"
| "peer_exec vk t (Insert_internal_pair ia) =
     bindR (insert_internal_peer_pair vk ia t) (\<lambda>(_, _, t'). Inr t')"
| "peer_exec vk t (Remove_peer l) = Inr (peer_remove 0 t l)"
| "peer_exec vk t (Set_sa l sa) = Inr (or_keep t (set_security_association t l sa))"
| "peer_exec vk t (Clear_sa l) = Inr (or_keep t (clear_security_association t l))"
| "peer_exec vk t (Set_handle l h) = Inr (or_keep t (set_km_handle t l h))"
| "peer_exec vk t (Remove_km l) = Inr (snd (remove_km_state t l))"
| "peer_exec vk t (Assign_name n l) = Inr (or_keep t (assign_special_name 0 t n l))"
| "peer_exec vk t (Clear_state l) = Inr (clear_peer_state t l)"
| "peer_exec vk t (Remove_route r) = Inr (PeerTable_remove_route t r)"

inductive peer_table_reach ::
  "(('ia, 'ip, 'c, 'k) LinkPeer slab \<Rightarrow> nat option) \<Rightarrow> ('ia, 'ip, 'c, 'k) PeerTable \<Rightarrow> bool" for vk where
  peer_table_new: "peer_table_reach vk PeerTable_new"
| peer_table_step: "peer_table_reach vk t \<Longrightarrow> peer_exec vk t e = Inr t' \<Longrightarrow> peer_table_reach vk t'"

section \<open>The address index agrees with the slab\<close>

abbreviation peer_addr :: "('ia, 'ip, 'c, 'k) LinkPeer \<Rightarrow> SocketAddr \<times> 'ia" where
  "peer_addr p \<equiv> (substrate_addr p, interface_addr p)"

definition indexed :: "('ia, 'ip, 'c, 'k) PeerTable \<Rightarrow> SocketAddr \<times> 'ia \<Rightarrow> nat \<Rightarrow> bool" where
  "indexed t a k \<longleftrightarrow>
     (case peer_slab t k of
        None \<Rightarrow> False
      | Some p \<Rightarrow> peer_addr p = a \<and> \<not> is_unspecified (substrate_addr p))"

definition index_ok :: "('ia, 'ip, 'c, 'k) PeerTable \<Rightarrow> bool" where
  "index_ok t \<longleftrightarrow>
     (\<forall>k. peer_slab t k \<noteq> None \<longrightarrow> k < PEER_TABLE_SIZE)
     \<and> (\<forall>a l. sa_to_link t a = Some l \<longleftrightarrow> (\<exists>k. l = key_stream k \<and> indexed t a k))"

lemma indexed_upd [simp]:
  "peer_slab t' = (peer_slab t) (k := v) \<Longrightarrow> indexed t' a j \<longleftrightarrow>
     (if j = k then (case v of None \<Rightarrow> False | Some p \<Rightarrow> peer_addr p = a \<and> \<not> is_unspecified (substrate_addr p))
      else indexed t a j)"
  by (simp add: indexed_def)

lemma index_ok_new: "index_ok PeerTable_new"
  by (simp add: index_ok_def PeerTable_new_def indexed_def)

lemma slab_key_link:
  assumes "k < PEER_TABLE_SIZE"
  shows "slab_key (key_stream k) = k"
  by (rule slab_key_stream) (use assms in \<open>simp add: PEER_TABLE_SIZE_def\<close>)

lemma index_okD:
  assumes "index_ok t"
  shows "peer_slab t k \<noteq> None \<Longrightarrow> k < PEER_TABLE_SIZE"
    and "sa_to_link t a = Some l \<longleftrightarrow> (\<exists>k. l = key_stream k \<and> indexed t a k)"
    and "indexed t a j \<Longrightarrow> indexed t a k \<Longrightarrow> j = k"
proof -
  have lt: "peer_slab t i \<noteq> None \<Longrightarrow> i < PEER_TABLE_SIZE" for i
    using assms unfolding index_ok_def by blast
  have iff: "sa_to_link t a = Some l \<longleftrightarrow> (\<exists>k. l = key_stream k \<and> indexed t a k)" for l
    using assms unfolding index_ok_def by blast
  show "peer_slab t k \<noteq> None \<Longrightarrow> k < PEER_TABLE_SIZE" by (rule lt)
  show "sa_to_link t a = Some l \<longleftrightarrow> (\<exists>k. l = key_stream k \<and> indexed t a k)" by (rule iff)
  assume "indexed t a j" "indexed t a k"
  moreover from this have "j < PEER_TABLE_SIZE" "k < PEER_TABLE_SIZE"
    by (auto intro!: lt simp: indexed_def split: option.splits)
  ultimately show "j = k" using iff [of "key_stream j"] iff [of "key_stream k"] slab_key_link
    by (metis option.inject)
qed

lemma index_ok_insert:
  assumes ok: "index_ok t" and vk: "slab_ok PEER_TABLE_SIZE vk" and k: "vk (peer_slab t) = Some k"
    and ins: "VacantPeerTableEntry_insert t k p = Inr (l, t')"
  shows "index_ok t'"
proof -
  have free: "peer_slab t k = None" and lt: "k < PEER_TABLE_SIZE"
    using vk k by (auto simp: slab_ok_def)
  then have none: "\<not> indexed t a k" for a by (simp add: indexed_def)
  have t': "peer_slab t' = (peer_slab t) (k \<mapsto> p)"
    using ins by (auto simp: VacantPeerTableEntry_insert_def Let_def split: if_splits)
  have "sa_to_link t' a = Some m \<longleftrightarrow> (\<exists>j. m = key_stream j \<and> indexed t' a j)" for a m
  proof (cases "is_unspecified (substrate_addr p)")
    case True
    then have "sa_to_link t' = sa_to_link t"
      using ins by (auto simp: VacantPeerTableEntry_insert_def Let_def)
    moreover have "indexed t' a j \<longleftrightarrow> indexed t a j" for j
      using True none by (auto simp: indexed_upd [OF t'])
    ultimately show ?thesis using index_okD(2) [OF ok, of a m] by simp
  next
    case False
    then have sa: "sa_to_link t' = (sa_to_link t) (peer_addr p \<mapsto> key_stream k)"
        and new: "sa_to_link t (peer_addr p) = None"
      using ins by (auto simp: VacantPeerTableEntry_insert_def Let_def split: if_splits)
    have un: "\<not> indexed t (peer_addr p) j" for j
      using index_okD(2) [OF ok, of "peer_addr p" "key_stream j"] new by auto
    have ix: "indexed t' a j \<longleftrightarrow> (if a = peer_addr p then j = k else indexed t a j)" for j
      using un none False by (auto simp: indexed_upd [OF t'])
    show ?thesis
      using index_okD(2) [OF ok, of a m] unfolding ix by (auto simp: sa)
  qed
  then show ?thesis using index_okD(1) [OF ok] lt by (auto simp: index_ok_def t')
qed

lemma index_ok_update:
  assumes "index_ok t" and "update_peer t l f = Inr t'" and "\<And>p. peer_addr (f p) = peer_addr p"
  shows "index_ok t'"
proof -
  obtain p where p: "peer_slab t (slab_key l) = Some p" "t' = t \<lparr> peer_slab := (peer_slab t) (slab_key l \<mapsto> f p) \<rparr>"
    using assms(2) by (auto simp: update_peer_def peer_get_def split: option.splits)
  have "indexed t' a k \<longleftrightarrow> indexed t a k" for a k
    using p(1) assms(3) [of p] by (auto simp: p(2) indexed_def)
  then show ?thesis
    using assms(1) p(1) unfolding index_ok_def by (auto simp: p(2))
qed

lemma index_ok_remove:
  assumes ok: "index_ok t"
  shows "index_ok (peer_remove u t l)"
proof (cases "peer_slab t (slab_key l)")
  case None
  then show ?thesis using ok by (simp add: peer_remove_def peer_get_def)
next
  case (Some p)
  let ?t = "peer_remove u t l"
  have slab: "peer_slab ?t = (peer_slab t) (slab_key l := None)"
      and sa: "sa_to_link ?t = (sa_to_link t) (peer_addr p := None)"
    using Some by (simp_all add: peer_remove_def peer_get_def)
  have gone: "indexed t (peer_addr p) j \<Longrightarrow> j = slab_key l" for j
  proof -
    assume j: "indexed t (peer_addr p) j"
    then have "indexed t (peer_addr p) (slab_key l)"
      using Some by (auto simp: indexed_def split: option.splits)
    with j show ?thesis by (rule index_okD(3) [OF ok])
  qed
  have "sa_to_link ?t a = Some m \<longleftrightarrow> (\<exists>j. m = key_stream j \<and> indexed ?t a j)" for a m
  proof (cases "a = peer_addr p")
    case True
    then show ?thesis using gone by (auto simp: sa indexed_upd [OF slab])
  next
    case False
    then have "\<not> indexed t a (slab_key l)" using Some by (simp add: indexed_def)
    then have "indexed ?t a j \<longleftrightarrow> indexed t a j" for j by (simp add: indexed_upd [OF slab])
    then show ?thesis using index_okD(2) [OF ok, of a m] False by (simp add: sa)
  qed
  then show ?thesis using index_okD(1) [OF ok] by (auto simp: index_ok_def slab)
qed

lemma index_ok_or_keep_update:
  assumes "index_ok t" and "\<And>p. peer_addr (f p) = peer_addr p"
  shows "index_ok (or_keep t (update_peer t l f))"
  using assms index_ok_update [OF assms(1) _ assms(2)] by (simp add: or_keep_def split: sum.split)

lemma index_ok_internal:
  assumes "index_ok t" and "slab_ok PEER_TABLE_SIZE vk" and "insert_internal_peer vk ia t = Inr (l, t')"
  shows "index_ok t'"
  using assms index_ok_insert [OF assms(1,2)]
  by (auto simp: insert_internal_peer_def vacant_entry_def split: option.splits sum.splits)

lemma index_ok_remove_km:
  assumes "index_ok t"
  shows "index_ok (snd (remove_km_state t l))"
proof -
  have 1: "index_ok (or_keep t (clear_security_association t l))"
    unfolding clear_security_association_def by (rule index_ok_or_keep_update [OF assms]) simp
  have 2: "index_ok (or_keep (or_keep t (clear_security_association t l))
      (update_peer (or_keep t (clear_security_association t l)) l (\<lambda>p. p \<lparr> km_handle := None \<rparr>)))"
    by (rule index_ok_or_keep_update [OF 1]) simp
  show ?thesis
    using 1 2 by (auto simp: remove_km_state_def or_keep_def Let_def split: option.splits sum.splits)
qed

lemma index_ok_exec:
  assumes vk: "slab_ok PEER_TABLE_SIZE vk" and ok: "index_ok t" and ex: "peer_exec vk t e = Inr t'"
  shows "index_ok t'"
proof (cases e)
  case (Insert_peer p)
  then show ?thesis
    using ex ok index_ok_insert [OF ok vk]
    by (auto simp: vacant_entry_def bindR_eq_Inr_iff split: option.splits)
next
  case (Add_peer ltype sa ia)
  then show ?thesis
    using ex ok index_ok_insert [OF ok vk]
    by (auto simp: PeerTable_add_peer_def vacant_entry_def bindR_eq_Inr_iff split: option.splits)
next
  case (Insert_internal_pair ia)
  then show ?thesis
    using ex
    by (auto simp: insert_internal_peer_pair_def bindR_eq_Inr_iff split: if_splits)
      (blast intro: index_ok_internal [OF _ vk] ok)
next
  case (Assign_name n l)
  then show ?thesis
    using ex ok by (cases "special_peers t n = 0")
      (auto simp: or_keep_def assign_special_name_def index_ok_def indexed_def)
qed (use ex ok in \<open>auto intro!: index_ok_remove index_ok_remove_km index_ok_or_keep_update
    simp: set_security_association_def clear_security_association_def set_km_handle_def
      clear_peer_state_def PeerTable_remove_route_def or_keep_def [symmetric]\<close>)

lemma peer_table_reach_ok: "peer_table_reach vk t \<Longrightarrow> slab_ok PEER_TABLE_SIZE vk \<Longrightarrow> index_ok t"
  by (induction rule: peer_table_reach.induct) (auto intro: index_ok_new index_ok_exec)

text \<open>C12 (type). The two halves of a peer table agree in every state its operations reach: the address
index leads to a link exactly when that link's peer has this substrate address on this interface
and the address is specified, so no packet is ever attributed to a removed or to another peer.\<close>

theorem peer_index_exact:
  assumes "slab_ok PEER_TABLE_SIZE vk" and "peer_table_reach vk t"
  shows "lookup_peer t sa ia = Some l \<longleftrightarrow>
    (\<exists>p. peer_get t l = Some p \<and> substrate_addr p = sa \<and> interface_addr p = ia \<and> \<not> is_unspecified sa)"
proof -
  have ok: "index_ok t" by (rule peer_table_reach_ok [OF assms(2,1)])
  have key: "slab_key (key_stream k) = k" if "peer_slab t k \<noteq> None" for k
    by (rule slab_key_link [OF index_okD(1) [OF ok that]])
  have "(\<exists>k. l = key_stream k \<and> indexed t (sa, ia) k) \<longleftrightarrow> indexed t (sa, ia) (slab_key l)"
  proof
    assume "\<exists>k. l = key_stream k \<and> indexed t (sa, ia) k"
    then show "indexed t (sa, ia) (slab_key l)" using key by (auto simp: indexed_def split: option.splits)
  next
    assume ix: "indexed t (sa, ia) (slab_key l)"
    then have "key_stream (slab_key l) = l"
      by (intro slab_key_inj key) (auto simp: indexed_def split: option.splits)
    with ix show "\<exists>k. l = key_stream k \<and> indexed t (sa, ia) k" by metis
  qed
  then show ?thesis
    unfolding lookup_peer_def index_okD(2) [OF ok] by (auto simp: indexed_def peer_get_def split: option.splits)
qed

definition first_free :: "'v slab \<Rightarrow> nat option" where
  "first_free t = (if t 0 = None then Some 0 else if t 1 = None then Some 1 else None)"

definition demo_addr :: SocketAddr where
  "demo_addr = V4 [10, 1, 0, 7] 4500"

definition demo_peer :: "(nat, nat, nat, nat) LinkPeer" where
  "demo_peer = LinkPeer_new NodeToAdapter demo_addr 3"

lemma first_free_ok: "slab_ok PEER_TABLE_SIZE first_free"
  by (auto simp: slab_ok_def first_free_def PEER_TABLE_SIZE_def split: if_splits)

theorem peer_index_exact_witness:
  "\<exists>t :: (nat, nat, nat, nat) PeerTable. peer_table_reach first_free t
    \<and> lookup_peer t demo_addr 3 = Some 1
    \<and> (\<exists>p. peer_get t 1 = Some p \<and> substrate_addr p = demo_addr \<and> interface_addr p = 3)"
proof -
  define t where "t = PeerTable_new \<lparr> peer_slab := [0 \<mapsto> demo_peer], sa_to_link := [(demo_addr, 3) \<mapsto> key_stream 0] \<rparr>"
  have spec: "\<not> is_unspecified demo_addr" by (simp add: is_unspecified_def demo_addr_def)
  then have "peer_exec first_free PeerTable_new (Insert_peer demo_peer) = Inr t"
    by (simp add: vacant_entry_def first_free_def VacantPeerTableEntry_insert_def t_def PeerTable_new_def
        demo_peer_def LinkPeer_new_def Let_def)
  then have reach: "peer_table_reach first_free t" by (rule peer_table_step [OF peer_table_new])
  have "lookup_peer t demo_addr 3 = Some 1" by (simp add: lookup_peer_def t_def key_stream_def)
  with peer_index_exact [OF first_free_ok reach, of demo_addr 3 1] reach show ?thesis by blast
qed

text \<open>Registering a second peer at an address panics; removing a peer takes its names away.\<close>

lemma duplicate_peer_panics:
  "lookup_peer t (substrate_addr p) (interface_addr p) \<noteq> None \<Longrightarrow> \<not> is_unspecified (substrate_addr p)
    \<Longrightarrow> VacantPeerTableEntry_insert t k p = Inl (Assert_failed ''duplicate peer substrate address'')"
  by (simp add: VacantPeerTableEntry_insert_def lookup_peer_def Let_def)

lemma removed_peer_unnamed: "peer_get t l \<noteq> None \<Longrightarrow> l \<noteq> 0 \<Longrightarrow> lookup_special_peer (peer_remove 0 t l) n \<noteq> Some l"
  by (auto simp: lookup_special_peer_def peer_remove_def split: if_splits)

end
