(* ===== verification/Fastpath.thy ===== *)
theory Fastpath
  imports Compress Counters Peer_Table
begin

unbundle bit_operations_syntax

text \<open>
  The data path, \<open>adapter/ph/src/fastpath.rs\<close>: packets from the substrate and from the local
  actor, their classification, compression, protection and forwarding.  A packet is its
  metadata and the three sections of its buffer (theory \<open>Packet\<close>).  The worker's state has the
  spare buffers, the counters, the two output queues and what it handed to the management
  queues.  What belongs to other crates or to the machine is the record \<open>fp_env\<close>: the
  hash functions, the internet checksum, the constants of the \<open>zpr\<close> crate, the capture
  program and the answers of the bounded queues.  Logging, and the functions of the security
  test feature, which is off by default, are left out.
\<close>

section \<open>Packets and the worker\<close>

record 'ip fpkt =
  f_md :: "'ip PacketMetadata"
  f_sec :: sections

abbreviation f_body :: "'ip fpkt \<Rightarrow> bytes" where
  "f_body p \<equiv> content (f_sec p)"

definition on_sec :: "'ip fpkt \<Rightarrow> sections res \<Rightarrow> 'ip fpkt res" where
  "on_sec p r = bindR r (\<lambda>s. Inr (p \<lparr> f_sec := s \<rparr>))"

definition destroy :: "'ip fpkt \<Rightarrow> bytes" where
  "destroy p = head_room (f_sec p) @ content (f_sec p) @ tail_room (f_sec p)"

datatype Direction = Inbound | Outbound
datatype try_send = Sent | Queue_full | Queue_closed

datatype ('ip, 'ia) MgmtDispatchMessage = WithLink "'ip fpkt" | WithAddr SocketAddr 'ia "'ip fpkt"

record ('ip, 'ia) QueuedEgressPacket =
  qe_pkt :: "'ip fpkt"
  qe_dst :: SocketAddr
  qe_src :: 'ia

record ('ip, 'ia) FastpathWorker =
  worker_index :: nat
  buffers :: "bytes list"
  batch_counters :: fastpath_counters
  am_sent :: "'ip fpkt list"
  mgmt_sent :: "('ip, 'ia) MgmtDispatchMessage list"
  captured :: "bytes list"
  actor_input_q :: "'ip fpkt list"
  substrate_egress_q :: "('ip, 'ia) QueuedEgressPacket list"

record ('ip, 'ia, 'c, 'k, 'h, 's) Assembly =
  ph_mode :: PhMode
  peer_table :: "('ia, 'ip, 'c, 'k) PeerTable"
  elt :: "('ip, 'ip fpkt, 'h, 's) EndpointLookupTable"
  dlt :: "('ip, 's) DockLookupTable"

record ('ip, 'ia) fp_env =
  fe_cls :: "'ip cls_env"
  fe_comp :: "'ip comp_env"
  fe_hash :: "bytes \<Rightarrow> bytes"
  fe_keyed_hash :: "bytes \<Rightarrow> bytes \<Rightarrow> bytes"
  fe_ia_unspecified :: "'ia \<Rightarrow> bool"
  fe_km_noise :: bool
  fe_zpi_0 :: u8
  fe_link_unknown :: u32
  fe_local_actor_link :: u32
  fe_dock_link :: u32
  fe_capture_program :: "(bytes \<Rightarrow> nat) option"
  fe_capture_send :: "bytes list \<Rightarrow> try_send"
  fe_timestamp :: bytes
  fe_mgmt_send :: "('ip, 'ia) MgmtDispatchMessage list \<Rightarrow> try_send"
  fe_am_send :: "'ip fpkt list \<Rightarrow> try_send"

text \<open>Sizes and codes of \<open>zdp.rs\<close>, \<open>config.rs\<close> and \<open>km_noise.rs\<close>.\<close>

definition ZDP_A2A_MAC_SIZE :: nat where "ZDP_A2A_MAC_SIZE = 8"
definition ZDP_PACKET_MAC_SIZE :: nat where "ZDP_PACKET_MAC_SIZE = 8"
definition PACKET_BUFFER_SIZE :: nat where "PACKET_BUFFER_SIZE = 4096 * 3"
definition DEFAULT_MESSAGE_HEADROOM :: nat where "DEFAULT_MESSAGE_HEADROOM = 256"
definition NOISE_PADLEN :: nat where "NOISE_PADLEN = 16 + 8"
definition PT_TransitPacket :: u8 where "PT_TransitPacket = 0"
definition PT_KeyManagement :: u8 where "PT_KeyManagement = 129"

lemmas fp_sizes = ZDP_A2A_MAC_SIZE_def ZDP_PACKET_MAC_SIZE_def

definition adapter_next_hop_link :: "u32 \<Rightarrow> u32" where
  "adapter_next_hop_link ingress = ingress mod 2 + 1"

definition count :: "('ip, 'ia) FastpathWorker \<Rightarrow> FastpathCounterType \<Rightarrow> ('ip, 'ia) FastpathWorker" where
  "count w c = w \<lparr> batch_counters := increment (batch_counters w) c \<rparr>"

definition drop_and_count ::
  "('ip, 'ia) FastpathWorker \<Rightarrow> 'ip fpkt \<Rightarrow> FastpathCounterType \<Rightarrow> ('ip, 'ia) FastpathWorker" where
  "drop_and_count w p reason = count (w \<lparr> buffers := buffers w @ [destroy p] \<rparr>) reason"

text \<open>\<open>Packet::new\<close> on a spare buffer: an empty body behind the headroom.  The metadata
  of a packet lie in its buffer; the model's buffers are without them.\<close>

definition fresh_packet :: "'ip PacketMetadata \<Rightarrow> bytes \<Rightarrow> 'ip fpkt res" where
  "fresh_packet md buf =
     (if DEFAULT_MESSAGE_HEADROOM > length buf then Inl (Assert_failed ''offset <= buf.len() - len'')
      else Inr \<lparr> f_md = md \<lparr> md_offset := MIN_BODY_OFFSET + DEFAULT_MESSAGE_HEADROOM, md_len := 0,
                           ingress_link_id := 0, ingress_stream_id := 0 \<rparr>,
                 f_sec = \<lparr> head_room = take DEFAULT_MESSAGE_HEADROOM buf, content = [],
                           tail_room = drop DEFAULT_MESSAGE_HEADROOM buf \<rparr> \<rparr>)"

fun mapR :: "('a \<Rightarrow> 'b res) \<Rightarrow> 'a list \<Rightarrow> 'b list res" where
  "mapR f [] = Inr []"
| "mapR f (x # xs) = bindR (f x) (\<lambda>y. bindR (mapR f xs) (\<lambda>ys. Inr (y # ys)))"

definition get_fresh_packets ::
  "'ip PacketMetadata \<Rightarrow> ('ip, 'ia) FastpathWorker \<Rightarrow> nat \<Rightarrow> ('ip fpkt list \<times> ('ip, 'ia) FastpathWorker) res" where
  "get_fresh_packets md w n =
     (let nbufs = min (length (buffers w)) n;
          rest = length (buffers w) - nbufs
      in bindR (mapR (fresh_packet md) (rev (drop rest (buffers w))))
           (\<lambda>pkts. Inr (pkts, w \<lparr> buffers := take rest (buffers w) \<rparr>)))"

section \<open>Protection of the substrate\<close>

definition encrypt_null :: "('ip, 'ia) fp_env \<Rightarrow> sections \<Rightarrow> sections res" where
  "encrypt_null env s =
     (if content s = [] then Inl Index_out_of_bounds
      else
        let csum = put_word 2 (ce_checksum (fe_comp env) (drop 1 (content s))) in
        s_put s (if (length (content s) - 1) mod 2 \<noteq> 0 then rev csum else csum))"

definition encrypt_hmac :: "('ip, 'ia) fp_env \<Rightarrow> bytes \<Rightarrow> sections \<Rightarrow> sections res" where
  "encrypt_hmac env key s = s_put s (take ZDP_PACKET_MAC_SIZE (fe_keyed_hash env key (content s)))"

text \<open>A codec writes its output to the tailroom.\<close>

definition write_tail :: "sections \<Rightarrow> bytes \<Rightarrow> sections" where
  "write_tail s out = s \<lparr> tail_room := out @ drop (length out) (tail_room s) \<rparr>"

definition encrypt_full :: "Codec \<Rightarrow> sections \<Rightarrow> (EncryptionError + sections) res" where
  "encrypt_full cd s =
     (if length (content s) < 1 then Inr (Inl EE_ParseError)
      else
        let encr_len = length (content s) - 1 in
        if length (tail_room s) \<ge> encr_len + max_overhead cd
        then (case encrypt_transport_stateless cd (drop 1 (content s)) (length (tail_room s)) of
                Inl e \<Rightarrow> Inr (Inl e)
              | Inr out \<Rightarrow> bindR (s_adopt (write_tail s out) 1 (length out)) (\<lambda>s'. Inr (Inr s')))
        else (case encrypt_transport_stateless cd (drop 1 (content s)) PACKET_BUFFER_SIZE of
                Inl e \<Rightarrow> Inr (Inl e)
              | Inr out \<Rightarrow> bindR (s_shrink s encr_len) (\<lambda>s1. bindR (s_put s1 out) (\<lambda>s'. Inr (Inr s')))))"

datatype DecryptError = BadStructure | UnknownZpi | DecryptionFailure | MicvFailure | BadChecksum

fun DecryptError_counter :: "DecryptError \<Rightarrow> FastpathCounterType" where
  "DecryptError_counter BadStructure = F_BadStructure"
| "DecryptError_counter UnknownZpi = F_UnknownZpi"
| "DecryptError_counter DecryptionFailure = F_DecryptionFailure"
| "DecryptError_counter MicvFailure = F_MicvFailure"
| "DecryptError_counter BadChecksum = F_BadChecksum"

text \<open>A packet that fails decryption may have changed; the caller drops it.\<close>

type_synonym decrypted = "((DecryptError + unit) \<times> sections) res"

definition decrypt_null :: "('ip, 'ia) fp_env \<Rightarrow> sections \<Rightarrow> decrypted" where
  "decrypt_null env s =
     (if length (content s) < 3 then Inr (Inl BadStructure, s)
      else if ce_checksum (fe_comp env) (drop 1 (content s)) \<noteq> 0 then Inr (Inl BadChecksum, s)
      else bindR (s_shrink s 2) (\<lambda>s'. Inr (Inr (), s')))"

definition decrypt_hmac :: "('ip, 'ia) fp_env \<Rightarrow> bytes \<Rightarrow> sections \<Rightarrow> decrypted" where
  "decrypt_hmac env key s =
     (if length (content s) < ZDP_PACKET_MAC_SIZE then Inr (Inl BadStructure, s)
      else
        let link_mac = drop (length (content s) - ZDP_PACKET_MAC_SIZE) (content s) in
        bindR (s_shrink s ZDP_PACKET_MAC_SIZE) (\<lambda>s'.
          if take ZDP_PACKET_MAC_SIZE (fe_keyed_hash env key (content s')) \<noteq> link_mac
          then Inr (Inl MicvFailure, s') else Inr (Inr (), s')))"

definition decrypt_full :: "Codec \<Rightarrow> nat \<Rightarrow> sections \<Rightarrow> decrypted" where
  "decrypt_full cd padlen s =
     (if length (content s) < 1 then Inr (Inl BadStructure, s)
      else
        let encr_len = length (content s) - 1 in
        if encr_len < padlen then Inr (Inl BadStructure, s)
        else if length (tail_room s) \<ge> encr_len
        then (case decrypt_transport_stateless cd (drop 1 (content s)) (length (tail_room s)) of
                Inl e \<Rightarrow> Inr (Inl DecryptionFailure, s)
              | Inr out \<Rightarrow> bindR (s_adopt (write_tail s out) 1 (length out)) (\<lambda>s'. Inr (Inr (), s')))
        else (case decrypt_transport_stateless cd (drop 1 (content s)) PACKET_BUFFER_SIZE of
                Inl e \<Rightarrow> Inr (Inl DecryptionFailure, s)
              | Inr out \<Rightarrow> bindR (s_shrink s encr_len) (\<lambda>s1. bindR (s_put s1 out) (\<lambda>s'. Inr (Inr (), s')))))"

definition decrypt_with_sa :: "('ip, 'ia) fp_env \<Rightarrow> u8 \<Rightarrow> 'c KmTransportSA \<Rightarrow> sections \<Rightarrow> decrypted" where
  "decrypt_with_sa env zpi sa s =
     (if zpi = zpi_hmac (recv_zpis sa) then decrypt_hmac env (recv_hmac_key sa) s
      else if zpi = zpi_encr (recv_zpis sa)
      then decrypt_full (codec sa) (if fe_km_noise env then NOISE_PADLEN else 0) s
      else Inr (Inl UnknownZpi, s))"

definition decrypt ::
  "('ip, 'ia) fp_env \<Rightarrow> ('ip, 'ia, 'c, 'k, 'h, 's) Assembly \<Rightarrow> u8 \<Rightarrow> u32 \<Rightarrow> sections \<Rightarrow> decrypted" where
  "decrypt env asm zpi link s =
     (case (case peer_get (peer_table asm) link of
              Some p \<Rightarrow> get_established_transport_association p
            | None \<Rightarrow> None) of
        Some sa \<Rightarrow> decrypt_with_sa env zpi sa s
      | None \<Rightarrow>
          if zpi \<noteq> fe_zpi_0 env \<and> link \<noteq> fe_link_unknown env then Inr (Inl UnknownZpi, s)
          else decrypt_null env s)"

section \<open>Capture\<close>

definition encode_direction :: "Direction \<Rightarrow> u8" where
  "encode_direction dir = (case dir of Inbound \<Rightarrow> 0 | Outbound \<Rightarrow> 1)"

text \<open>\<open>PcaprecHdr::new\<close> (\<open>pcap_writer.rs\<close>) in memory: four little-endian words.\<close>

definition PcaprecHdr_new :: "bytes \<Rightarrow> nat \<Rightarrow> nat \<Rightarrow> bytes" where
  "PcaprecHdr_new timestamp incl_len orig_len =
     take 8 (timestamp @ replicate 8 0)
     @ rev (put_word 4 (of_nat (min incl_len (2 ^ 32 - 1)) :: u32))
     @ rev (put_word 4 (of_nat (min orig_len (2 ^ 32 - 1)) :: u32))"

text \<open>\<open>Capture::try_enqueue_packet\<close> (\<open>queues.rs\<close>).\<close>

definition capture_try_enqueue ::
  "('ip, 'ia) fp_env \<Rightarrow> ('ip, 'ia) FastpathWorker \<Rightarrow> sections \<Rightarrow> nat
   \<Rightarrow> (bool \<times> sections \<times> ('ip, 'ia) FastpathWorker) res" where
  "capture_try_enqueue env w s caplen =
     (let incl_len = min caplen (length (content s)) in
      bindR (s_push s (PcaprecHdr_new (fe_timestamp env) incl_len (length (content s)))) (\<lambda>s1.
        bindR (s_advance s1 16) (\<lambda>s2.
          case fe_capture_send env (captured w) of
            Sent \<Rightarrow> Inr (True, s2, w \<lparr> captured := captured w @ [take (16 + incl_len) (content s1)] \<rparr>)
          | Queue_full \<Rightarrow> Inr (False, s2, w)
          | Queue_closed \<Rightarrow> Inl (Assert_failed ''capture channel closed''))))"

fun capture_loop ::
  "('ip, 'ia) fp_env \<Rightarrow> (bytes \<Rightarrow> nat) \<Rightarrow> Direction \<Rightarrow> ('ip, 'ia) FastpathWorker \<Rightarrow> nat \<Rightarrow> nat \<Rightarrow> sections list
   \<Rightarrow> (sections list \<times> nat \<times> nat \<times> nat \<times> ('ip, 'ia) FastpathWorker) res" where
  "capture_loop env program dir w num_captured num_filtered [] = Inr ([], num_captured, num_filtered, 0, w)"
| "capture_loop env program dir w num_captured num_filtered (s # rest) =
     bindR (s_push s [encode_direction dir]) (\<lambda>s1.
       let caplen = program (content s1) in
       if caplen > 0 then
         bindR (capture_try_enqueue env w s1 caplen) (\<lambda>(ok, s2, w1).
         bindR (s_advance s2 1) (\<lambda>s3.
           if ok then
             bindR (capture_loop env program dir w1 (num_captured + 1) num_filtered rest) (\<lambda>(ss, r).
               Inr (s3 # ss, r))
           else Inr (s3 # rest, num_captured, num_filtered, length rest, w1)))
       else
         bindR (s_advance s1 1) (\<lambda>s3.
         bindR (capture_loop env program dir w num_captured (num_filtered + 1) rest) (\<lambda>(ss, r).
           Inr (s3 # ss, r))))"

definition capture_counters :: "Direction \<Rightarrow> FastpathCounterType \<times> FastpathCounterType \<times> FastpathCounterType" where
  "capture_counters dir =
     (case dir of
        Inbound \<Rightarrow> (F_InCapPacksWrite, F_InCapPacksDrop, F_InCapPacksFilt)
      | Outbound \<Rightarrow> (F_OutCapPacksWrite, F_OutCapPacksDrop, F_OutCapPacksFilt))"

definition maybe_capture_batch ::
  "('ip, 'ia) fp_env \<Rightarrow> Direction \<Rightarrow> ('ip, 'ia) FastpathWorker \<Rightarrow> sections list
   \<Rightarrow> (sections list \<times> ('ip, 'ia) FastpathWorker) res" where
  "maybe_capture_batch env dir w pkts =
     (case fe_capture_program env of
        None \<Rightarrow> Inr (pkts, w)
      | Some program \<Rightarrow>
          bindR (capture_loop env program dir w 0 0 pkts)
            (\<lambda>(pkts', num_captured, num_filtered, num_dropped, w1).
              let (wr, dr, fl) = capture_counters dir in
              Inr (pkts', w1 \<lparr> batch_counters :=
                increase_by (increase_by (increase_by (batch_counters w1) wr (of_nat num_captured))
                  dr (of_nat num_dropped)) fl (of_nat num_filtered) \<rparr>)))"

definition maybe_capture ::
  "('ip, 'ia) fp_env \<Rightarrow> Direction \<Rightarrow> ('ip, 'ia) FastpathWorker \<Rightarrow> 'ip fpkt
   \<Rightarrow> ('ip fpkt \<times> ('ip, 'ia) FastpathWorker) res" where
  "maybe_capture env dir w p =
     bindR (maybe_capture_batch env dir w [f_sec p]) (\<lambda>(ss, w'). Inr (p \<lparr> f_sec := hd ss \<rparr>, w'))"

section \<open>Egress\<close>

definition encap_zpi :: "u8 \<Rightarrow> 'ip fpkt \<Rightarrow> 'ip fpkt res" where
  "encap_zpi zpi p = on_sec p (s_push (f_sec p) [zpi])"

definition set_flowinfo :: "SocketAddr \<Rightarrow> u32 \<Rightarrow> SocketAddr" where
  "set_flowinfo a flowinfo = (case a of V4 ip port \<Rightarrow> V4 ip port | V6 ip port _ scope \<Rightarrow> V6 ip port flowinfo scope)"

definition flowhash :: "'ip fpkt \<Rightarrow> u32" where
  "flowhash p = ingress_stream_id (f_md p)"

definition protect ::
  "('ip, 'ia) fp_env \<Rightarrow> 'c KmTransportSA option \<Rightarrow> bool \<Rightarrow> sections \<Rightarrow> (EncryptionError + sections) res" where
  "protect env sa transit s =
     (case sa of
        Some a \<Rightarrow>
          if transit then bindR (encrypt_hmac env (send_hmac_key a) s) (\<lambda>s'. Inr (Inr s'))
          else encrypt_full (codec a) s
      | None \<Rightarrow> bindR (encrypt_null env s) (\<lambda>s'. Inr (Inr s')))"

definition substrate_egress_common ::
  "('ip, 'ia) fp_env \<Rightarrow> ('ip, 'ia, 'c, 'k, 'h, 's) Assembly \<Rightarrow> ('ip, 'ia) FastpathWorker \<Rightarrow> u32 \<Rightarrow> 'ip fpkt
   \<Rightarrow> ((EncryptionError + (SocketAddr \<times> 'ia) option) \<times> 'ip fpkt \<times> ('ip, 'ia) FastpathWorker) res" where
  "substrate_egress_common env asm w link p =
     (if length (f_body p) < 2 then Inr (Inl EE_ParseError, p, w)
      else
        let packet_type = f_body p ! 0; transit = (packet_type = PT_TransitPacket) in
        (case peer_get (peer_table asm) link of
           None \<Rightarrow> Inr (Inr None, p, w)
         | Some peer \<Rightarrow>
             let sa = (if packet_type = PT_KeyManagement then None
                       else get_established_transport_association peer) in
             bindR (case sa of
                      Some a \<Rightarrow>
                        let zpi = (if transit then zpi_hmac (send_zpis a) else zpi_encr (send_zpis a)) in
                        bindR (assertR ''real_zpi != ZPI_0'' (zpi \<noteq> fe_zpi_0 env)) (\<lambda>_. Inr zpi)
                    | None \<Rightarrow> Inr (fe_zpi_0 env)) (\<lambda>real_zpi.
             bindR (encap_zpi real_zpi p) (\<lambda>p1.
             bindR (maybe_capture env Outbound w p1) (\<lambda>(p2, w1).
             bindR (protect env sa transit (f_sec p2)) (\<lambda>r.
               case r of
                 Inl e \<Rightarrow> Inr (Inl e, p2, w1)
               | Inr s \<Rightarrow>
                   Inr (Inr (Some (set_flowinfo (substrate_addr peer) (flowhash p2), interface_addr peer)),
                        p2 \<lparr> f_sec := s \<rparr>, w1)))))))"

definition substrate_egress ::
  "('ip, 'ia) fp_env \<Rightarrow> ('ip, 'ia, 'c, 'k, 'h, 's) Assembly \<Rightarrow> ('ip, 'ia) FastpathWorker \<Rightarrow> 'ip fpkt
   \<Rightarrow> ('ip, 'ia) FastpathWorker res" where
  "substrate_egress env asm w p =
     bindR (substrate_egress_common env asm w (egress_link_id (f_md p)) p) (\<lambda>(r, p1, w1).
       case r of
         Inl e \<Rightarrow> Inr (drop_and_count w1 p1 F_EncryptionFailure)
       | Inr None \<Rightarrow> Inr (drop_and_count w1 p1 F_PeerRemoved)
       | Inr (Some (dst, src)) \<Rightarrow>
           bindR (assertR ''!dest_sa.ip().is_unspecified()'' (\<not> is_unspecified dst)) (\<lambda>_.
           bindR (assertR ''!src_intf.ip().is_unspecified()'' (\<not> fe_ia_unspecified env src)) (\<lambda>_.
             Inr (w1 \<lparr> substrate_egress_q := substrate_egress_q w1
               @ [\<lparr> qe_pkt = p1, qe_dst = dst, qe_src = src \<rparr>] \<rparr>))))"

definition substrate_egress_packets_queued :: "('ip, 'ia) FastpathWorker \<Rightarrow> bool" where
  "substrate_egress_packets_queued w \<longleftrightarrow> substrate_egress_q w \<noteq> []"

section \<open>To the actor\<close>

definition asm_owns_address ::
  "('ip, 'ia) fp_env \<Rightarrow> ('ip, 'ia, 'c, 'k, 'h, 's) Assembly \<Rightarrow> 'ip \<Rightarrow> bool" where
  "asm_owns_address env asm addr \<longleftrightarrow>
     (case peer_get (peer_table asm) (fe_dock_link env) of
        None \<Rightarrow> False
      | Some p \<Rightarrow> link_ready p \<and> (addr \<in> set (actor_addresses p) \<or> link_aaa_address p = Some addr))"

definition a2a_micv :: "('ip, 'ia) fp_env \<Rightarrow> bytes option \<Rightarrow> bytes \<Rightarrow> bytes" where
  "a2a_micv env key bs =
     take ZDP_A2A_MAC_SIZE (case key of Some k \<Rightarrow> fe_keyed_hash env k bs | None \<Rightarrow> fe_hash env bs)"

definition actor_input ::
  "('ip, 'ia) fp_env \<Rightarrow> ('ip, 'ia, 'c, 'k, 'h, 's) Assembly \<Rightarrow> ('ip, 'ia) FastpathWorker \<Rightarrow> u32 \<Rightarrow> 'ip fpkt
   \<Rightarrow> ('ip, 'ia) FastpathWorker res" where
  "actor_input env asm w tether_id p =
     (if length (f_body p) < 1 then Inr (drop_and_count w p F_BadStructure)
      else bindR (s_get 1 (f_sec p)) (\<lambda>(a2a_hdr, s1).
        if a2a_hdr ! 0 \<noteq> 0 then Inl (Assert_failed ''not yet implemented: A2A SAID'')
        else if length (content s1) < ZDP_A2A_MAC_SIZE
        then Inr (drop_and_count w (p \<lparr> f_sec := s1 \<rparr>) F_BadStructure)
        else
          let a2a_mac = drop (length (content s1) - ZDP_A2A_MAC_SIZE) (content s1) in
          bindR (s_shrink s1 ZDP_A2A_MAC_SIZE) (\<lambda>s2.
            case Dlt_get (dlt asm) tether_id of
              None \<Rightarrow> Inr (drop_and_count w (p \<lparr> f_sec := s2 \<rparr>) F_UnknownStreamId)
            | Some pep \<Rightarrow>
                if ph_mode asm = PM_Adapter \<and> \<not> asm_owns_address env asm (dst_address (dlt_tc pep))
                then Inr (drop_and_count w (p \<lparr> f_sec := s2 \<rparr>) F_OtherError)
                else
                  bindR (expand (fe_comp env) (mode_of (fe_comp env) (dlt_tc pep)) (dlt_tc pep) s2) (\<lambda>s3.
                    if a2a_micv env (dlt_a2a_micv_key pep) (content s3) \<noteq> a2a_mac
                    then Inr (drop_and_count w (p \<lparr> f_sec := s3 \<rparr>) F_MicvFailure)
                    else Inr (w \<lparr> actor_input_q := actor_input_q w @ [p \<lparr> f_sec := s3 \<rparr>] \<rparr>)))))"

section \<open>Forwarding\<close>

definition send_on ::
  "('ip, 'ia) fp_env \<Rightarrow> ('ip, 'ia, 'c, 'k, 'h, 's) Assembly \<Rightarrow> ('ip, 'ia) FastpathWorker \<Rightarrow> u32 \<Rightarrow> u32 \<Rightarrow> 'ip fpkt
   \<Rightarrow> ('ip, 'ia) FastpathWorker res" where
  "send_on env asm w egress_link egress_stream p =
     (if egress_link = fe_local_actor_link env then actor_input env asm w egress_stream p
      else
        bindR (s_push (f_sec p) (put_word 4 egress_stream)) (\<lambda>s1.
        bindR (s_push s1 [PT_TransitPacket, 0]) (\<lambda>s2.
          substrate_egress env asm w
            (p \<lparr> f_md := f_md p \<lparr> egress_link_id := egress_link \<rparr>, f_sec := s2 \<rparr>))))"

definition forward ::
  "('ip, 'ia) fp_env \<Rightarrow> ('ip, 'ia, 'c, 'k, 'h, 's) Assembly \<Rightarrow> ('ip, 'ia) FastpathWorker \<Rightarrow> 'ip fpkt
   \<Rightarrow> ('ip, 'ia) FastpathWorker res" where
  "forward env asm w p =
     (case ph_mode asm of
        PM_Adapter \<Rightarrow>
          send_on env asm w (adapter_next_hop_link (ingress_link_id (f_md p))) (ingress_stream_id (f_md p)) p
      | PM_Node \<Rightarrow>
          (case peer_get (peer_table asm) (ingress_link_id (f_md p)) of
             None \<Rightarrow> Inr (drop_and_count w p F_UnknownPeer)
           | Some peer \<Rightarrow>
               (case Pft_get (link_pft peer) (ingress_stream_id (f_md p)) of
                  None \<Rightarrow> Inr (drop_and_count w p F_UnknownStreamId)
                | Some pep \<Rightarrow> send_on env asm w (fe_link (next_hop pep)) (fe_stream (next_hop pep)) p)))"

section \<open>From the actor\<close>

text \<open>The time to live is at offset 8 of an IPv4 header, the hop limit at 7 of an IPv6 one.\<close>

definition decrement_at :: "'ip fpkt \<Rightarrow> nat \<Rightarrow> nat \<Rightarrow> (bool \<times> 'ip fpkt) res" where
  "decrement_at p header_size i =
     (if length (f_body p) < header_size then Inl Index_out_of_bounds
      else
        let ttl = f_body p ! i; ttl' = (if ttl > 0 then ttl - 1 else ttl) in
        bindR (s_write (f_sec p) i [ttl']) (\<lambda>s. Inr (ttl' = 0, p \<lparr> f_sec := s \<rparr>)))"

definition decrement_ttl :: "'ip fpkt \<Rightarrow> (bool \<times> 'ip fpkt) res" where
  "decrement_ttl p =
     (case l3_type (md_five_tuple (f_md p)) of
        Ipv4 \<Rightarrow> decrement_at p 20 8
      | Ipv6 \<Rightarrow> decrement_at p 40 7
      | L3_other _ \<Rightarrow> Inr (False, p))"

definition actor_output_post_classify ::
  "('ip, 'ia) fp_env \<Rightarrow> ('ip, 'ia, 'c, 'k, 'h, 's) Assembly \<Rightarrow> ('ip, 'ia) FastpathWorker \<Rightarrow> 'ip fpkt \<Rightarrow> bool
   \<Rightarrow> ('ip, 'ia) FastpathWorker res" where
  "actor_output_post_classify env asm w p allow_bind_request =
     (let five_tuple = md_five_tuple (f_md p) in
      if ph_mode asm = PM_Adapter \<and> \<not> asm_owns_address env asm (src_address five_tuple)
      then Inr (drop_and_count w p F_OtherError)
      else case elt_table (elt asm) five_tuple of
        None \<Rightarrow>
          if \<not> allow_bind_request then Inr (drop_and_count w p F_OtherError)
          else (case fe_am_send env (am_sent w) of
                  Sent \<Rightarrow> Inr (count (w \<lparr> am_sent := am_sent w @ [p] \<rparr>) F_ActorSlowpath)
                | Queue_full \<Rightarrow> Inr (drop_and_count w p F_QueueBackpressure)
                | Queue_closed \<Rightarrow> Inl (Assert_failed ''adapter manager channel closed''))
      | Some (Active pep) \<Rightarrow>
          let mac = a2a_micv env (pep_a2a_micv_key pep) (f_body p) in
          bindR (compress (fe_comp env) (pep_compression_mode pep) (l3_type five_tuple)
            (l4_protocol five_tuple) (f_sec p)) (\<lambda>s1.
          bindR (s_put s1 mac) (\<lambda>s2.
          bindR (s_push s2 [0]) (\<lambda>s3.
            forward env asm w
              (p \<lparr> f_md := f_md p \<lparr> ingress_stream_id := pep_tether_id pep \<rparr>, f_sec := s3 \<rparr>))))
      | Some (Pending _ _) \<Rightarrow> Inr (drop_and_count w p F_DroppedAwaitingBind))"

definition actor_output ::
  "('ip, 'ia) fp_env \<Rightarrow> ('ip, 'ia, 'c, 'k, 'h, 's) Assembly \<Rightarrow> ('ip, 'ia) FastpathWorker \<Rightarrow> 'ip fpkt
   \<Rightarrow> ('ip, 'ia) FastpathWorker res" where
  "actor_output env asm w p0 =
     (let md = f_md p0 \<lparr> ingress_link_id := fe_local_actor_link env,
                         ingress_lane_id := of_nat (worker_index w) \<rparr> in
      bindR (classify (fe_cls env) (md_five_tuple md) (f_body p0)) (\<lambda>(r, ft).
        let p = p0 \<lparr> f_md := md \<lparr> md_five_tuple := ft \<rparr> \<rparr> in
        case r of
          Inl _ \<Rightarrow> Inr (drop_and_count w p F_InPacksDrop)
        | Inr cls \<Rightarrow>
            if cls \<noteq> CR_OK \<and> cls \<noteq> CR_UnclassifiedL4 then Inr (drop_and_count w p F_InPacksDrop)
            else bindR (decrement_ttl p) (\<lambda>(ttl_expired, p1).
              if ttl_expired then Inr (drop_and_count w p1 F_TtlExpired)
              else actor_output_post_classify env asm w p1 True)))"

section \<open>From the substrate\<close>

definition dispatch_mgmt ::
  "('ip, 'ia) fp_env \<Rightarrow> ('ip, 'ia) FastpathWorker \<Rightarrow> ('ip, 'ia) MgmtDispatchMessage \<Rightarrow> 'ip fpkt
   \<Rightarrow> ('ip, 'ia) FastpathWorker res" where
  "dispatch_mgmt env w msg p =
     (case fe_mgmt_send env (mgmt_sent w) of
        Sent \<Rightarrow> Inr (count (w \<lparr> mgmt_sent := mgmt_sent w @ [msg] \<rparr>) F_DispatchedToMgmt)
      | Queue_full \<Rightarrow> Inr (drop_and_count w p F_QueueBackpressure)
      | Queue_closed \<Rightarrow> Inl (Assert_failed ''mgmt dispatch channel closed''))"

definition ingress_known ::
  "('ip, 'ia) fp_env \<Rightarrow> ('ip, 'ia, 'c, 'k, 'h, 's) Assembly \<Rightarrow> ('ip, 'ia) FastpathWorker \<Rightarrow> u8 \<Rightarrow> 'ip fpkt
   \<Rightarrow> ('ip, 'ia) FastpathWorker res" where
  "ingress_known env asm w zpi p =
     (if length (f_body p) < 2 then Inr (drop_and_count w p F_BadStructure)
      else bindR (s_get 2 (f_sec p)) (\<lambda>(base_hdr, s1).
        let p1 = p \<lparr> f_sec := s1 \<rparr>; packet_type = base_hdr ! 0 in
        if zpi = fe_zpi_0 env \<and> packet_type \<noteq> PT_KeyManagement then Inr (drop_and_count w p1 F_OtherError)
        else if packet_type \<noteq> PT_TransitPacket then
          bindR (s_push s1 base_hdr) (\<lambda>s2.
            let p2 = p \<lparr> f_sec := s2 \<rparr> in dispatch_mgmt env w (WithLink p2) p2)
        else if length (content s1) < 4 then Inr (drop_and_count w p1 F_BadStructure)
        else bindR (s_get 4 s1) (\<lambda>(stream_id, s2).
          forward env asm w (p \<lparr> f_md := f_md p \<lparr> ingress_stream_id := get_word stream_id \<rparr>, f_sec := s2 \<rparr>))))"

definition substrate_ingress ::
  "('ip, 'ia) fp_env \<Rightarrow> ('ip, 'ia, 'c, 'k, 'h, 's) Assembly \<Rightarrow> ('ip, 'ia) FastpathWorker \<Rightarrow> SocketAddr \<Rightarrow> 'ia
   \<Rightarrow> 'ip fpkt \<Rightarrow> ('ip, 'ia) FastpathWorker res" where
  "substrate_ingress env asm w peer_sa interface p0 =
     (let link = (case lookup_peer (peer_table asm) peer_sa interface of Some l \<Rightarrow> l | None \<Rightarrow> 0);
          p = p0 \<lparr> f_md := f_md p0 \<lparr> ingress_link_id := link \<rparr> \<rparr>
      in if length (f_body p) < 1 then Inr (drop_and_count w p F_BadStructure)
         else
           let zpi = f_body p ! 0 in
           bindR (decrypt env asm zpi link (f_sec p)) (\<lambda>(r, s1).
             let p1 = p \<lparr> f_sec := s1 \<rparr> in
             case r of
               Inl err \<Rightarrow> Inr (drop_and_count w p1 (DecryptError_counter err))
             | Inr _ \<Rightarrow>
                 bindR (maybe_capture env Inbound w p1) (\<lambda>(p2, w1).
                   if length (f_body p2) < 1 then Inr (drop_and_count w1 p2 F_BadStructure)
                   else bindR (s_get 1 (f_sec p2)) (\<lambda>(_, s3).
                     let p3 = p2 \<lparr> f_sec := s3 \<rparr> in
                     if link = fe_link_unknown env
                     then dispatch_mgmt env w1 (WithAddr peer_sa interface p3) p3
                     else ingress_known env asm w1 zpi p3))))"

text \<open>\<open>Aggregate::aggregate\<close> adds the batch to the worker's shared counters and clears it.\<close>

definition aggregate ::
  "fastpath_counters list \<Rightarrow> ('ip, 'ia) FastpathWorker
   \<Rightarrow> (fastpath_counters list \<times> ('ip, 'ia) FastpathWorker) res" where
  "aggregate fastpaths w =
     (if worker_index w \<ge> length fastpaths then Inl Index_out_of_bounds
      else Inr (fastpaths [worker_index w := (\<lambda>c. (fastpaths ! worker_index w) c + batch_counters w c)],
                w \<lparr> batch_counters := (\<lambda>_. 0) \<rparr>))"

section \<open>Every packet ends in exactly one place\<close>

text \<open>Where a worker can have a packet buffer: spare, handed to management, or in an output queue.\<close>

definition held :: "('ip, 'ia) FastpathWorker \<Rightarrow> nat" where
  "held w = length (buffers w) + length (am_sent w) + length (mgmt_sent w)
     + length (actor_input_q w) + length (substrate_egress_q w)"

lemma held_drop [simp]: "held (drop_and_count w p c) = Suc (held w)"
  by (simp add: held_def drop_and_count_def count_def)

lemma held_count [simp]: "held (count w c) = held w"
  by (simp add: held_def count_def)

abbreviation takes_one :: "('ip, 'ia) FastpathWorker \<Rightarrow> ('ip, 'ia) FastpathWorker res \<Rightarrow> bool" where
  "takes_one w r \<equiv> post r (\<lambda>w'. held w' = Suc (held w))"

lemma held_queue [simp]:
  "held (w \<lparr> actor_input_q := actor_input_q w @ [p] \<rparr>) = Suc (held w)"
  "held (w \<lparr> substrate_egress_q := substrate_egress_q w @ [q] \<rparr>) = Suc (held w)"
  "held (w \<lparr> am_sent := am_sent w @ [p] \<rparr>) = Suc (held w)"
  "held (w \<lparr> mgmt_sent := mgmt_sent w @ [m] \<rparr>) = Suc (held w)"
  "held (w \<lparr> batch_counters := c \<rparr>) = held w"
  "held (w \<lparr> captured := d \<rparr>) = held w"
  by (simp_all add: held_def)

definition same_queues :: "('ip, 'ia) FastpathWorker \<Rightarrow> ('ip, 'ia) FastpathWorker \<Rightarrow> bool" where
  "same_queues w w' \<longleftrightarrow> buffers w' = buffers w \<and> am_sent w' = am_sent w \<and> mgmt_sent w' = mgmt_sent w
     \<and> actor_input_q w' = actor_input_q w \<and> substrate_egress_q w' = substrate_egress_q w"

lemma same_queues_simps [simp]:
  "same_queues w w" "same_queues w (w \<lparr> captured := d \<rparr>)"
  "same_queues w (w1 \<lparr> batch_counters := c \<rparr>) \<longleftrightarrow> same_queues w w1"
  by (auto simp: same_queues_def)

lemma same_queues_trans: "same_queues u v \<Longrightarrow> same_queues v w \<Longrightarrow> same_queues u w"
  by (simp add: same_queues_def)

lemma same_queues_held: "same_queues w w' \<Longrightarrow> held w' = held w"
  by (simp add: same_queues_def held_def)

lemma capture_try_enqueue_queues: "post (capture_try_enqueue env w s n) (\<lambda>(ok, s', w'). same_queues w w')"
  by (auto simp: capture_try_enqueue_def Let_def split: try_send.split intro!: post_bind_any)

lemma capture_loop_queues: "post (capture_loop env program dir w n f ss) (\<lambda>(ss', n', f', d, w'). same_queues w w')"
proof (induction ss arbitrary: w n f)
  case (Cons s rest)
  have IH: "post (bindR (capture_loop env program dir w1 n f rest) (\<lambda>(ss, r). Inr (s3 # ss, r)))
      (\<lambda>(ss', n', f', d, w'). same_queues w1 w')" for w1 n f s3
    by (rule post_bind [OF Cons.IH]) auto
  show ?case
    unfolding capture_loop.simps Let_def
  proof (rule post_bind_any)
    fix s1
    show "post (if program (content s1) > 0 then
         bindR (capture_try_enqueue env w s1 (program (content s1))) (\<lambda>(ok, s2, w1).
         bindR (s_advance s2 1) (\<lambda>s3.
           if ok then
             bindR (capture_loop env program dir w1 (n + 1) f rest) (\<lambda>(ss, r). Inr (s3 # ss, r))
           else Inr (s3 # rest, n, f, length rest, w1)))
       else
         bindR (s_advance s1 1) (\<lambda>s3.
         bindR (capture_loop env program dir w n (f + 1) rest) (\<lambda>(ss, r). Inr (s3 # ss, r))))
      (\<lambda>(ss', n', f', d, w'). same_queues w w')"
    proof (cases "program (content s1) > 0")
      case True
      have "post (if ok then bindR (capture_loop env program dir w1 (n + 1) f rest) (\<lambda>(ss, r). Inr (s3 # ss, r))
          else Inr (s3 # rest, n, f, length rest, w1)) (\<lambda>(ss', n', f', d, w'). same_queues w w')"
        if "same_queues w w1" for ok s3 w1
        using that by (auto intro!: post_mono [OF IH [of w1]] intro: same_queues_trans)
      then show ?thesis
        unfolding if_P [OF True]
        by (intro post_bind [OF capture_try_enqueue_queues]) (clarify, rule post_bind_any, blast)
    next
      case False
      then show ?thesis using IH [of w] by (simp add: post_bind_any del: capture_loop.simps)
    qed
  qed
qed simp

lemma maybe_capture_queues: "post (maybe_capture env dir w p) (\<lambda>(p', w'). same_queues w w')"
proof -
  have "post (maybe_capture_batch env dir w ss) (\<lambda>(ss', w'). same_queues w w')" for ss
    by (auto simp: maybe_capture_batch_def intro!: post_bind [OF capture_loop_queues] split: option.splits prod.splits)
  then show ?thesis unfolding maybe_capture_def by (rule post_bind) auto
qed

lemma substrate_egress_common_queues:
  "post (substrate_egress_common env asm w link p) (\<lambda>(r, p', w'). same_queues w w')"
proof -
  have *: "post (bindR (maybe_capture env Outbound w p1) (\<lambda>(p2, w1).
      bindR (protect env sa transit (f_sec p2)) (\<lambda>r.
        case r of Inl e \<Rightarrow> Inr (Inl e, p2, w1) | Inr s \<Rightarrow> Inr (g p2, p2 \<lparr> f_sec := s \<rparr>, w1))))
      (\<lambda>(r, p', w'). same_queues w w')" for p1 and sa :: "'c KmTransportSA option" and transit g
    by (rule post_bind [OF maybe_capture_queues]) (auto intro!: post_bind_any split: sum.split)
  show ?thesis
    by (auto simp: substrate_egress_common_def Let_def split: option.split intro!: post_bind_any *)
qed

lemma substrate_egress_takes_one: "takes_one w (substrate_egress env asm w p)"
  unfolding substrate_egress_def
  by (rule post_bind [OF substrate_egress_common_queues])
    (auto split: sum.split option.split intro!: post_bind_any same_queues_held)

lemma actor_input_takes_one: "takes_one w (actor_input env asm w t p)"
  by (auto simp: actor_input_def Let_def split: option.split intro!: post_bind_any)

lemma forward_takes_one: "takes_one w (forward env asm w p)"
proof -
  have send: "takes_one w (send_on env asm w l t p)" for l t
    by (auto simp: send_on_def actor_input_takes_one substrate_egress_takes_one intro!: post_bind_any)
  show ?thesis
    by (auto simp: forward_def send split: PhMode.split option.split)
qed

lemma post_classify_takes_one: "takes_one w (actor_output_post_classify env asm w p b)"
  by (auto simp: actor_output_post_classify_def Let_def forward_takes_one
      split: option.split EltEntry.split try_send.split intro!: post_bind_any)

lemma dispatch_mgmt_takes_one: "takes_one w (dispatch_mgmt env w m p)"
  by (auto simp: dispatch_mgmt_def split: try_send.split)

lemma ingress_known_takes_one: "takes_one w (ingress_known env asm w zpi p)"
  by (auto simp: ingress_known_def Let_def dispatch_mgmt_takes_one forward_takes_one intro!: post_bind_any)

text \<open>C10 (invariant). The data path neither loses nor duplicates a packet buffer: processing a packet from
the substrate, from the actor or from management, unless it panics, leaves that packet's
buffer in exactly one of the places a worker has for it, spare or in a queue, and every other
buffer where it was.\<close>

theorem packet_conserved:
  "substrate_ingress env asm w sa ia p = Inr w' \<or> actor_output env asm w p = Inr w'
     \<or> actor_output_post_classify env asm w p b = Inr w' \<or> substrate_egress env asm w p = Inr w'
   \<Longrightarrow> held w' = held w + 1"
proof -
  have known: "same_queues w w1 \<Longrightarrow> takes_one w (dispatch_mgmt env w1 m q)"
      "same_queues w w1 \<Longrightarrow> takes_one w (ingress_known env asm w1 z q)" for w1 m q z
    using same_queues_held
    by (fastforce intro: post_mono [OF dispatch_mgmt_takes_one] post_mono [OF ingress_known_takes_one])+
  have "takes_one w (substrate_ingress env asm w sa ia p)"
    by (auto simp: substrate_ingress_def Let_def known split: sum.split
        intro!: post_bind_any post_bind [OF maybe_capture_queues] same_queues_held)
  moreover have "takes_one w (actor_output env asm w p)"
    by (auto simp: actor_output_def Let_def post_classify_takes_one split: sum.split intro!: post_bind_any)
  moreover note post_classify_takes_one [of env asm w p b] substrate_egress_takes_one [of env asm w p]
  moreover assume "substrate_ingress env asm w sa ia p = Inr w' \<or> actor_output env asm w p = Inr w'
     \<or> actor_output_post_classify env asm w p b = Inr w' \<or> substrate_egress env asm w p = Inr w'"
  ultimately show ?thesis by (auto simp: post_def)
qed

section \<open>What is forwarded is authentic\<close>

definition authentic :: "('ip, 'ia) fp_env \<Rightarrow> 'c KmTransportSA \<Rightarrow> bytes \<Rightarrow> bool" where
  "authentic env sa bs \<longleftrightarrow>
     (bs ! 0 = zpi_hmac (recv_zpis sa) \<and> ZDP_PACKET_MAC_SIZE \<le> length bs
        \<and> drop (length bs - ZDP_PACKET_MAC_SIZE) bs
            = take ZDP_PACKET_MAC_SIZE
                (fe_keyed_hash env (recv_hmac_key sa) (take (length bs - ZDP_PACKET_MAC_SIZE) bs)))
     \<or> (bs ! 0 = zpi_encr (recv_zpis sa)
        \<and> (\<exists>n. \<not> isl (decrypt_transport_stateless (codec sa) (drop 1 bs) n)))"

definition link_sa :: "('ip, 'ia, 'c, 'k, 'h, 's) Assembly \<Rightarrow> u32 \<Rightarrow> 'c KmTransportSA option" where
  "link_sa asm link =
     (case peer_get (peer_table asm) link of None \<Rightarrow> None | Some p \<Rightarrow> get_established_transport_association p)"

lemma decrypt_full_decrypts:
  "post (decrypt_full cd padlen s)
     (\<lambda>(r, s'). r = Inr () \<longrightarrow> (\<exists>n. \<not> isl (decrypt_transport_stateless cd (drop 1 (content s)) n)))"
proof -
  have "post (case decrypt_transport_stateless cd (drop 1 (content s)) n of
      Inl e \<Rightarrow> Inr (Inl DecryptionFailure, s) | Inr out \<Rightarrow> g out)
     (\<lambda>(r, s'). r = Inr () \<longrightarrow> (\<exists>n. \<not> isl (decrypt_transport_stateless cd (drop 1 (content s)) n)))" for n g
    by (cases "decrypt_transport_stateless cd (drop 1 (content s)) n") (auto simp: post_def intro!: exI [of _ n])
  then show ?thesis by (simp add: decrypt_full_def Let_def)
qed

lemma decrypt_with_sa_authentic:
  "post (decrypt_with_sa env (content s ! 0) sa s) (\<lambda>(r, s'). r = Inr () \<longrightarrow> authentic env sa (content s))"
proof -
  have "post (decrypt_hmac env (recv_hmac_key sa) s) (\<lambda>(r, s'). r = Inr () \<longrightarrow> authentic env sa (content s))"
    if "content s ! 0 = zpi_hmac (recv_zpis sa)"
    using that by (auto simp: post_def decrypt_hmac_def authentic_def Let_def s_shrink_def bindR_eq_Inr_iff)
  moreover have "post (decrypt_full (codec sa) n s) (\<lambda>(r, s'). r = Inr () \<longrightarrow> authentic env sa (content s))"
    if "content s ! 0 = zpi_encr (recv_zpis sa)" for n
    using that by (auto simp: authentic_def intro!: post_mono [OF decrypt_full_decrypts])
  ultimately show ?thesis by (simp add: decrypt_with_sa_def)
qed

lemma decrypt_authentic:
  "post (decrypt env asm (content s ! 0) link s)
     (\<lambda>(r, s'). r = Inr () \<longrightarrow> (case link_sa asm link of
        Some sa \<Rightarrow> authentic env sa (content s)
      | None \<Rightarrow> content s ! 0 = fe_zpi_0 env \<or> link = fe_link_unknown env))"
  using decrypt_with_sa_authentic [of env s]
  by (auto simp: decrypt_def link_sa_def post_def split: option.splits)

abbreviation same_outputs :: "('ip, 'ia) FastpathWorker \<Rightarrow> ('ip, 'ia) FastpathWorker \<Rightarrow> bool" where
  "same_outputs w w' \<equiv> actor_input_q w' = actor_input_q w \<and> substrate_egress_q w' = substrate_egress_q w"

lemma drop_outputs [simp]: "actor_input_q (drop_and_count w p c) = actor_input_q w"
    "substrate_egress_q (drop_and_count w p c) = substrate_egress_q w"
  by (simp_all add: drop_and_count_def count_def)

lemma dispatch_outputs: "post (dispatch_mgmt env w m p) (same_outputs w)"
  by (auto simp: dispatch_mgmt_def count_def split: try_send.split)

lemma zpi_0_outputs: "fe_zpi_0 env = zpi \<Longrightarrow> post (ingress_known env asm w zpi p) (same_outputs w)"
  by (auto simp: ingress_known_def Let_def PT_TransitPacket_def PT_KeyManagement_def
      intro!: post_bind_any dispatch_outputs)

text \<open>C4 (safety). Nothing from the substrate is forwarded or delivered without proof of origin: if a packet that
arrives changes an output queue, it came from the address of a known link with an
established security association and either carries a valid MAC under that association's
receive key or decrypts under its codec.\<close>

theorem forwarded_is_authentic:
  assumes "fe_link_unknown env = 0"
    and "substrate_ingress env asm w sa ia p = Inr w'"
    and "actor_input_q w' \<noteq> actor_input_q w \<or> substrate_egress_q w' \<noteq> substrate_egress_q w"
  shows "\<exists>link s. lookup_peer (peer_table asm) sa ia = Some link \<and> link_sa asm link = Some s
    \<and> authentic env s (f_body p)"
proof -
  let ?link = "case lookup_peer (peer_table asm) sa ia of Some l \<Rightarrow> l | None \<Rightarrow> 0"
  let ?goal = "\<exists>link s. lookup_peer (peer_table asm) sa ia = Some link \<and> link_sa asm link = Some s
    \<and> authentic env s (f_body p)"
  define ok where "ok w' \<longleftrightarrow> same_outputs w w' \<or> ?goal" for w'
  define C where "C \<longleftrightarrow> (case link_sa asm ?link of Some s \<Rightarrow> authentic env s (f_body p)
      | None \<Rightarrow> f_body p ! 0 = fe_zpi_0 env \<or> ?link = fe_link_unknown env)"
  have dropped: "ok (drop_and_count w1 q c)" if "same_queues w w1" for w1 q c
    using that by (auto simp: ok_def same_queues_def)
  have unknown: "post (dispatch_mgmt env w1 m q) ok" if "same_queues w w1" for w1 m q
    by (rule post_mono [OF dispatch_outputs]) (use that in \<open>auto simp: ok_def same_queues_def\<close>)
  have known: "post (ingress_known env asm w1 (f_body p ! 0) q) ok"
    if "same_queues w w1" "C" "?link \<noteq> fe_link_unknown env" for w1 q
  proof (cases "link_sa asm ?link")
    case None
    then have "fe_zpi_0 env = f_body p ! 0" using that by (simp add: C_def)
    from zpi_0_outputs [OF this] show ?thesis
      by (rule post_mono) (use that(1) in \<open>simp add: ok_def same_queues_def\<close>)
  next
    case (Some s)
    have "?link \<noteq> 0" using that(3) assms(1) by simp
    then have ?goal using Some that(2) by (auto simp: C_def split: option.splits)
    then show ?thesis by (simp add: ok_def post_def)
  qed
  have step: "post (case r of
       Inl err \<Rightarrow> Inr (drop_and_count w p1 (DecryptError_counter err))
     | Inr _ \<Rightarrow>
         bindR (maybe_capture env Inbound w p1) (\<lambda>(p2, w1).
           if length (f_body p2) < 1 then Inr (drop_and_count w1 p2 F_BadStructure)
           else bindR (s_get 1 (f_sec p2)) (\<lambda>(_, s3).
             if ?link = fe_link_unknown env
             then dispatch_mgmt env w1 (WithAddr sa ia (p2 \<lparr> f_sec := s3 \<rparr>)) (p2 \<lparr> f_sec := s3 \<rparr>)
             else ingress_known env asm w1 (f_body p ! 0) (p2 \<lparr> f_sec := s3 \<rparr>)))) ok"
    if "r = Inr () \<longrightarrow> C" for r :: "DecryptError + unit" and p1
  proof (cases r)
    case (Inl err)
    then show ?thesis by (simp add: dropped)
  next
    case (Inr u)
    then have "C" using that by simp
    show ?thesis
      unfolding Inr sum.case
      by (rule post_bind [OF maybe_capture_queues], clarify)
        (simp add: dropped unknown known [OF _ \<open>C\<close>] post_bind_any split_def)
  qed
  have "post (substrate_ingress env asm w sa ia p) ok"
  proof (cases "length (f_body p) < 1")
    case True
    then show ?thesis by (simp add: substrate_ingress_def Let_def dropped)
  next
    case False
    have sec: "f_sec (p \<lparr> f_md := m \<rparr>) = f_sec p" for m by simp
    show ?thesis
      unfolding substrate_ingress_def Let_def sec if_not_P [OF False]
      by (intro post_bind [OF decrypt_authentic [of env asm "f_sec p" ?link, folded C_def]])
        (simp add: step split_def)
  qed
  then show ?thesis using assms(2,3) by (auto simp: post_def ok_def)
qed

section \<open>A small network\<close>

text \<open>
  Concrete machines for the properties' instances: addresses are their bytes, the hash keeps a
  window of its input, the internet checksum is the sum of the bytes.  Every link uses one
  association whose two directions agree.
\<close>

definition demo_fp_env :: "(bytes, nat) fp_env" where
  "demo_fp_env = \<lparr> fe_cls = demo_cls, fe_comp = demo_comp_env \<lparr> ce_checksum := (\<lambda>b. sum_list (map ucast b)) \<rparr>,
     fe_hash = (\<lambda>b. take 32 (drop 8 b @ replicate 32 0)), fe_keyed_hash = (\<lambda>k b. take 32 (k @ drop 8 b @ replicate 32 0)),
     fe_ia_unspecified = (\<lambda>i. i = 0), fe_km_noise = True, fe_zpi_0 = 0, fe_link_unknown = 0,
     fe_local_actor_link = 1, fe_dock_link = 2, fe_capture_program = None, fe_capture_send = (\<lambda>_. Sent),
     fe_timestamp = replicate 8 0, fe_mgmt_send = (\<lambda>_. Sent), fe_am_send = (\<lambda>_. Sent) \<rparr>"

definition demo_sa :: "nat KmTransportSA" where
  "demo_sa = \<lparr> sa_id = 1, recv_zpis = \<lparr> zpi_encr = 2, zpi_hmac = 3 \<rparr>, send_zpis = \<lparr> zpi_encr = 2, zpi_hmac = 3 \<rparr>,
     send_hmac_key = [7], recv_hmac_key = [7],
     codec = \<lparr> max_overhead = 0, encrypt_transport_stateless = (\<lambda>b _. Inr b), decrypt_transport_stateless = (\<lambda>b _. Inr b) \<rparr>,
     peer_cert = None \<rparr>"

definition demo_v6 :: "u8 \<Rightarrow> bytes" where "demo_v6 b = replicate 15 0 @ [b]"

definition demo_flow :: "L3Type \<Rightarrow> u16 \<Rightarrow> bytes FiveTuple" where
  "demo_flow l3 sp = \<lparr> src_address = (if l3 = Ipv4 then [10, 0, 0, 1] else demo_v6 1),
     dst_address = (if l3 = Ipv4 then [10, 0, 0, 2] else demo_v6 2),
     l3_type = l3, l4_protocol = 17, src_port = sp, dst_port = 80 \<rparr>"

definition demo_link :: "(nat, bytes, nat, nat) LinkPeer" where
  "demo_link = (LinkPeer_new NodeToAdapter demo_addr 3)
     \<lparr> link_ready := True, actor_addresses := [demo_v6 1, demo_v6 2, [10, 0, 0, 1], [10, 0, 0, 2]],
       link_pft := [6 \<mapsto> \<lparr> next_hop = ForwardingEntry 4 9, pep_visa_id = 1 \<rparr>], transport_sa := Some demo_sa \<rparr>"

definition demo_asm :: "PhMode \<Rightarrow> L3Type \<Rightarrow> (bytes, nat, nat, nat, nat, nat) Assembly" where
  "demo_asm m l3 = \<lparr> ph_mode = m,
     peer_table = \<lparr> peer_slab = [1 \<mapsto> demo_link, 3 \<mapsto> demo_link], sa_to_link = [(demo_addr, 3) \<mapsto> 2],
       special_peers = (\<lambda>_. 0) \<rparr>,
     elt = \<lparr> elt_table = [demo_flow l3 1234 \<mapsto> Active \<lparr> pep_compression_mode = 1, pep_tether_id = 7,
         pep_a2a_shared_secret = None, pep_a2a_micv_key = None \<rparr>], elt_pending = Map.empty \<rparr>,
     dlt = [8 \<mapsto> \<lparr> dlt_tc = demo_flow l3 0, dlt_a2a_shared_secret = None, dlt_a2a_micv_key = None \<rparr>] \<rparr>"

definition demo_worker :: "(bytes, nat) FastpathWorker" where
  "demo_worker = \<lparr> worker_index = 0, buffers = [], batch_counters = (\<lambda>_. 0), am_sent = [], mgmt_sent = [],
     captured = [], actor_input_q = [], substrate_egress_q = [] \<rparr>"

text \<open>A transit packet for the node: the header, the stream 7, one byte and the MAC under the link's key.\<close>

definition demo_transit :: "bytes fpkt" where
  "demo_transit = \<lparr> f_md = demo_md, f_sec = \<lparr> head_room = [0],
     content = [3, 0, 0, 0, 0, 0, 7, 99] @ [7, 0, 0, 0, 0, 0, 0, 0], tail_room = [] \<rparr> \<rparr>"

lemma demo_transit_relayed:
  "\<exists>w'. substrate_ingress demo_fp_env (demo_asm PM_Node Ipv6) demo_worker demo_addr 3 demo_transit = Inr w'
     \<and> length (substrate_egress_q w') = 1"
proof -
  let ?r = "substrate_ingress demo_fp_env (demo_asm PM_Node Ipv6) demo_worker demo_addr 3 demo_transit"
  have "\<not> isl ?r" by code_simp
  moreover have "length (substrate_egress_q (projr ?r)) = 1" by code_simp
  ultimately show ?thesis by (cases ?r) auto
qed

theorem packet_conserved_witness:
  "\<exists>w'. substrate_ingress demo_fp_env (demo_asm PM_Node Ipv6) demo_worker demo_addr 3 demo_transit = Inr w'
     \<and> held w' = held demo_worker + 1"
proof -
  obtain w' where "substrate_ingress demo_fp_env (demo_asm PM_Node Ipv6) demo_worker demo_addr 3 demo_transit = Inr w'"
    using demo_transit_relayed by blast
  with packet_conserved [OF disjI1, OF this] show ?thesis by simp
qed

theorem forwarded_is_authentic_witness:
  "\<exists>link s. lookup_peer (peer_table (demo_asm PM_Node Ipv6)) demo_addr 3 = Some link
     \<and> link_sa (demo_asm PM_Node Ipv6) link = Some s \<and> authentic demo_fp_env s (f_body demo_transit)"
proof -
  obtain w' where w': "substrate_ingress demo_fp_env (demo_asm PM_Node Ipv6) demo_worker demo_addr 3 demo_transit = Inr w'"
      "length (substrate_egress_q w') = 1"
    using demo_transit_relayed by blast
  have "fe_link_unknown demo_fp_env = 0" by (simp add: demo_fp_env_def)
  moreover have "substrate_egress_q w' \<noteq> substrate_egress_q demo_worker" using w'(2) by (auto simp: demo_worker_def)
  ultimately show ?thesis using forwarded_is_authentic [OF _ w'(1)] by simp
qed

end
