(* ===== verification/Delivery.thy ===== *)
theory Delivery
  imports Fastpath
begin

unbundle bit_operations_syntax

text \<open>
  The data path from actor to actor: a packet leaves the actor of one adapter, crosses a
  node and reaches the actor of another.  The first sections follow a packet over one link;
  the properties compose the steps of \<open>fastpath.rs\<close> on the three machines.
\<close>

section \<open>One link\<close>

text \<open>The sizes of the \<open>blake3\<close> hashes, and the two links the source's static assertions relate.\<close>

definition env_ok :: "('ip, 'ia) fp_env \<Rightarrow> bool" where
  "env_ok env \<longleftrightarrow>
     (\<forall>k b. length (fe_keyed_hash env k b) = 32) \<and> (\<forall>b. length (fe_hash env b) = 32)
     \<and> adapter_next_hop_link (fe_local_actor_link env) = fe_dock_link env
     \<and> adapter_next_hop_link (fe_dock_link env) = fe_local_actor_link env
     \<and> fe_dock_link env \<noteq> fe_local_actor_link env \<and> fe_link_unknown env = 0"

definition sends_on :: "('ip, 'ia) fp_env \<Rightarrow> ('ip, 'ia, 'c, 'k, 'h, 's) Assembly \<Rightarrow> u32 \<Rightarrow> 'c KmTransportSA \<Rightarrow> bool" where
  "sends_on env asm link sa \<longleftrightarrow>
     (case peer_get (peer_table asm) link of
        None \<Rightarrow> False
      | Some peer \<Rightarrow> transport_sa peer = Some sa \<and> zpi_hmac (send_zpis sa) \<noteq> fe_zpi_0 env
          \<and> \<not> is_unspecified (substrate_addr peer) \<and> \<not> fe_ia_unspecified env (interface_addr peer))"

definition hears_on ::
  "('ip, 'ia) fp_env \<Rightarrow> ('ip, 'ia, 'c, 'k, 'h, 's) Assembly \<Rightarrow> SocketAddr \<Rightarrow> 'ia \<Rightarrow> u32 \<Rightarrow> 'c KmTransportSA \<Rightarrow> bool" where
  "hears_on env asm src ia link sa \<longleftrightarrow>
     lookup_peer (peer_table asm) src ia = Some link \<and> link \<noteq> fe_link_unknown env
     \<and> link_sa asm link = Some sa"

text \<open>Both ends of a link hold the same association: what one sends with, the other receives with.\<close>

definition paired :: "'c KmTransportSA \<Rightarrow> 'c KmTransportSA \<Rightarrow> bool" where
  "paired sender receiver \<longleftrightarrow>
     zpi_hmac (send_zpis sender) = zpi_hmac (recv_zpis receiver)
     \<and> send_hmac_key sender = recv_hmac_key receiver"

definition transit :: "('ip, 'ia) fp_env \<Rightarrow> 'c KmTransportSA \<Rightarrow> u32 \<Rightarrow> bytes \<Rightarrow> bytes" where
  "transit env sa stream payload =
     (let m = [zpi_hmac (send_zpis sa), 0, 0] @ put_word 4 stream @ payload in
      m @ take 8 (fe_keyed_hash env (send_hmac_key sa) m))"

lemma length_put4 [simp]: "length (put_word 4 w) = 4" by simp

lemma is_unspecified_flowinfo [simp]: "is_unspecified (set_flowinfo a x) = is_unspecified a"
  by (cases a) (simp_all add: is_unspecified_def set_flowinfo_def)

lemma no_capture: "fe_capture_program env = None \<Longrightarrow> maybe_capture env dir w p = Inr (p, w)"
  by (simp add: maybe_capture_def maybe_capture_batch_def)

lemma send_on_transit:
  assumes ok: "env_ok env" and cap: "fe_capture_program env = None" and up: "sends_on env asm link sa"
    and "link \<noteq> fe_local_actor_link env"
    and room: "7 \<le> length (head_room (f_sec p))" "8 \<le> length (tail_room (f_sec p))"
  shows "\<exists>q. send_on env asm w link stream p = Inr (w \<lparr> substrate_egress_q := substrate_egress_q w @ [q] \<rparr>)
    \<and> f_body (qe_pkt q) = transit env sa stream (f_body p)"
proof -
  obtain peer where peer: "peer_get (peer_table asm) link = Some peer" "transport_sa peer = Some sa"
      "zpi_hmac (send_zpis sa) \<noteq> fe_zpi_0 env" "\<not> is_unspecified (substrate_addr peer)"
      "\<not> fe_ia_unspecified env (interface_addr peer)"
    using up by (auto simp: sends_on_def split: option.splits)
  define m where "m = [zpi_hmac (send_zpis sa), 0, 0] @ put_word 4 stream @ f_body p"
  have mac: "length (take 8 (fe_keyed_hash env k m)) = 8" for k using ok by (simp add: env_ok_def)
  have "Suc (Suc 0) \<le> length (head_room (f_sec p)) - 4" "Suc 0 \<le> length (head_room (f_sec p)) - 6"
    using room by simp_all
  then show ?thesis
    using assms(4) room peer mac
    apply (simp add: send_on_def substrate_egress_def substrate_egress_common_def s_push_def assertR_def
        PT_TransitPacket_def PT_KeyManagement_def Let_def get_established_transport_association_def
        encap_zpi_def on_sec_def no_capture [OF cap] protect_def encrypt_hmac_def s_put_def fp_sizes
        transit_def m_def)
    apply (intro exI conjI)
     apply (rule refl)
    apply simp
    done
qed

lemma ingress_transit:
  assumes ok: "env_ok env" and cap: "fe_capture_program env = None" and hears: "hears_on env asm src ia link sa"
    and pair: "paired sa' sa" and z: "zpi_hmac (send_zpis sa') \<noteq> fe_zpi_0 env"
    and body: "f_body p = transit env sa' stream payload"
  shows "\<exists>p'. substrate_ingress env asm w src ia p = forward env asm w p' \<and> f_body p' = payload
    \<and> ingress_link_id (f_md p') = link \<and> ingress_stream_id (f_md p') = stream
    \<and> length (head_room (f_sec p')) = length (head_room (f_sec p)) + 7
    \<and> length (tail_room (f_sec p')) = length (tail_room (f_sec p)) + 8"
proof -
  define m where "m = [zpi_hmac (send_zpis sa'), 0, 0] @ put_word 4 stream @ payload"
  define mac where "mac = take 8 (fe_keyed_hash env (send_hmac_key sa') m)"
  have b: "f_body p = m @ mac" using body by (simp add: transit_def m_def mac_def Let_def)
  have mac: "length mac = 8" using ok by (simp add: mac_def env_ok_def)
  have mlen: "length m = 7 + length payload" by (simp add: m_def)
  define s1 where "s1 = (f_sec p) \<lparr> content := m, tail_room := mac @ tail_room (f_sec p) \<rparr>"
  have "decrypt_hmac env (recv_hmac_key sa) (f_sec p) = Inr (Inr (), s1)"
    using pair mac
    by (simp add: decrypt_hmac_def b fp_sizes s_shrink_def assertR_def Let_def s1_def paired_def mac_def [symmetric])
      (simp add: mac_def)
  then have dec: "decrypt env asm (f_body p ! 0) link (f_sec p) = Inr (Inr (), s1)"
    using hears pair
    by (simp add: decrypt_def hears_on_def link_sa_def decrypt_with_sa_def paired_def b m_def split: option.splits)
  have look: "lookup_peer (peer_table asm) src ia = Some link" "link \<noteq> fe_link_unknown env"
    using hears by (simp_all add: hears_on_def)
  have ne: "f_body p \<noteq> []" using b mlen by auto
  have z0: "f_body p ! 0 = zpi_hmac (send_zpis sa')" by (simp add: b m_def)
  have gw: "get_word (put_word 4 stream) = stream" by (simp add: get_put_word)
  define p3 where "p3 = p \<lparr> f_md := f_md p \<lparr> ingress_link_id := link \<rparr>,
      f_sec := s1 \<lparr> head_room := head_room (f_sec p) @ [zpi_hmac (send_zpis sa')],
        content := [0, 0] @ put_word 4 stream @ payload \<rparr> \<rparr>"
  have "substrate_ingress env asm w src ia p = ingress_known env asm w (zpi_hmac (send_zpis sa')) p3"
    using look ne dec z0
    by (simp add: substrate_ingress_def Let_def no_capture [OF cap] s_get_def s_advance_def assertR_def s1_def p3_def m_def)
  also have "\<dots> = forward env asm w (p3 \<lparr> f_md := f_md p3 \<lparr> ingress_stream_id := stream \<rparr>,
      f_sec := s1 \<lparr> head_room := head_room (f_sec p) @ [zpi_hmac (send_zpis sa'), 0, 0] @ put_word 4 stream,
        content := payload \<rparr> \<rparr>)"
    using z
    by (simp add: ingress_known_def Let_def s_get_def s_advance_def assertR_def p3_def gw PT_TransitPacket_def)
  finally show ?thesis
    by (intro exI conjI, assumption) (simp_all add: p3_def s1_def mac)
qed

section \<open>The adapters\<close>

text \<open>What the sending adapter hands to the first link.\<close>

definition sealed :: "('ip, 'ia) fp_env \<Rightarrow> 'ip FiveTuple \<Rightarrow> bytes option \<Rightarrow> bytes \<Rightarrow> bytes" where
  "sealed env tc key bd =
     [0] @ c_packet (fe_comp env) (mode_of (fe_comp env) tc) (l3_type tc) (l4_protocol tc) bd @ a2a_micv env key bd"

lemma post_classify_sealed:
  assumes ok: "env_ok env" and ft: "l3_type (md_five_tuple (f_md p)) = l3_type tc"
      "l4_protocol (md_five_tuple (f_md p)) = l4_protocol tc"
    and own: "ph_mode asm = PM_Adapter \<longrightarrow> asm_owns_address env asm (src_address (md_five_tuple (f_md p)))"
    and elt: "elt_table (elt asm) (md_five_tuple (f_md p)) = Some (Active pep)"
      "pep_compression_mode pep = mode_of (fe_comp env) tc"
    and cmp: "compressible (l3_type tc) (l4_protocol tc) (f_body p)" "l3_type tc = Ipv4 \<or> l3_type tc = Ipv6"
    and room: "16 \<le> length (tail_room (f_sec p))"
  shows "\<exists>p'. actor_output_post_classify env asm w p b = forward env asm w p'
    \<and> f_body p' = sealed env tc (pep_a2a_micv_key pep) (f_body p)
    \<and> f_md p' = f_md p \<lparr> ingress_stream_id := pep_tether_id pep \<rparr>
    \<and> 7 \<le> length (head_room (f_sec p')) \<and> 8 \<le> length (tail_room (f_sec p'))"
proof -
  let ?c = "c_packet (fe_comp env) (mode_of (fe_comp env) tc) (l3_type tc) (l4_protocol tc) (f_body p)"
  let ?mac = "a2a_micv env (pep_a2a_micv_key pep) (f_body p)"
  obtain s1 where s1: "compress (fe_comp env) (mode_of (fe_comp env) tc) (l3_type tc) (l4_protocol tc) (f_sec p) = Inr s1"
      "sees s1 (length (head_room (f_sec p)) + length (f_body p)) ?c (tail_room (f_sec p))"
    using does_compress [OF sees_self cmp(1)] by (auto simp: does_def)
  have mac: "length ?mac = 8" using ok by (simp add: a2a_micv_def env_ok_def fp_sizes split: option.splits)
  have head: "13 \<le> length (head_room s1)" and c: "content s1 = ?c" and t: "tail_room s1 = tail_room (f_sec p)"
    using s1(2) c_packet_length(1) [OF cmp, of "fe_comp env" "mode_of (fe_comp env) tc"]
    by (auto simp: sees_def split: if_splits)
  define s3 where "s3 = s1 \<lparr> head_room := take (length (head_room s1) - 1) (head_room s1),
      content := [0] @ ?c @ ?mac, tail_room := drop 8 (tail_room (f_sec p)) \<rparr>"
  define p' where "p' = p \<lparr> f_md := f_md p \<lparr> ingress_stream_id := pep_tether_id pep \<rparr>, f_sec := s3 \<rparr>"
  have put: "s_put s1 ?mac = Inr (s1 \<lparr> content := ?c @ ?mac, tail_room := drop 8 (tail_room (f_sec p)) \<rparr>)"
    using room mac c t by (simp add: s_put_def)
  have push: "s_push (s1 \<lparr> content := ?c @ ?mac, tail_room := drop 8 (tail_room (f_sec p)) \<rparr>) [0] = Inr s3"
    using head by (simp add: s_push_def assertR_def s3_def)
  have "actor_output_post_classify env asm w p b = forward env asm w p'"
    using own by (auto simp: actor_output_post_classify_def Let_def elt ft s1(1) put push p'_def)
  moreover have "f_body p' = sealed env tc (pep_a2a_micv_key pep) (f_body p)"
    by (simp add: p'_def s3_def sealed_def)
  moreover have "7 \<le> length (head_room (f_sec p'))" "8 \<le> length (tail_room (f_sec p'))"
      "f_md p' = f_md p \<lparr> ingress_stream_id := pep_tether_id pep \<rparr>"
    using head room by (simp_all add: p'_def s3_def)
  ultimately show ?thesis by blast
qed

lemma actor_input_sealed:
  assumes ok: "env_ok env" and body: "f_body p = sealed env tc key bd"
    and dlt: "Dlt_get (dlt asm) stream = Some pep" "dlt_tc pep = tc" "dlt_a2a_micv_key pep = key"
    and own: "ph_mode asm = PM_Adapter \<longrightarrow> asm_owns_address env asm (dst_address tc)"
    and ex: "\<And>s. content s = c_packet (fe_comp env) (mode_of (fe_comp env) tc) (l3_type tc) (l4_protocol tc) bd
      \<Longrightarrow> length (head_room s) = Suc (length (head_room (f_sec p)))
      \<Longrightarrow> \<exists>s'. expand (fe_comp env) (mode_of (fe_comp env) tc) tc s = Inr s' \<and> content s' = bd'"
  shows "\<exists>q. f_body q = bd' \<and> f_md q = f_md p \<and> actor_input env asm w stream p =
    (if a2a_micv env key bd' = a2a_micv env key bd then Inr (w \<lparr> actor_input_q := actor_input_q w @ [q] \<rparr>)
     else Inr (drop_and_count w q F_MicvFailure))"
proof -
  let ?c = "c_packet (fe_comp env) (mode_of (fe_comp env) tc) (l3_type tc) (l4_protocol tc) bd"
  let ?mac = "a2a_micv env key bd"
  have mac: "length ?mac = 8" using ok by (simp add: a2a_micv_def env_ok_def fp_sizes split: option.splits)
  have b: "f_body p = 0 # ?c @ ?mac" using body by (simp add: sealed_def)
  define s1 where "s1 = (f_sec p) \<lparr> head_room := head_room (f_sec p) @ [0], content := ?c @ ?mac \<rparr>"
  define s2 where "s2 = s1 \<lparr> content := ?c, tail_room := ?mac @ tail_room (f_sec p) \<rparr>"
  have c1: "content s1 = ?c @ ?mac" by (simp add: s1_def)
  have get: "s_get 1 (f_sec p) = Inr ([0], s1)"
    by (simp add: s_get_def s_advance_def assertR_def b s1_def)
  have shrink: "s_shrink s1 8 = Inr s2"
    by (simp add: s_shrink_def assertR_def s1_def s2_def mac Let_def)
  obtain s3 where s3: "expand (fe_comp env) (mode_of (fe_comp env) tc) tc s2 = Inr s3" "content s3 = bd'"
    using ex [of s2] by (auto simp: s2_def s1_def)
  have "actor_input env asm w stream p =
    (if a2a_micv env key bd' = ?mac then Inr (w \<lparr> actor_input_q := actor_input_q w @ [p \<lparr> f_sec := s3 \<rparr>] \<rparr>)
     else Inr (drop_and_count w (p \<lparr> f_sec := s3 \<rparr>) F_MicvFailure))"
    using own b mac c1
    by (auto simp: actor_input_def get [unfolded One_nat_def] fp_sizes shrink dlt s3 Let_def)
  then show ?thesis using s3(2) by (intro exI [of _ "p \<lparr> f_sec := s3 \<rparr>"]) simp
qed

section \<open>From actor to actor\<close>

text \<open>
  The state of the three machines in which a tether is up: the sending adapter holds an active
  entry for the flow, the node routes the stream of one link to a stream of the other, the
  receiving adapter holds the entry of that stream, and each link has an association.
\<close>

record ('ip, 'ia, 'c, 'k, 'h, 's) tether =
  t_flow :: "'ip FiveTuple"
  t_tc :: "'ip FiveTuple"
  t_from :: "('ip, 'ia, 'c, 'k, 'h, 's) Assembly"
  t_node :: "('ip, 'ia, 'c, 'k, 'h, 's) Assembly"
  t_to :: "('ip, 'ia, 'c, 'k, 'h, 's) Assembly"
  t_key :: "bytes option"
  t_stream :: u32
  t_in_link :: u32
  t_out_link :: u32
  t_out_stream :: u32
  t_at_node :: "SocketAddr \<times> 'ia"
  t_at_to :: "SocketAddr \<times> 'ia"
  t_sas :: "'c KmTransportSA \<times> 'c KmTransportSA \<times> 'c KmTransportSA \<times> 'c KmTransportSA"

definition links_up :: "('ip, 'ia) fp_env \<Rightarrow> ('ip, 'ia, 'c, 'k, 'h, 's) tether \<Rightarrow> bool" where
  "links_up env t \<longleftrightarrow>
     (case t_sas t of (sa1, sa2, sa3, sa4) \<Rightarrow>
        sends_on env (t_from t) (fe_dock_link env) sa1 \<and> paired sa1 sa2
        \<and> hears_on env (t_node t) (fst (t_at_node t)) (snd (t_at_node t)) (t_in_link t) sa2
        \<and> sends_on env (t_node t) (t_out_link t) sa3 \<and> paired sa3 sa4
        \<and> hears_on env (t_to t) (fst (t_at_to t)) (snd (t_at_to t)) (fe_dock_link env) sa4)"

definition routed :: "('ip, 'ia) fp_env \<Rightarrow> ('ip, 'ia, 'c, 'k, 'h, 's) tether \<Rightarrow> bool" where
  "routed env t \<longleftrightarrow>
     ph_mode (t_from t) = PM_Adapter \<and> ph_mode (t_node t) = PM_Node \<and> ph_mode (t_to t) = PM_Adapter
     \<and> t_out_link t \<noteq> fe_local_actor_link env
     \<and> (case peer_get (peer_table (t_node t)) (t_in_link t) of
          None \<Rightarrow> False
        | Some peer \<Rightarrow>
            (case Pft_get (link_pft peer) (t_stream t) of
               None \<Rightarrow> False
             | Some pep \<Rightarrow> fe_link (next_hop pep) = t_out_link t \<and> fe_stream (next_hop pep) = t_out_stream t))"

definition sender_bound :: "('ip, 'ia) fp_env \<Rightarrow> ('ip, 'ia, 'c, 'k, 'h, 's) tether \<Rightarrow> bool" where
  "sender_bound env t \<longleftrightarrow>
     asm_owns_address env (t_from t) (src_address (t_flow t))
     \<and> l3_type (t_flow t) = l3_type (t_tc t) \<and> l4_protocol (t_flow t) = l4_protocol (t_tc t)
     \<and> (case elt_table (elt (t_from t)) (t_flow t) of
          Some (Active pep) \<Rightarrow> pep_compression_mode pep = mode_of (fe_comp env) (t_tc t)
            \<and> pep_tether_id pep = t_stream t \<and> pep_a2a_micv_key pep = t_key t
        | _ \<Rightarrow> False)"

definition receiver_bound :: "('ip, 'ia) fp_env \<Rightarrow> ('ip, 'ia, 'c, 'k, 'h, 's) tether \<Rightarrow> bool" where
  "receiver_bound env t \<longleftrightarrow>
     asm_owns_address env (t_to t) (dst_address (t_tc t))
     \<and> (case Dlt_get (dlt (t_to t)) (t_out_stream t) of
          None \<Rightarrow> False
        | Some pep \<Rightarrow> dlt_tc pep = t_tc t \<and> dlt_a2a_micv_key pep = t_key t)"

definition tether_up :: "('ip, 'ia) fp_env \<Rightarrow> ('ip, 'ia, 'c, 'k, 'h, 's) tether \<Rightarrow> bool" where
  "tether_up env t \<longleftrightarrow> env_ok env \<and> fe_capture_program env = None
     \<and> links_up env t \<and> routed env t \<and> sender_bound env t \<and> receiver_bound env t"

text \<open>A packet as it arrives at a machine: the bytes that were sent, in a buffer of the receiver's.\<close>

definition received :: "'ip PacketMetadata \<Rightarrow> bytes \<Rightarrow> bytes \<Rightarrow> bytes \<Rightarrow> 'ip fpkt" where
  "received md before behind bs =
     \<lparr> f_md = md, f_sec = \<lparr> head_room = before, content = bs, tail_room = behind \<rparr> \<rparr>"

abbreviation sends :: "('ip, 'ia) FastpathWorker \<Rightarrow> ('ip, 'ia) QueuedEgressPacket \<Rightarrow> ('ip, 'ia) FastpathWorker" where
  "sends w q \<equiv> w \<lparr> substrate_egress_q := substrate_egress_q w @ [q] \<rparr>"

text \<open>The node relays what an adapter protected to the actor input of the other adapter.\<close>

lemma relayed:
  assumes up: "tether_up env t" and sas: "t_sas t = (sa1, sa2, sa3, sa4)"
    and r1: "f_body r1 = transit env sa1 (t_stream t) payload"
  shows "\<exists>q2 p3. substrate_ingress env (t_node t) w1 (fst (t_at_node t)) (snd (t_at_node t)) r1 = Inr (sends w1 q2)
    \<and> substrate_ingress env (t_to t) w2 (fst (t_at_to t)) (snd (t_at_to t)) (received md2 h2 t2 (f_body (qe_pkt q2)))
        = actor_input env (t_to t) w2 (t_out_stream t) p3
    \<and> f_body p3 = payload \<and> length (head_room (f_sec p3)) = length h2 + 7"
proof -
  have ok: "env_ok env" "fe_capture_program env = None" and routed: "routed env t"
    and l1: "sends_on env (t_from t) (fe_dock_link env) sa1" "paired sa1 sa2"
      "hears_on env (t_node t) (fst (t_at_node t)) (snd (t_at_node t)) (t_in_link t) sa2"
    and l2: "sends_on env (t_node t) (t_out_link t) sa3" "paired sa3 sa4"
      "hears_on env (t_to t) (fst (t_at_to t)) (snd (t_at_to t)) (fe_dock_link env) sa4"
    using up by (simp_all add: tether_up_def links_up_def sas)
  have z: "zpi_hmac (send_zpis sa1) \<noteq> fe_zpi_0 env" "zpi_hmac (send_zpis sa3) \<noteq> fe_zpi_0 env"
    using l1(1) l2(1) by (auto simp: sends_on_def split: option.splits)
  have out: "t_out_link t \<noteq> fe_local_actor_link env" using routed by (simp add: routed_def)
  from ingress_transit [OF ok l1(3,2) z(1) r1, of w1] obtain p1 where
    p1: "substrate_ingress env (t_node t) w1 (fst (t_at_node t)) (snd (t_at_node t)) r1 = forward env (t_node t) w1 p1"
      "f_body p1 = payload" "ingress_link_id (f_md p1) = t_in_link t" "ingress_stream_id (f_md p1) = t_stream t"
      "7 \<le> length (head_room (f_sec p1))" "8 \<le> length (tail_room (f_sec p1))"
    by auto
  have "forward env (t_node t) w1 p1 = send_on env (t_node t) w1 (t_out_link t) (t_out_stream t) p1"
    using routed p1(3,4) by (auto simp: forward_def routed_def split: option.splits)
  then obtain q2 where q2: "forward env (t_node t) w1 p1 = Inr (sends w1 q2)"
      "f_body (qe_pkt q2) = transit env sa3 (t_out_stream t) (f_body p1)"
    using send_on_transit [OF ok l2(1) out p1(5,6)] by metis
  let ?r2 = "received md2 h2 t2 (f_body (qe_pkt q2))"
  have "f_body ?r2 = transit env sa3 (t_out_stream t) (f_body p1)" by (simp add: received_def q2(2))
  from ingress_transit [OF ok l2(3,2) z(2) this, of w2] obtain p3 where
    p3: "substrate_ingress env (t_to t) w2 (fst (t_at_to t)) (snd (t_at_to t)) ?r2 = forward env (t_to t) w2 p3"
      "f_body p3 = payload" "ingress_link_id (f_md p3) = fe_dock_link env" "ingress_stream_id (f_md p3) = t_out_stream t"
      "length (head_room (f_sec p3)) = length h2 + 7"
    by (auto simp: p1(2) received_def)
  have "forward env (t_to t) w2 p3 = actor_input env (t_to t) w2 (t_out_stream t) p3"
    using ok(1) routed p3(3,4) by (simp add: forward_def routed_def env_ok_def send_on_def)
  then show ?thesis using p1(1) q2(1) p3 by metis
qed

lemma carried:
  assumes up: "tether_up env t"
    and p: "ingress_link_id (f_md p) = fe_local_actor_link env" "ingress_stream_id (f_md p) = t_stream t"
      "7 \<le> length (head_room (f_sec p))" "8 \<le> length (tail_room (f_sec p))"
  shows "\<exists>q1 q2 p3. forward env (t_from t) w p = Inr (sends w q1)
    \<and> substrate_ingress env (t_node t) w1 (fst (t_at_node t)) (snd (t_at_node t)) (received md1 h1 t1 (f_body (qe_pkt q1)))
        = Inr (sends w1 q2)
    \<and> substrate_ingress env (t_to t) w2 (fst (t_at_to t)) (snd (t_at_to t)) (received md2 h2 t2 (f_body (qe_pkt q2)))
        = actor_input env (t_to t) w2 (t_out_stream t) p3
    \<and> f_body p3 = f_body p \<and> length (head_room (f_sec p3)) = length h2 + 7"
proof -
  obtain sa1 sa2 sa3 sa4 where sas: "t_sas t = (sa1, sa2, sa3, sa4)" by (cases "t_sas t") auto
  have ok: "env_ok env" "fe_capture_program env = None" and routed: "routed env t"
    and l1: "sends_on env (t_from t) (fe_dock_link env) sa1"
    using up by (simp_all add: tether_up_def links_up_def sas)
  have dock: "fe_dock_link env \<noteq> fe_local_actor_link env" using ok(1) by (simp add: env_ok_def)
  have "forward env (t_from t) w p = send_on env (t_from t) w (fe_dock_link env) (t_stream t) p"
    using ok(1) routed p by (simp add: forward_def routed_def env_ok_def)
  then obtain q1 where q1: "forward env (t_from t) w p = Inr (sends w q1)"
      "f_body (qe_pkt q1) = transit env sa1 (t_stream t) (f_body p)"
    using send_on_transit [OF ok l1(1) dock p(3,4)] by metis
  have "f_body (received md1 h1 t1 (f_body (qe_pkt q1))) = transit env sa1 (t_stream t) (f_body p)"
    by (simp add: received_def q1(2))
  from relayed [OF up sas this, of w1 w2 md2 h2 t2] q1(1) show ?thesis by blast
qed

text \<open>The packet after the hop count is decremented, for the two versions of IP.\<close>

definition hop_index :: "L3Type \<Rightarrow> nat" where
  "hop_index l3 = (if l3 = Ipv4 then 8 else 7)"

definition one_hop_less :: "L3Type \<Rightarrow> bytes \<Rightarrow> bytes" where
  "one_hop_less l3 bd = bd [hop_index l3 := bd ! hop_index l3 - 1]"

lemma decrement_at_hops:
  assumes "n \<le> length (f_body p)" and "i < n" and "1 < f_body p ! i"
  shows "decrement_at p n i = Inr (False, p \<lparr> f_sec := (f_sec p) \<lparr> content := (f_body p) [i := f_body p ! i - 1] \<rparr> \<rparr>)"
proof -
  have "0 < f_body p ! i" "f_body p ! i \<noteq> 1"
    using assms(3) by (auto simp: word_less_nat_alt)
  moreover have "take i (f_body p) @ x # drop (Suc i) (f_body p) = (f_body p) [i := x]" for x
    using assms(1,2) by (simp add: upd_conv_take_nth_drop)
  ultimately show ?thesis
    using assms by (simp add: decrement_at_def Let_def s_write_def)
qed

lemma output_hops:
  assumes cls: "classify (fe_cls env) (md_five_tuple (f_md p)) (f_body p) = Inr (Inr CR_OK, flow)"
    and l3: "l3_type flow = Ipv4 \<or> l3_type flow = Ipv6"
    and len: "compressible (l3_type flow) pr (f_body p)"
    and hops: "1 < f_body p ! hop_index (l3_type flow)"
  shows "\<exists>p1. actor_output env asm w p = actor_output_post_classify env asm w p1 True
    \<and> md_five_tuple (f_md p1) = flow \<and> ingress_link_id (f_md p1) = fe_local_actor_link env
    \<and> f_body p1 = one_hop_less (l3_type flow) (f_body p) \<and> tail_room (f_sec p1) = tail_room (f_sec p)"
proof -
  define md where "md = f_md p \<lparr> ingress_link_id := fe_local_actor_link env,
    ingress_lane_id := of_nat (worker_index w), md_five_tuple := flow \<rparr>"
  define p1 where "p1 = p \<lparr> f_md := md, f_sec := (f_sec p) \<lparr> content := one_hop_less (l3_type flow) (f_body p) \<rparr> \<rparr>"
  have "decrement_ttl (p \<lparr> f_md := md \<rparr>) = Inr (False, p1)"
    using l3 len hops decrement_at_hops [of 20 "p \<lparr> f_md := md \<rparr>" 8] decrement_at_hops [of 40 "p \<lparr> f_md := md \<rparr>" 7]
    by (auto simp: decrement_ttl_def md_def p1_def hop_index_def one_hop_less_def compressible_def)
  then have "actor_output env asm w p = actor_output_post_classify env asm w p1 True"
    using cls by (simp add: actor_output_def Let_def md_def)
  then show ?thesis by (intro exI [of _ p1]) (simp add: p1_def md_def)
qed

text \<open>The whole way: what the receiving adapter makes of the packet is the question whether expansion
  gives back the bytes the integrity check was computed over.\<close>

lemma actor_to_actor:
  assumes up: "tether_up env t"
    and cls: "classify (fe_cls env) (md_five_tuple (f_md p)) (f_body p) = Inr (Inr CR_OK, t_flow t)"
    and l3: "l3_type (t_tc t) = Ipv4 \<or> l3_type (t_tc t) = Ipv6"
    and hops: "1 < f_body p ! hop_index (l3_type (t_tc t))"
    and len: "compressible (l3_type (t_tc t)) (l4_protocol (t_tc t)) (f_body p)"
    and room: "16 \<le> length (tail_room (f_sec p))" "DEFAULT_MESSAGE_HEADROOM \<le> length h2"
    and bd: "bd = one_hop_less (l3_type (t_tc t)) (f_body p)"
    and same: "c_packet (fe_comp env) (mode_of (fe_comp env) (t_tc t)) (l3_type (t_tc t)) (l4_protocol (t_tc t)) bd
      = c_packet (fe_comp env) (mode_of (fe_comp env) (t_tc t)) (l3_type (t_tc t)) (l4_protocol (t_tc t)) bd'"
    and canon: "flags_ok (fe_comp env)" "canonical (fe_comp env) (t_tc t) bd'" "length bd' = length bd"
      "\<And>b. length (ce_l4_checksum (fe_comp env) (l3_type (t_tc t)) (src_address (t_tc t)) (dst_address (t_tc t)) TCP b) = 2"
  shows "\<exists>q1 q2 q3. actor_output env (t_from t) w p = Inr (sends w q1)
    \<and> substrate_ingress env (t_node t) w1 (fst (t_at_node t)) (snd (t_at_node t)) (received md1 h1 t1 (f_body (qe_pkt q1)))
        = Inr (sends w1 q2)
    \<and> substrate_ingress env (t_to t) w2 (fst (t_at_to t)) (snd (t_at_to t)) (received md2 h2 t2 (f_body (qe_pkt q2)))
        = Inr (if a2a_micv env (t_key t) bd' = a2a_micv env (t_key t) bd
               then w2 \<lparr> actor_input_q := actor_input_q w2 @ [q3] \<rparr> else drop_and_count w2 q3 F_MicvFailure)
    \<and> f_body q3 = bd'"
proof -
  have ok: "env_ok env" and sb: "sender_bound env t" and rb: "receiver_bound env t"
    using up by (simp_all add: tether_up_def)
  have fl: "l3_type (t_flow t) = l3_type (t_tc t)" "l4_protocol (t_flow t) = l4_protocol (t_tc t)"
    and own: "asm_owns_address env (t_from t) (src_address (t_flow t))"
    using sb by (simp_all add: sender_bound_def)
  obtain pep where pep: "elt_table (elt (t_from t)) (t_flow t) = Some (Active pep)"
      "pep_compression_mode pep = mode_of (fe_comp env) (t_tc t)" "pep_tether_id pep = t_stream t"
      "pep_a2a_micv_key pep = t_key t"
    using sb by (auto simp: sender_bound_def split: option.splits EltEntry.splits)
  obtain dpep where dpep: "Dlt_get (dlt (t_to t)) (t_out_stream t) = Some dpep" "dlt_tc dpep = t_tc t"
      "dlt_a2a_micv_key dpep = t_key t" "asm_owns_address env (t_to t) (dst_address (t_tc t))"
    using rb by (auto simp: receiver_bound_def split: option.splits)
  obtain p1 where p1: "actor_output env (t_from t) w p = actor_output_post_classify env (t_from t) w p1 True"
      "md_five_tuple (f_md p1) = t_flow t" "ingress_link_id (f_md p1) = fe_local_actor_link env"
      "f_body p1 = bd" "tail_room (f_sec p1) = tail_room (f_sec p)"
    using output_hops [OF cls, of "l4_protocol (t_tc t)" "t_from t" w] l3 hops len by (auto simp: fl bd)
  have cmp: "compressible (l3_type (t_tc t)) (l4_protocol (t_tc t)) (f_body p1)"
    using canonical_compressible [OF canon(2)] canon(3)
    by (simp add: p1(4) compressible_def l4_long_def split: L3Type.splits)
  obtain p2 where p2: "actor_output_post_classify env (t_from t) w p1 True = forward env (t_from t) w p2"
      "f_body p2 = sealed env (t_tc t) (t_key t) bd" "f_md p2 = f_md p1 \<lparr> ingress_stream_id := t_stream t \<rparr>"
      "7 \<le> length (head_room (f_sec p2))" "8 \<le> length (tail_room (f_sec p2))"
    using post_classify_sealed [OF ok, of p1 "t_tc t" "t_from t" pep w True] own pep cmp l3 room(1)
    by (auto simp: p1 fl)
  have m2: "ingress_link_id (f_md p2) = fe_local_actor_link env" "ingress_stream_id (f_md p2) = t_stream t"
    by (simp_all add: p2(3) p1(3))
  obtain q1 q2 p3 where q: "forward env (t_from t) w p2 = Inr (sends w q1)"
      "substrate_ingress env (t_node t) w1 (fst (t_at_node t)) (snd (t_at_node t)) (received md1 h1 t1 (f_body (qe_pkt q1)))
        = Inr (sends w1 q2)"
      "substrate_ingress env (t_to t) w2 (fst (t_at_to t)) (snd (t_at_to t)) (received md2 h2 t2 (f_body (qe_pkt q2)))
        = actor_input env (t_to t) w2 (t_out_stream t) p3"
      "f_body p3 = f_body p2" "length (head_room (f_sec p3)) = length h2 + 7"
    using carried [OF up m2 p2(4,5), of w w1 md1 h1 t1 w2 md2 h2 t2] by blast
  have "\<exists>s'. expand (fe_comp env) (mode_of (fe_comp env) (t_tc t)) (t_tc t) s = Inr s' \<and> content s' = bd'"
    if "content s = c_packet (fe_comp env) (mode_of (fe_comp env) (t_tc t)) (l3_type (t_tc t)) (l4_protocol (t_tc t)) bd"
      "length (head_room s) = Suc (length (head_room (f_sec p3)))" for s
  proof -
    let ?f = "length (head_room s) + length (content s)"
    have "length bd' \<le> ?f"
      using c_packet_length(2) [OF canonical_compressible [OF canon(2)] l3, of "fe_comp env"
          "mode_of (fe_comp env) (t_tc t)"] that q(5) room(2)
      by (simp add: same DEFAULT_MESSAGE_HEADROOM_def)
    moreover have "sees s ?f (c_packet (fe_comp env) (mode_of (fe_comp env) (t_tc t)) (l3_type (t_tc t))
        (l4_protocol (t_tc t)) bd') (tail_room s)"
      using that(1) by (simp add: sees_def same)
    ultimately show ?thesis
      using does_expand [OF _ _ canon(1,2,4)] by (fastforce simp: does_def sees_def)
  qed
  from actor_input_sealed [OF ok q(4) [unfolded p2(2)] dpep(1-3) _ this, of w2] dpep(4)
  show ?thesis using p1(1) p2(1) q by fastforce
qed

section \<open>Properties\<close>

lemma canonical_hop: "canonical_ipv6 env tc bd \<Longrightarrow> canonical_ipv6 env tc (bd [7 := x])"
  by (auto simp: canonical_ipv6_def drop_update_swap drop_update_cancel)

text \<open>C2 (functional). A packet crosses the network: when a tether is up, an IPv6 packet in canonical form with a hop limit
above 1 leaves the sending adapter, passes the node and is queued for the receiving actor with the bytes it was sent
with, the hop limit one less; the three workers do nothing else with it.  Canonical is a packet without extension
headers, whose payload length and, for UDP, datagram length are its own, whose TCP checksum is right, and whose
ports are those of the tether's classifier where it names them.\<close>

theorem ipv6_delivered:
  assumes "tether_up env t" and "flags_ok (fe_comp env)"
    and "classify (fe_cls env) (md_five_tuple (f_md p)) (f_body p) = Inr (Inr CR_OK, t_flow t)"
    and "l3_type (t_tc t) = Ipv6" and "canonical_ipv6 (fe_comp env) (t_tc t) (f_body p)"
    and "1 < f_body p ! 7"
    and "\<And>b. length (ce_l4_checksum (fe_comp env) Ipv6 (src_address (t_tc t)) (dst_address (t_tc t)) TCP b) = 2"
    and "16 \<le> length (tail_room (f_sec p))" and "DEFAULT_MESSAGE_HEADROOM \<le> length h2"
  shows "\<exists>q1 q2 q3. actor_output env (t_from t) w p = Inr (w \<lparr> substrate_egress_q := substrate_egress_q w @ [q1] \<rparr>)
    \<and> substrate_ingress env (t_node t) w1 (fst (t_at_node t)) (snd (t_at_node t)) (received md1 h1 t1 (f_body (qe_pkt q1)))
        = Inr (w1 \<lparr> substrate_egress_q := substrate_egress_q w1 @ [q2] \<rparr>)
    \<and> substrate_ingress env (t_to t) w2 (fst (t_at_to t)) (snd (t_at_to t)) (received md2 h2 t2 (f_body (qe_pkt q2)))
        = Inr (w2 \<lparr> actor_input_q := actor_input_q w2 @ [q3] \<rparr>)
    \<and> f_body q3 = (f_body p) [7 := f_body p ! 7 - 1]"
proof -
  let ?bd = "one_hop_less (l3_type (t_tc t)) (f_body p)"
  have "canonical (fe_comp env) (t_tc t) ?bd" "canonical (fe_comp env) (t_tc t) (f_body p)"
    using assms(4,5) canonical_hop by (simp_all add: canonical_def one_hop_less_def hop_index_def)
  from actor_to_actor [OF assms(1,3) _ _ canonical_compressible [OF this(2)] assms(8,9) refl refl assms(2) this(1) refl,
      of w w1 md1 h1 t1 w2 md2 t2]
  show ?thesis using assms(4,6,7) by (simp add: one_hop_less_def hop_index_def)
qed

definition refreshed :: "'ip comp_env \<Rightarrow> bytes \<Rightarrow> bytes" where
  "refreshed env bd =
     take 10 bd @ put_word 2 (ce_checksum env (take 10 bd @ [0, 0] @ take 8 (drop 12 bd))) @ drop 12 bd"

lemma length_refreshed: "20 \<le> length bd \<Longrightarrow> length (refreshed env bd) = length bd"
  by (simp add: refreshed_def)

lemma c_ipv4_refreshed:
  assumes "20 \<le> length bd"
  shows "c_ipv4 env m pr (refreshed env' bd) = c_ipv4 env m pr bd"
  using assms by (simp add: c_ipv4_def refreshed_def frag_word_def drop_take nth_append min_def Let_def)

lemma canonical_refreshed:
  assumes "canonical_ipv4 env tc bd"
  shows "canonical_ipv4 env tc (refreshed env (bd [8 := x]))"
  using assms
  by (auto simp: canonical_ipv4_def refreshed_def drop_update_swap drop_update_cancel take_update_cancel drop_take
      nth_append min_def)

text \<open>What the code relies on of the checksum of the \<open>ip4sum\<close> crate: it is that of RFC 1071, the number that makes
  the sum of the 16-bit words of a header zero in one's complement arithmetic.\<close>

fun inet_sum :: "bytes \<Rightarrow> int" where
  "inet_sum (a # b # bs) = 256 * uint a + uint b + inet_sum bs"
| "inet_sum [a] = 256 * uint a"
| "inet_sum [] = 0"

definition rfc1071 :: "(bytes \<Rightarrow> u16) \<Rightarrow> bool" where
  "rfc1071 checksum \<longleftrightarrow> (\<forall>h. length h = 20 \<longrightarrow> (uint (checksum h) + inet_sum h) mod 65535 = 0)"

lemma inet_sum_hop:
  assumes "length h = 20" and "0 < h ! 8"
  shows "inet_sum h = inet_sum (h [8 := h ! 8 - 1]) + 256"
proof -
  obtain a0 a1 a2 a3 a4 a5 a6 a7 a8 hs where h: "h = a0 # a1 # a2 # a3 # a4 # a5 # a6 # a7 # a8 # hs"
    using assms(1) by (auto simp: length_Suc_conv numeral_eq_Suc)
  obtain a9 hs' where hs: "hs = a9 # hs'" using assms(1) h by (cases hs) auto
  have "1 \<le> uint a8" using assms(2) by (simp add: h word_less_def)
  then have "uint (a8 - 1) = uint a8 - 1" by (simp add: uint_sub_if')
  then show ?thesis by (simp add: h hs)
qed

lemma get_put_word2: "get_word (put_word 2 (w :: u16)) = w"
  by (rule get_put_word) simp

text \<open>The receiver's header has another checksum than the one the integrity value was computed over.\<close>

lemma refreshed_differs:
  assumes "rfc1071 (ce_checksum env)" and "canonical_ipv4 env tc bd" and "0 < bd ! 8"
  shows "refreshed env (bd [8 := bd ! 8 - 1]) \<noteq> bd [8 := bd ! 8 - 1]"
proof
  let ?hdr = "\<lambda>b. take 10 b @ [0, 0] @ take 8 (drop 12 b)" and ?bd = "bd [8 := bd ! 8 - 1]"
  assume same: "refreshed env ?bd = ?bd"
  have len: "20 \<le> length bd" using assms(2) by (simp add: canonical_ipv4_def)
  have "take 2 (drop 10 ?bd) = put_word 2 (ce_checksum env (?hdr ?bd))"
  proof -
    have "take 2 (drop 10 (refreshed env ?bd)) = put_word 2 (ce_checksum env (?hdr ?bd))"
      using len by (simp add: refreshed_def)
    then show ?thesis by (simp only: same)
  qed
  moreover have "take 2 (drop 10 ?bd) = put_word 2 (ce_checksum env (?hdr bd))"
    using assms(2) by (simp add: canonical_ipv4_def drop_update_cancel)
  ultimately have "put_word 2 (ce_checksum env (?hdr ?bd)) = put_word 2 (ce_checksum env (?hdr bd))" by simp
  then have cs: "ce_checksum env (?hdr ?bd) = ce_checksum env (?hdr bd)"
    by (metis get_put_word2)
  have h: "length (?hdr bd) = 20" "?hdr bd ! 8 = bd ! 8" "?hdr ?bd = (?hdr bd) [8 := bd ! 8 - 1]"
    using len by (simp_all add: nth_append list_update_append drop_update_cancel take_update_swap)
  then have "inet_sum (?hdr bd) = inet_sum (?hdr ?bd) + 256"
    using inet_sum_hop [of "?hdr bd"] assms(3) by simp
  moreover have "(uint (ce_checksum env (?hdr bd)) + inet_sum (?hdr bd)) mod 65535 = 0"
    "(uint (ce_checksum env (?hdr bd)) + inet_sum (?hdr ?bd)) mod 65535 = 0"
    using assms(1) h len cs unfolding rfc1071_def by (metis length_list_update)+
  ultimately have "65535 dvd (uint (ce_checksum env (?hdr bd)) + inet_sum (?hdr ?bd)) + 256"
    "65535 dvd uint (ce_checksum env (?hdr bd)) + inet_sum (?hdr ?bd)"
    by (simp_all only: add.assoc mod_eq_0_iff_dvd)
  then have "(65535 :: int) dvd 256" using dvd_add_right_iff by blast
  then show False by simp
qed

text \<open>C33 (error). An IPv4 packet does not cross the network: the sending adapter decrements the time to live and leaves
the header checksum as it was, and computes the integrity value over that packet; the receiving adapter rebuilds the
header with the right checksum, which differs, and computes the value over that.  So a packet with a header of 20
bytes, right lengths and checksums and a time to live above 1 passes the sender and the node, and is dropped by
the receiver as one whose integrity check failed, unless the hash collides on these two packets.\<close>

theorem ipv4_dropped:
  assumes "tether_up env t" and "flags_ok (fe_comp env)"
    and "classify (fe_cls env) (md_five_tuple (f_md p)) (f_body p) = Inr (Inr CR_OK, t_flow t)"
    and "l3_type (t_tc t) = Ipv4" and "canonical_ipv4 (fe_comp env) (t_tc t) (f_body p)"
    and "1 < f_body p ! 8"
    and "\<And>b. length (ce_l4_checksum (fe_comp env) Ipv4 (src_address (t_tc t)) (dst_address (t_tc t)) TCP b) = 2"
    and "16 \<le> length (tail_room (f_sec p))" and "DEFAULT_MESSAGE_HEADROOM \<le> length h2"
    and "rfc1071 (ce_checksum (fe_comp env))"
    and "inj_on (a2a_micv env (t_key t)) {(f_body p) [8 := f_body p ! 8 - 1],
      refreshed (fe_comp env) ((f_body p) [8 := f_body p ! 8 - 1])}"
  shows "\<exists>q1 q2 q3. actor_output env (t_from t) w p = Inr (w \<lparr> substrate_egress_q := substrate_egress_q w @ [q1] \<rparr>)
    \<and> substrate_ingress env (t_node t) w1 (fst (t_at_node t)) (snd (t_at_node t)) (received md1 h1 t1 (f_body (qe_pkt q1)))
        = Inr (w1 \<lparr> substrate_egress_q := substrate_egress_q w1 @ [q2] \<rparr>)
    \<and> substrate_ingress env (t_to t) w2 (fst (t_at_to t)) (snd (t_at_to t)) (received md2 h2 t2 (f_body (qe_pkt q2)))
        = Inr (drop_and_count w2 q3 F_MicvFailure)"
proof -
  let ?bd = "one_hop_less (l3_type (t_tc t)) (f_body p)"
  have bd: "?bd = (f_body p) [8 := f_body p ! 8 - 1]" by (simp add: one_hop_less_def hop_index_def assms(4))
  have len: "20 \<le> length ?bd" using assms(5) by (simp add: bd canonical_ipv4_def)
  have same: "c_packet (fe_comp env) m (l3_type (t_tc t)) pr ?bd
      = c_packet (fe_comp env) m (l3_type (t_tc t)) pr (refreshed (fe_comp env) ?bd)" for m pr
    by (simp add: assms(4) c_packet_def c_ipv4_refreshed [OF len [unfolded assms(4)]])
  have "0 < f_body p ! 8" using assms(6) by (auto simp: word_less_nat_alt)
  then have "refreshed (fe_comp env) ?bd \<noteq> ?bd" unfolding bd by (rule refreshed_differs [OF assms(10,5)])
  then have micv: "a2a_micv env (t_key t) (refreshed (fe_comp env) ?bd) \<noteq> a2a_micv env (t_key t) ?bd"
    using assms(11) unfolding bd by (auto dest!: inj_onD)
  have "canonical (fe_comp env) (t_tc t) (refreshed (fe_comp env) ?bd)" "canonical (fe_comp env) (t_tc t) (f_body p)"
    using assms(4,5) canonical_refreshed by (simp_all add: canonical_def one_hop_less_def hop_index_def)
  from actor_to_actor [OF assms(1,3) _ _ canonical_compressible [OF this(2)] assms(8,9) refl same assms(2) this(1)
      length_refreshed [OF len], of w w1 md1 h1 t1 w2 md2 t2]
  show ?thesis
    using assms(4,6,7) micv by (auto simp: one_hop_less_def hop_index_def)
qed

text \<open>C34 (error). An adapter that may send on a tether can stop the receiving adapter: a packet with a
security association number other than 0 after the stream id is relayed by the node, and
panics the receiver's data path before the integrity check.\<close>

theorem said_panics_receiver:
  assumes "tether_up env t" and "t_sas t = (sa1, sa2, sa3, sa4)"
    and "said \<noteq> 0"
  shows "\<exists>q2. substrate_ingress env (t_node t) w1 (fst (t_at_node t)) (snd (t_at_node t))
      (received md1 h1 t1 (transit env sa1 (t_stream t) (said # rest)))
        = Inr (w1 \<lparr> substrate_egress_q := substrate_egress_q w1 @ [q2] \<rparr>)
    \<and> substrate_ingress env (t_to t) w2 (fst (t_at_to t)) (snd (t_at_to t)) (received md2 h2 t2 (f_body (qe_pkt q2)))
        = Inl (Assert_failed ''not yet implemented: A2A SAID'')"
proof -
  have "actor_input env (t_to t) w2 (t_out_stream t) p = Inl (Assert_failed ''not yet implemented: A2A SAID'')"
    if "f_body p = said # rest" for p
    using that assms(3) by (simp add: actor_input_def s_get_def s_advance_def assertR_def)
  then show ?thesis
    using relayed [OF assms(1,2), of "received md1 h1 t1 (transit env sa1 (t_stream t) (said # rest))" "said # rest"
        w1 w2 md2 h2 t2]
    by (fastforce simp: received_def)
qed

section \<open>Instances\<close>

definition demo_tether :: "L3Type \<Rightarrow> (bytes, nat, nat, nat, nat, nat) tether" where
  "demo_tether l3 = \<lparr> t_flow = demo_flow l3 1234, t_tc = demo_flow l3 0,
     t_from = demo_asm PM_Adapter l3, t_node = demo_asm PM_Node l3, t_to = demo_asm PM_Adapter l3,
     t_key = None, t_stream = 7, t_in_link = 2, t_out_link = 4, t_out_stream = 9,
     t_at_node = (demo_addr, 3), t_at_to = (demo_addr, 3), t_sas = (demo_sa, demo_sa, demo_sa, demo_sa) \<rparr>"

definition demo_out :: "bytes \<Rightarrow> bytes fpkt" where
  "demo_out bd = \<lparr> f_md = demo_md, f_sec = \<lparr> head_room = [], content = bd, tail_room = replicate 16 0 \<rparr> \<rparr>"

definition demo_udp6 :: bytes where
  "demo_udp6 = [0x60, 0, 0, 0, 0, 9, 17, 64] @ demo_v6 1 @ demo_v6 2 @ [4, 210, 0, 80, 0, 9, 0, 0, 99]"

definition demo_udp4 :: bytes where
  "demo_udp4 = [0x45, 0, 0, 29, 0x66, 0xba, 0, 0, 64, 17, 0, 20, 10, 0, 0, 1, 10, 0, 0, 2] @ [4, 210, 0, 80, 0, 9, 0, 0, 99]"

lemma demo_tether_up: "l3 = Ipv4 \<or> l3 = Ipv6 \<Longrightarrow> tether_up demo_fp_env (demo_tether l3)"
proof -
  have "env_ok demo_fp_env"
    by (auto simp: env_ok_def demo_fp_env_def adapter_next_hop_link_def min_def)
  moreover have "fe_capture_program demo_fp_env = None" by (simp add: demo_fp_env_def)
  moreover have "slab_key 2 = 1" "slab_key 4 = 3" by code_simp+
  then have "links_up demo_fp_env (demo_tether l3)" for l3
    by (simp add: links_up_def demo_tether_def sends_on_def hears_on_def paired_def peer_get_def demo_asm_def
        demo_fp_env_def demo_link_def demo_sa_def link_sa_def get_established_transport_association_def
        LinkPeer_new_def is_unspecified_def demo_addr_def lookup_peer_def)
  moreover have "routed demo_fp_env (demo_tether l3)"
    "sender_bound demo_fp_env (demo_tether l3)" "receiver_bound demo_fp_env (demo_tether l3)"
    if "l3 = Ipv4 \<or> l3 = Ipv6" for l3
    using that by (elim disjE; simp; code_simp)+
  moreover assume "l3 = Ipv4 \<or> l3 = Ipv6"
  ultimately show ?thesis by (simp add: tether_up_def)
qed

text \<open>The same environment with the checksum of RFC 1071.\<close>

definition inet_checksum :: "bytes \<Rightarrow> u16" where
  "inet_checksum h = of_int (65535 - inet_sum h mod 65535)"

definition demo_env4 :: "(bytes, nat) fp_env" where
  "demo_env4 = demo_fp_env \<lparr> fe_comp := (fe_comp demo_fp_env) \<lparr> ce_checksum := inet_checksum \<rparr> \<rparr>"

lemma rfc1071_inet_checksum: "rfc1071 inet_checksum"
proof -
  have "(uint (inet_checksum h) + inet_sum h) mod 65535 = 0" for h
  proof -
    define q r where "q = inet_sum h div 65535" and "r = inet_sum h mod 65535"
    have s: "inet_sum h = 65535 * q + r" and r: "0 \<le> r" "r < 65535" by (simp_all add: q_def r_def)
    have "uint (inet_checksum h) = 65535 - r"
      unfolding inet_checksum_def r_def [symmetric] by (subst uint_word_of_int) (use r in simp)
    then have "uint (inet_checksum h) + inet_sum h = 65535 * (q + 1)" by (simp add: s)
    then show ?thesis by simp
  qed
  then show ?thesis by (simp add: rfc1071_def)
qed

lemma demo_tether_up4: "tether_up demo_env4 (demo_tether Ipv4)"
proof -
  have 1: "fe_dock_link demo_env4 = fe_dock_link demo_fp_env" "fe_local_actor_link demo_env4 = fe_local_actor_link demo_fp_env"
    "fe_zpi_0 demo_env4 = fe_zpi_0 demo_fp_env" "fe_ia_unspecified demo_env4 = fe_ia_unspecified demo_fp_env"
    "fe_link_unknown demo_env4 = fe_link_unknown demo_fp_env" "fe_keyed_hash demo_env4 = fe_keyed_hash demo_fp_env"
    "fe_hash demo_env4 = fe_hash demo_fp_env" "fe_capture_program demo_env4 = fe_capture_program demo_fp_env"
    by (simp_all add: demo_env4_def)
  have 2: "mode_of (fe_comp demo_env4) tc = mode_of (fe_comp demo_fp_env) tc" for tc
    by (simp add: demo_env4_def mode_of_def)
  have 3: "asm_owns_address demo_env4 a = asm_owns_address demo_fp_env a" for a :: "(bytes, nat, nat, nat, nat, nat) Assembly"
    by (simp add: fun_eq_iff asm_owns_address_def 1)
  have "tether_up demo_env4 (demo_tether Ipv4) = tether_up demo_fp_env (demo_tether Ipv4)"
    by (simp only: tether_up_def env_ok_def links_up_def sends_on_def hears_on_def routed_def sender_bound_def
        receiver_bound_def 1 2 3)
  then show ?thesis using demo_tether_up [of Ipv4] by simp
qed

lemma demo_checksum_length: "length (ce_l4_checksum (fe_comp demo_fp_env) l3 a b p bs) = 2"
  by (simp add: demo_fp_env_def demo_comp_env_def)

lemma demo_flags: "flags_ok (fe_comp demo_fp_env)" by code_simp

theorem ipv6_delivered_witness:
  "\<exists>q1 q2 q3. actor_output demo_fp_env (demo_asm PM_Adapter Ipv6) demo_worker (demo_out demo_udp6)
      = Inr (demo_worker \<lparr> substrate_egress_q := [q1] \<rparr>)
    \<and> substrate_ingress demo_fp_env (demo_asm PM_Node Ipv6) demo_worker demo_addr 3
        (received demo_md [] [] (f_body (qe_pkt q1))) = Inr (demo_worker \<lparr> substrate_egress_q := [q2] \<rparr>)
    \<and> substrate_ingress demo_fp_env (demo_asm PM_Adapter Ipv6) demo_worker demo_addr 3
        (received demo_md (replicate 256 0) [] (f_body (qe_pkt q2))) = Inr (demo_worker \<lparr> actor_input_q := [q3] \<rparr>)
    \<and> f_body q3 = demo_udp6 [7 := 63]"
proof -
  let ?t = "demo_tether Ipv6" and ?p = "demo_out demo_udp6"
  have 1: "classify (fe_cls demo_fp_env) (md_five_tuple (f_md ?p)) (f_body ?p) = Inr (Inr CR_OK, t_flow ?t)"
    by code_simp
  have 2: "l3_type (t_tc ?t) = Ipv6" "canonical_ipv6 (fe_comp demo_fp_env) (t_tc ?t) (f_body ?p)"
    "1 < f_body ?p ! 7" "16 \<le> length (tail_room (f_sec ?p))" by code_simp+
  have 3: "DEFAULT_MESSAGE_HEADROOM \<le> length (replicate 256 (0 :: u8))" by (simp add: DEFAULT_MESSAGE_HEADROOM_def)
  have 4: "demo_udp6 ! 7 = 64" by (simp add: demo_udp6_def)
  have 5: "f_body ?p = demo_udp6" by (simp add: demo_out_def)
  show ?thesis
    using ipv6_delivered [OF demo_tether_up demo_flags 1 2(1,2,3) demo_checksum_length 2(4) 3,
        of demo_worker demo_worker demo_md "[]" "[]" demo_worker demo_md "[]"] 4 5
    by (simp add: demo_tether_def demo_worker_def)
qed

theorem ipv4_dropped_witness:
  "\<exists>q1 q2 q3. actor_output demo_env4 (demo_asm PM_Adapter Ipv4) demo_worker (demo_out demo_udp4)
      = Inr (demo_worker \<lparr> substrate_egress_q := [q1] \<rparr>)
    \<and> substrate_ingress demo_env4 (demo_asm PM_Node Ipv4) demo_worker demo_addr 3
        (received demo_md [] [] (f_body (qe_pkt q1))) = Inr (demo_worker \<lparr> substrate_egress_q := [q2] \<rparr>)
    \<and> substrate_ingress demo_env4 (demo_asm PM_Adapter Ipv4) demo_worker demo_addr 3
        (received demo_md (replicate 256 0) [] (f_body (qe_pkt q2))) = Inr (drop_and_count demo_worker q3 F_MicvFailure)"
proof -
  let ?t = "demo_tether Ipv4" and ?p = "demo_out demo_udp4"
  have 1: "classify (fe_cls demo_env4) (md_five_tuple (f_md ?p)) (f_body ?p) = Inr (Inr CR_OK, t_flow ?t)"
    by code_simp
  have 2: "l3_type (t_tc ?t) = Ipv4" "canonical_ipv4 (fe_comp demo_env4) (t_tc ?t) (f_body ?p)"
    "1 < f_body ?p ! 8" "16 \<le> length (tail_room (f_sec ?p))"
    "a2a_micv demo_env4 (t_key ?t) (refreshed (fe_comp demo_env4) ((f_body ?p) [8 := f_body ?p ! 8 - 1]))
      \<noteq> a2a_micv demo_env4 (t_key ?t) ((f_body ?p) [8 := f_body ?p ! 8 - 1])" by code_simp+
  have 4: "inj_on (a2a_micv demo_env4 (t_key ?t)) {(f_body ?p) [8 := f_body ?p ! 8 - 1],
      refreshed (fe_comp demo_env4) ((f_body ?p) [8 := f_body ?p ! 8 - 1])}"
    using 2(5) by (auto simp: inj_on_def)
  have 5: "rfc1071 (ce_checksum (fe_comp demo_env4))" by (simp add: demo_env4_def rfc1071_inet_checksum)
  have 6: "length (ce_l4_checksum (fe_comp demo_env4) Ipv4 (src_address (t_tc ?t)) (dst_address (t_tc ?t)) TCP b) = 2" for b
    using demo_checksum_length by (simp add: demo_env4_def)
  have 7: "flags_ok (fe_comp demo_env4)" by code_simp
  have 3: "DEFAULT_MESSAGE_HEADROOM \<le> length (replicate 256 (0 :: u8))" by (simp add: DEFAULT_MESSAGE_HEADROOM_def)
  show ?thesis
    using ipv4_dropped [OF demo_tether_up4 7 1 2(1,2,3) 6 2(4) 3 5 4,
        of demo_worker demo_worker demo_md "[]" "[]" demo_worker demo_md "[]"]
    by (simp add: demo_tether_def demo_worker_def)
qed

theorem said_panics_receiver_witness:
  "\<exists>q2. substrate_ingress demo_fp_env (demo_asm PM_Node Ipv6) demo_worker demo_addr 3
      (received demo_md [] [] (transit demo_fp_env demo_sa 7 [1])) = Inr (demo_worker \<lparr> substrate_egress_q := [q2] \<rparr>)
    \<and> substrate_ingress demo_fp_env (demo_asm PM_Adapter Ipv6) demo_worker demo_addr 3
        (received demo_md [] [] (f_body (qe_pkt q2))) = Inl (Assert_failed ''not yet implemented: A2A SAID'')"
proof -
  have "t_sas (demo_tether Ipv6) = (demo_sa, demo_sa, demo_sa, demo_sa)" by (simp add: demo_tether_def)
  from said_panics_receiver [OF demo_tether_up this, of 1 demo_worker demo_md "[]" "[]" "[]" demo_worker demo_md "[]" "[]"]
  show ?thesis by (simp add: demo_tether_def demo_worker_def)
qed

end
