(* ===== verification/Spec2Isabelle.thy ===== *)
theory Spec2Isabelle
  imports Prelude Zdpr_Receiver Zdpr_Sender Counters Zdpr_Link Zdpr_Session Mgmt_Core Bytes Tlv
    Txn_Mgr Address_Pool Tc Classifier Adapter_Tables Forwarding_Tables Mgmt_Adapter Visa_Table Mgmt_Node Node_Binds
    Packet Compress Peer_Table Fastpath Delivery
begin

text \<open>
  A verification development for zpr-core, the packet handler of the Zero-trust
  Packet Routing network: adapters attach actors to nodes, and nodes forward the
  packets of authorised flows.  Each theory models one part of the program under
  \<open>src/\<close> and proves what makes that part correct.

  \<^item> \<open>Prelude\<close>: panics as values, machine integers, generic lemmas.
  \<^item> \<open>Zdpr_Receiver\<close>, \<open>Zdpr_Sender\<close>: the two ends of a reliable ZDP session,
    \<open>adapter/ph/src/zdpr.rs\<close>.
\<close>

end
